(* ===== verification/Scomp_Prelude.thy ===== *)
theory Scomp_Prelude
  imports Main "HOL-Library.Sublist"
begin

text \<open>
  Shared vocabulary of the development.

  A Go \<^verbatim>\<open>byte\<close> is a \<^typ>\<open>char\<close> (HOL characters are exactly the 256 byte values), and both
  \<^verbatim>\<open>[]byte\<close> and \<^verbatim>\<open>string\<close> are byte lists: a Go string is a byte sequence, \<^verbatim>\<open>len\<close> counts bytes and
  a nil slice has no elements.  A Go slice expression \<^verbatim>\<open>xs[i:j]\<close> is \<open>take\<close>/\<open>drop\<close>; the built-in
  \<^verbatim>\<open>copy\<close> is \<open>copy_at\<close> below, with its truncation to the shorter operand.

  The theory also holds the two generic patterns that the component theories instantiate: the last
  \<open>n\<close> elements of a list (what a bounded buffer remembers) and a locale for step functions that
  preserve an invariant.
\<close>

section \<open>Types and automation\<close>

type_synonym byte = char
type_synonym bytes = "char list"

abbreviation byte_code :: "byte \<Rightarrow> nat" where
  "byte_code c \<equiv> of_char c"

named_theorems go_defs \<open>definitions of the modelled operations that proofs unfold\<close>
named_theorems go_simps \<open>rewrite rules of the component theories\<close>

section \<open>The built-in copy\<close>

text \<open>
  \<open>copy_at dst off src\<close> is the array after \<^verbatim>\<open>copy(dst[off:], src)\<close>, and \<open>copy_len dst off src\<close> the
  number of elements it copied.
\<close>

definition copy_len :: "'a list \<Rightarrow> nat \<Rightarrow> 'a list \<Rightarrow> nat" where
  "copy_len dst off src = min (length dst - off) (length src)"

definition copy_at :: "'a list \<Rightarrow> nat \<Rightarrow> 'a list \<Rightarrow> 'a list" where
  "copy_at dst off src =
     take off dst @ take (copy_len dst off src) src @ drop (off + copy_len dst off src) dst"

section \<open>The last elements of a list\<close>

definition lastn :: "nat \<Rightarrow> 'a list \<Rightarrow> 'a list" where
  "lastn n xs = drop (length xs - n) xs"

lemma copy_len_fits [simp]: "off + length src \<le> length dst \<Longrightarrow> copy_len dst off src = length src"
  by (simp add: copy_len_def)

lemma length_copy_at [simp]: "off \<le> length dst \<Longrightarrow> length (copy_at dst off src) = length dst"
  by (auto simp: copy_at_def copy_len_def)

lemma copy_at_fits:
  "off + length src \<le> length dst \<Longrightarrow>
     copy_at dst off src = take off dst @ src @ drop (off + length src) dst"
  by (simp add: copy_at_def)

lemma lastn_length_le [simp]: "length xs \<le> n \<Longrightarrow> lastn n xs = xs"
  by (simp add: lastn_def)

lemma length_lastn [simp]: "length (lastn n xs) = min n (length xs)"
  by (simp add: lastn_def)

lemma lastn_Nil [simp]: "lastn n [] = []"
  by (simp add: lastn_def)

lemma lastn_0 [simp]: "lastn 0 xs = []"
  by (simp add: lastn_def)

lemma lastn_eq_Nil_iff [simp]: "lastn n xs = [] \<longleftrightarrow> n = 0 \<or> xs = []"
  by (metis length_0_conv length_lastn min_0L min_0R min_def)

lemma lastn_suffix: "suffix (lastn n xs) xs"
  by (simp add: lastn_def suffix_drop)

lemma lastn_append_long [simp]: "n \<le> length ys \<Longrightarrow> lastn n (xs @ ys) = lastn n ys"
  by (simp add: lastn_def)

lemma lastn_append_short:
  "length ys \<le> n \<Longrightarrow> lastn n (xs @ ys) = lastn (n - length ys) xs @ ys"
  by (simp add: lastn_def)

text \<open>Forgetting in two steps forgets the same: the algebra behind every bounded history.\<close>

lemma lastn_lastn_append [simp]: "lastn n (lastn n xs @ ys) = lastn n (xs @ ys)"
proof (cases "n \<le> length ys")
  case True
  then show ?thesis by simp
next
  case False
  have "lastn k (lastn n xs) = lastn k xs" if "k \<le> n" for k
    using that by (cases "length xs \<le> n") (auto simp: lastn_def)
  with False show ?thesis by (simp add: lastn_append_short)
qed

lemma lastn_lastn [simp]: "lastn n (lastn n xs) = lastn n xs"
  using lastn_lastn_append [of n xs "[]"] by simp

section \<open>Step functions that preserve an invariant\<close>

text \<open>
  The contract shared by the stateful components: an operation is one step, a run is a fold of
  steps, and an invariant kept by every step is kept by every run.
\<close>

locale invariant_machine =
  fixes step :: "'s \<Rightarrow> 'e \<Rightarrow> 's"
    and inv :: "'s \<Rightarrow> bool"
  assumes step_inv: "inv s \<Longrightarrow> inv (step s e)"
begin

lemma run_inv: "inv s \<Longrightarrow> inv (foldl step s es)"
  by (induction es arbitrary: s) (auto intro: step_inv)

lemma run_inv_prefix: "inv s \<Longrightarrow> es = pre @ post \<Longrightarrow> inv (foldl step s pre)"
  by (rule run_inv)

end

end
