(* ===== verification/Go_Encoding.thy ===== *)
theory Go_Encoding
  imports Scomp_Prelude
begin

text \<open>
  The encodings of Go's standard library that the agent uses: \<^verbatim>\<open>encoding/hex\<close>, \<^verbatim>\<open>encoding/base64\<close>
  (\<^verbatim>\<open>StdEncoding\<close>) and \<^verbatim>\<open>unicode/utf8\<close>.  Runes are naturals; a decoder that fails returns \<open>None\<close>
  (hex, base64) or \<open>RuneError\<close> with width one (UTF-8), as the library does.  The theory proves the
  round trips the component theories build on.
\<close>

section \<open>Hexadecimal\<close>

definition hex_digit :: "nat \<Rightarrow> char" where
  "hex_digit n = (if n < 10 then char_of (48 + n) else char_of (87 + n))"

fun hex_encode :: "bytes \<Rightarrow> string" where
  "hex_encode [] = []"
| "hex_encode (b # bs) = hex_digit (byte_code b div 16) # hex_digit (byte_code b mod 16) # hex_encode bs"

definition hex_value :: "char \<Rightarrow> nat option" where
  "hex_value c =
     (let n = byte_code c in
      if 48 \<le> n \<and> n \<le> 57 then Some (n - 48)
      else if 97 \<le> n \<and> n \<le> 102 then Some (n - 87)
      else if 65 \<le> n \<and> n \<le> 70 then Some (n - 55)
      else None)"

text \<open>\<^verbatim>\<open>hex.DecodeString\<close>: both cases of the digits are accepted, an odd length is an error.\<close>

fun hex_decode :: "string \<Rightarrow> bytes option" where
  "hex_decode [] = Some []"
| "hex_decode [c] = None"
| "hex_decode (a # b # cs) =
     (case (hex_value a, hex_value b) of
        (Some x, Some y) \<Rightarrow> map_option ((#) (char_of (16 * x + y))) (hex_decode cs)
      | _ \<Rightarrow> None)"

section \<open>Base64\<close>

definition b64_alphabet :: string where
  "b64_alphabet = ''ABCDEFGHIJKLMNOPQRSTUVWXYZabcdefghijklmnopqrstuvwxyz0123456789+/''"

definition b64_digit :: "nat \<Rightarrow> char" where
  "b64_digit n =
     (if n < 26 then char_of (65 + n)
      else if n < 52 then char_of (71 + n)
      else if n < 62 then char_of (n - 4)
      else if n = 62 then CHR ''+'' else CHR ''/'')"

definition b64_value :: "char \<Rightarrow> nat option" where
  "b64_value c =
     (let n = byte_code c in
      if 65 \<le> n \<and> n \<le> 90 then Some (n - 65)
      else if 97 \<le> n \<and> n \<le> 122 then Some (n - 71)
      else if 48 \<le> n \<and> n \<le> 57 then Some (n + 4)
      else if n = 43 then Some 62
      else if n = 47 then Some 63
      else None)"

abbreviation b64_pad :: char where
  "b64_pad \<equiv> CHR ''=''"

fun b64_encode :: "bytes \<Rightarrow> string" where
  "b64_encode [] = []"
| "b64_encode [a] =
     [b64_digit (byte_code a div 4), b64_digit (byte_code a mod 4 * 16), b64_pad, b64_pad]"
| "b64_encode [a, b] =
     [b64_digit (byte_code a div 4), b64_digit (byte_code a mod 4 * 16 + byte_code b div 16),
      b64_digit (byte_code b mod 16 * 4), b64_pad]"
| "b64_encode (a # b # c # bs) =
     b64_digit (byte_code a div 4) #
     b64_digit (byte_code a mod 4 * 16 + byte_code b div 16) #
     b64_digit (byte_code b mod 16 * 4 + byte_code c div 64) #
     b64_digit (byte_code c mod 64) # b64_encode bs"

text \<open>
  \<^verbatim>\<open>StdEncoding.DecodeString\<close>: carriage returns and line feeds are skipped anywhere, padding is
  mandatory, may only end the input, and the unused low bits before it are ignored (the encoding is
  not \<^verbatim>\<open>Strict\<close>).
\<close>

fun b64_decode_quads :: "string \<Rightarrow> bytes option" where
  "b64_decode_quads [] = Some []"
| "b64_decode_quads (w # x # y # z # cs) =
     (case (b64_value w, b64_value x) of
        (Some p, Some q) \<Rightarrow>
          if y = b64_pad then
            (if z = b64_pad \<and> cs = [] then Some [char_of (p * 4 + q div 16)] else None)
          else
            (case b64_value y of
               None \<Rightarrow> None
             | Some r \<Rightarrow>
                 if z = b64_pad then
                   (if cs = [] then Some [char_of (p * 4 + q div 16), char_of (q mod 16 * 16 + r div 4)]
                    else None)
                 else
                   (case b64_value z of
                      None \<Rightarrow> None
                    | Some s \<Rightarrow>
                        map_option (\<lambda>ds. char_of (p * 4 + q div 16) # char_of (q mod 16 * 16 + r div 4) #
                            char_of (r mod 4 * 64 + s) # ds)
                          (b64_decode_quads cs)))
      | _ \<Rightarrow> None)"
| "b64_decode_quads cs = None"

definition b64_decode :: "string \<Rightarrow> bytes option" where
  "b64_decode s = b64_decode_quads (filter (\<lambda>c. c \<noteq> CHR 0x0A \<and> c \<noteq> CHR 0x0D) s)"

section \<open>UTF-8\<close>

type_synonym rune = nat

definition RuneError :: rune where "RuneError = 0xFFFD"
definition MaxRune :: rune where "MaxRune = 0x10FFFF"
definition UTFMax :: nat where "UTFMax = 4"

definition valid_rune :: "rune \<Rightarrow> bool" where
  "valid_rune r \<longleftrightarrow> r < 0xD800 \<or> (0xDFFF < r \<and> r \<le> MaxRune)"

text \<open>
  What the first byte announces: \<open>None\<close> for a byte that cannot start a rune, otherwise the length of
  the sequence and the range its second byte must lie in.
\<close>

definition utf8_first :: "nat \<Rightarrow> (nat \<times> nat \<times> nat) option" where
  "utf8_first b =
     (if b < 0x80 then Some (1, 0, 0)
      else if b < 0xC2 then None
      else if b < 0xE0 then Some (2, 0x80, 0xBF)
      else if b = 0xE0 then Some (3, 0xA0, 0xBF)
      else if b = 0xED then Some (3, 0x80, 0x9F)
      else if b < 0xF0 then Some (3, 0x80, 0xBF)
      else if b = 0xF0 then Some (4, 0x90, 0xBF)
      else if b < 0xF4 then Some (4, 0x80, 0xBF)
      else if b = 0xF4 then Some (4, 0x80, 0x8F)
      else None)"

definition utf8_cont :: "nat \<Rightarrow> bool" where
  "utf8_cont b \<longleftrightarrow> 0x80 \<le> b \<and> b \<le> 0xBF"

definition FullRune :: "bytes \<Rightarrow> bool" where
  "FullRune p =
     (case p of
        [] \<Rightarrow> False
      | p0 # rest \<Rightarrow>
          (case utf8_first (byte_code p0) of
             None \<Rightarrow> True
           | Some (n, lo, hi) \<Rightarrow>
               if n \<le> length p then True
               else (case rest of
                   [] \<Rightarrow> False
                 | p1 # rest2 \<Rightarrow>
                     if byte_code p1 < lo \<or> hi < byte_code p1 then True
                     else (case rest2 of [] \<Rightarrow> False | p2 # _ \<Rightarrow> \<not> utf8_cont (byte_code p2)))))"

definition DecodeRune :: "bytes \<Rightarrow> rune \<times> nat" where
  "DecodeRune p =
     (case p of
        [] \<Rightarrow> (RuneError, 0)
      | p0 # rest \<Rightarrow>
          (case utf8_first (byte_code p0) of
             None \<Rightarrow> (RuneError, 1)
           | Some (n, lo, hi) \<Rightarrow>
               if n = 1 then (byte_code p0, 1)
               else if length p < n then (RuneError, 1)
               else let b0 = byte_code p0; b1 = byte_code (p ! 1) in
                 if b1 < lo \<or> hi < b1 then (RuneError, 1)
                 else if n = 2 then (b0 mod 32 * 64 + b1 mod 64, 2)
                 else let b2 = byte_code (p ! 2) in
                   if \<not> utf8_cont b2 then (RuneError, 1)
                   else if n = 3 then (b0 mod 16 * 4096 + b1 mod 64 * 64 + b2 mod 64, 3)
                   else let b3 = byte_code (p ! 3) in
                     if \<not> utf8_cont b3 then (RuneError, 1)
                     else (b0 mod 8 * 262144 + b1 mod 64 * 4096 + b2 mod 64 * 64 + b3 mod 64, 4)))"

definition EncodeRune :: "rune \<Rightarrow> bytes" where
  "EncodeRune r0 =
     (let r = (if valid_rune r0 then r0 else RuneError) in
      if r < 0x80 then [char_of r]
      else if r < 0x800 then [char_of (0xC0 + r div 64), char_of (0x80 + r mod 64)]
      else if r < 0x10000 then
        [char_of (0xE0 + r div 4096), char_of (0x80 + r div 64 mod 64), char_of (0x80 + r mod 64)]
      else
        [char_of (0xF0 + r div 262144), char_of (0x80 + r div 4096 mod 64),
         char_of (0x80 + r div 64 mod 64), char_of (0x80 + r mod 64)])"

text \<open>The conversions \<^verbatim>\<open>string(runes)\<close> and \<^verbatim>\<open>[]rune(s)\<close>, the latter also what \<^verbatim>\<open>range s\<close> visits.\<close>

definition string_of_runes :: "rune list \<Rightarrow> bytes" where
  "string_of_runes rs = concat (map EncodeRune rs)"

lemma DecodeRune_width: "p \<noteq> [] \<Longrightarrow> 0 < snd (DecodeRune p)"
  by (auto simp: DecodeRune_def Let_def split: list.splits option.splits prod.splits)

function runes_of_string :: "bytes \<Rightarrow> rune list" where
  "runes_of_string p =
     (if p = [] then []
      else let (r, n) = DecodeRune p in r # runes_of_string (drop n p))"
  by pat_completeness auto
termination
proof (relation "measure length", simp)
  fix p :: bytes and x r n
  assume "p \<noteq> []" "x = DecodeRune p" "(r, n) = x"
  then have "0 < n" using DecodeRune_width [of p] by (metis snd_conv)
  with \<open>p \<noteq> []\<close> show "(drop n p, p) \<in> measure length" by simp
qed

declare runes_of_string.simps [simp del]

section \<open>Round trips\<close>

lemma byte_code_less: "byte_code c < 256"
  by simp

lemma byte_code_div_less [simp]:
  "byte_code c div 4 < 64" "byte_code c div 16 < 16" "byte_code c div 64 < 4"
  by (rule less_mult_imp_div_less, simp)+

lemma byte_code_char_of [simp]: "n < 256 \<Longrightarrow> byte_code (char_of n) = n"
  by simp

lemma char_of_byte_code: "n = byte_code c \<Longrightarrow> char_of n = c"
  by simp

lemma char_of_neq: "n < 256 \<Longrightarrow> n \<noteq> byte_code c \<Longrightarrow> char_of n \<noteq> c"
  by auto

lemma hex_value_digit [simp]: "n < 16 \<Longrightarrow> hex_value (hex_digit n) = Some n"
  by (simp add: hex_value_def hex_digit_def Let_def)

lemma hex_roundtrip: "hex_decode (hex_encode bs) = Some bs"
  by (induction bs) simp_all

lemma length_hex_encode [simp]: "length (hex_encode bs) = 2 * length bs"
  by (induction bs) auto

lemma length_hex_decode: "hex_decode s = Some bs \<Longrightarrow> length s = 2 * length bs"
  by (induction s arbitrary: bs rule: hex_decode.induct) (auto split: option.splits)

lemma b64_value_digit [simp]: "n < 64 \<Longrightarrow> b64_value (b64_digit n) = Some n"
  by (auto simp: b64_value_def b64_digit_def Let_def)

lemma b64_digit_code: "n < 64 \<Longrightarrow> byte_code (b64_digit n) \<notin> {10, 13, 61}"
  by (auto simp: b64_digit_def)

lemma b64_digit_neq [simp]:
  assumes "n < 64"
  shows "b64_digit n \<noteq> b64_pad" "b64_digit n \<noteq> CHR 0x0A" "b64_digit n \<noteq> CHR 0x0D"
  using b64_digit_code [OF assms] by auto

lemma b64_split_less [simp]:
  "a mod 4 * 16 < (64::nat)" "b mod 16 * 4 < (64::nat)"
  "y < 16 \<Longrightarrow> a mod 4 * 16 + y < (64::nat)" "z < 4 \<Longrightarrow> b mod 16 * 4 + z < (64::nat)"
proof -
  have "a mod 4 < 4" "b mod 16 < 16" by simp_all
  then show "a mod 4 * 16 < 64" "b mod 16 * 4 < 64"
    "y < 16 \<Longrightarrow> a mod 4 * 16 + y < 64" "z < 4 \<Longrightarrow> b mod 16 * 4 + z < 64"
    by linarith+
qed

lemma b64_join [simp]:
  fixes a b y :: nat
  shows "a div 4 * 4 + a mod 4 = a" "a div 16 * 16 + a mod 16 = a" "a div 64 * 64 + a mod 64 = a"
    "a mod 4 * 16 div 16 = a mod 4" "b mod 16 * 4 div 4 = b mod 16"
    "y < 16 \<Longrightarrow> (a mod 4 * 16 + y) div 16 = a mod 4" "y < 16 \<Longrightarrow> (a mod 4 * 16 + y) mod 16 = y"
    "y < 4 \<Longrightarrow> (a mod 16 * 4 + y) div 4 = a mod 16" "y < 4 \<Longrightarrow> (a mod 16 * 4 + y) mod 4 = y"
  by simp_all

lemma b64_encode_no_newline [simp]:
  "filter (\<lambda>c. c \<noteq> CHR 0x0A \<and> c \<noteq> CHR 0x0D) (b64_encode bs) = b64_encode bs"
  by (induction bs rule: b64_encode.induct) simp_all

lemma b64_roundtrip: "b64_decode (b64_encode bs) = Some bs"
proof -
  have "b64_decode_quads (b64_encode bs) = Some bs"
    by (induction bs rule: b64_encode.induct) simp_all
  then show ?thesis by (simp add: b64_decode_def)
qed

text \<open>
  A rune survives encoding and decoding, and no proper prefix of its encoding is taken for a complete
  rune: the two facts behind decoding input that arrives in arbitrary pieces.
\<close>

lemma EncodeRune_small: "r < 0x80 \<Longrightarrow> EncodeRune r = [char_of r]"
  by (simp add: EncodeRune_def valid_rune_def)

lemma mod_offset [simp]:
  fixes q :: nat
  shows "q < 32 \<Longrightarrow> (192 + q) mod 32 = q" "q < 16 \<Longrightarrow> (224 + q) mod 16 = q"
    "q < 8 \<Longrightarrow> (240 + q) mod 8 = q" "q < 64 \<Longrightarrow> (128 + q) mod 64 = q"
  using mod_mult_self1 [of q 6 32] mod_mult_self1 [of q 14 16] mod_mult_self1 [of q 30 8]
    mod_mult_self1 [of q 2 64] by (simp_all add: add.commute)

text \<open>The payloads a two, three or four byte sequence can carry.\<close>

definition payload3 :: "nat \<Rightarrow> nat \<Rightarrow> bool" where
  "payload3 q m \<longleftrightarrow> q < 16 \<and> m < 64 \<and> (q = 0 \<longrightarrow> 32 \<le> m) \<and> (q = 13 \<longrightarrow> m < 32)"

definition payload4 :: "nat \<Rightarrow> nat \<Rightarrow> bool" where
  "payload4 q m \<longleftrightarrow> q \<le> 4 \<and> m < 64 \<and> (q = 0 \<longrightarrow> 16 \<le> m) \<and> (q = 4 \<longrightarrow> m < 16)"

lemma utf8_first2: "2 \<le> q \<Longrightarrow> q < 32 \<Longrightarrow> utf8_first (192 + q) = Some (2, 0x80, 0xBF)"
  by (simp add: utf8_first_def)

lemma utf8_first3:
  "payload3 q m \<Longrightarrow> \<exists>lo hi. utf8_first (224 + q) = Some (3, lo, hi) \<and> lo \<le> 128 + m \<and> 128 + m \<le> hi"
  by (auto simp: utf8_first_def payload3_def)

lemma utf8_first4:
  "payload4 q m \<Longrightarrow> \<exists>lo hi. utf8_first (240 + q) = Some (4, lo, hi) \<and> lo \<le> 128 + m \<and> 128 + m \<le> hi"
  by (auto simp: utf8_first_def payload4_def)

lemma EncodeRune_cases [consumes 1, case_names one two three four]:
  assumes "valid_rune r"
  obtains "r < 0x80" "EncodeRune r = [char_of r]"
  | q m where "2 \<le> q" "q < 32" "m < 64" "r = q * 64 + m"
      "EncodeRune r = [char_of (192 + q), char_of (128 + m)]"
  | q m k where "payload3 q m" "k < 64" "r = q * 4096 + m * 64 + k"
      "EncodeRune r = [char_of (224 + q), char_of (128 + m), char_of (128 + k)]"
  | q m k l where "payload4 q m" "k < 64" "l < 64" "r = q * 262144 + m * 4096 + k * 64 + l"
      "EncodeRune r = [char_of (240 + q), char_of (128 + m), char_of (128 + k), char_of (128 + l)]"
proof -
  have div4096: "r div 4096 = r div 64 div 64" by (simp flip: div_mult2_eq)
  have max: "r \<le> 0x10FFFF" using assms by (auto simp: valid_rune_def MaxRune_def)
  consider "r < 0x80" | "0x80 \<le> r" "r < 0x800" | "0x800 \<le> r" "r < 0x10000" | "0x10000 \<le> r"
    by linarith
  then show thesis
  proof cases
    case 1
    then show thesis using that(1) by (simp add: EncodeRune_small)
  next
    case 2
    then show thesis using assms
      by (intro that(2) [of "r div 64" "r mod 64"]) (auto simp: EncodeRune_def Let_def)
  next
    case 3
    define s where "s = r div 64"
    have "32 \<le> s" "s < 1024" "s < 864 \<or> 896 \<le> s"
      using 3 assms by (auto simp: s_def valid_rune_def)
    moreover have "s = s div 64 * 64 + s mod 64" "s mod 64 < 64" by simp_all
    ultimately have "payload3 (s div 64) (s mod 64)" unfolding payload3_def by linarith
    then have "payload3 (r div 4096) (r div 64 mod 64)"
      by (simp add: s_def flip: div_mult2_eq)
    moreover have "r = r div 4096 * 4096 + r div 64 mod 64 * 64 + r mod 64"
      using div_mult_mod_eq [of r 64] div_mult_mod_eq [of "r div 64" 64] div4096 by linarith
    ultimately show thesis using 3 assms
      by (intro that(3) [of "r div 4096" "r div 64 mod 64" "r mod 64"]) (auto simp: EncodeRune_def Let_def)
  next
    case 4
    define s where "s = r div 4096"
    have "16 \<le> s" "s < 272" using 4 max by (auto simp: s_def)
    moreover have "s = s div 64 * 64 + s mod 64" "s mod 64 < 64" by simp_all
    ultimately have "payload4 (s div 64) (s mod 64)" unfolding payload4_def by linarith
    moreover have s: "s div 64 = r div 262144" by (simp add: s_def flip: div_mult2_eq)
    ultimately have "payload4 (r div 262144) (r div 4096 mod 64)" by (simp add: s_def)
    moreover have "r = r div 262144 * 262144 + r div 4096 mod 64 * 4096 + r div 64 mod 64 * 64 + r mod 64"
      using s [unfolded s_def] div4096 div_mult_mod_eq [of r 64] div_mult_mod_eq [of "r div 64" 64]
        div_mult_mod_eq [of "r div 4096" 64] by linarith
    ultimately show thesis using 4 assms
      by (intro that(4) [of "r div 262144" "r div 4096 mod 64" "r div 64 mod 64" "r mod 64"])
        (auto simp: EncodeRune_def Let_def)
  qed
qed

lemma DecodeRune_EncodeRune:
  assumes "valid_rune r"
  shows "DecodeRune (EncodeRune r @ rest) = (r, length (EncodeRune r))"
  using assms
proof (cases rule: EncodeRune_cases)
  case one
  then show ?thesis by (simp add: DecodeRune_def utf8_first_def)
next
  case (two q m)
  then show ?thesis by (simp add: DecodeRune_def utf8_first2)
next
  case (three q m k)
  then have "q < 16" "m < 64" by (auto simp: payload3_def)
  with three utf8_first3 [of q m] show ?thesis by (auto simp: DecodeRune_def utf8_cont_def)
next
  case (four q m k l)
  then have "q < 8" "m < 64" by (auto simp: payload4_def)
  with four utf8_first4 [of q m] show ?thesis by (auto simp: DecodeRune_def utf8_cont_def)
qed

lemma FullRune_EncodeRune:
  assumes "valid_rune r"
  shows "FullRune (EncodeRune r)"
    and "n < length (EncodeRune r) \<Longrightarrow> \<not> FullRune (take n (EncodeRune r))"
proof -
  have small: "n < 4 \<Longrightarrow> n = 0 \<or> n = 1 \<or> n = 2 \<or> n = 3" for n :: nat by auto
  from assms have "FullRune (EncodeRune r) \<and>
    (\<forall>n < length (EncodeRune r). \<not> FullRune (take n (EncodeRune r)))"
  proof (cases rule: EncodeRune_cases)
    case one
    then show ?thesis by (simp add: FullRune_def utf8_first_def)
  next
    case (two q m)
    then show ?thesis by (auto simp: FullRune_def utf8_first2 less_Suc_eq)
  next
    case (three q m k)
    then have "q < 16" "m < 64" by (auto simp: payload3_def)
    with three utf8_first3 [of q m] show ?thesis
      by (auto simp: FullRune_def utf8_cont_def less_Suc_eq)
  next
    case (four q m k l)
    then have "q < 8" "m < 64" by (auto simp: payload4_def)
    with four utf8_first4 [of q m] show ?thesis
      by (auto simp: FullRune_def utf8_cont_def less_Suc_eq)
  qed
  then show "FullRune (EncodeRune r)"
    and "n < length (EncodeRune r) \<Longrightarrow> \<not> FullRune (take n (EncodeRune r))" by auto
qed

lemma runes_of_string_of_runes: "list_all valid_rune rs \<Longrightarrow> runes_of_string (string_of_runes rs) = rs"
proof (induction rs)
  case (Cons r rs)
  have "EncodeRune r \<noteq> []" by (simp add: EncodeRune_def Let_def)
  with Cons show ?case
    by (subst runes_of_string.simps) (simp add: string_of_runes_def DecodeRune_EncodeRune)
qed (simp add: runes_of_string.simps string_of_runes_def)

end
