(* ===== verification/Ring_Buffer.thy ===== *)
theory Ring_Buffer
  imports Scomp_Prelude
begin

text \<open>
  The circular byte buffer of \<^verbatim>\<open>src/internal/ring/ring.go\<close>.  The mutex makes every method one
  atomic step, so each is a function on the record of the three fields.  The theory ends with the
  interface its clients rely on, a bounded log that keeps the last \<open>size\<close> bytes written since the
  last reset, and the proof that the buffer provides it.
\<close>

section \<open>Model\<close>

record ring =
  buf :: bytes
  head :: nat
  full :: bool

definition DefaultSize :: nat where
  "DefaultSize = 2 ^ 20"

definition ring_New :: "nat \<Rightarrow> ring" where
  "ring_New n = \<lparr>buf = replicate n (CHR 0x00), head = 0, full = False\<rparr>"

definition ring_Write :: "ring \<Rightarrow> bytes \<Rightarrow> ring" where
  "ring_Write b p =
     (if length p = 0 then b
      else let sz = length (buf b) in
        if sz = 0 then b
        else if sz \<le> length p then
          b\<lparr>buf := copy_at (buf b) 0 (drop (length p - sz) p), head := 0, full := True\<rparr>
        else let tail = sz - head b in
          if length p \<le> tail then
            let b' = b\<lparr>buf := copy_at (buf b) (head b) p, head := head b + length p\<rparr> in
            if head b' = sz then b'\<lparr>head := 0, full := True\<rparr> else b'
          else
            let n = copy_len (buf b) (head b) p;
                buf1 = copy_at (buf b) (head b) p;
                buf2 = copy_at buf1 0 (drop n p)
            in b\<lparr>buf := buf2, head := length p - n, full := True\<rparr>)"

definition ring_Snapshot :: "ring \<Rightarrow> bytes" where
  "ring_Snapshot b =
     (if head b = 0 \<and> \<not> full b then []
      else if \<not> full b then take (head b) (buf b)
      else
        let out = replicate (length (buf b)) (CHR 0x00);
            n = copy_len out 0 (drop (head b) (buf b));
            out1 = copy_at out 0 (drop (head b) (buf b))
        in copy_at out1 n (take (head b) (buf b)))"

definition ring_Reset :: "ring \<Rightarrow> ring" where
  "ring_Reset b = b\<lparr>head := 0, full := False\<rparr>"

section \<open>Invariant\<close>

text \<open>
  The write position stays inside the array (or the array is empty), and a buffer that claims to be
  full has an array to be full of.
\<close>

definition ring_inv :: "ring \<Rightarrow> bool" where
  "ring_inv b \<longleftrightarrow> (if buf b = [] then head b = 0 \<and> \<not> full b else head b < length (buf b))"

definition ring_size :: "ring \<Rightarrow> nat" where
  "ring_size b = length (buf b)"

lemma ring_inv_New [simp]: "ring_inv (ring_New n)"
  by (simp add: ring_inv_def ring_New_def)

lemma ring_inv_Reset [simp]: "ring_inv b \<Longrightarrow> ring_inv (ring_Reset b)"
  by (auto simp: ring_inv_def ring_Reset_def split: if_splits)

lemma ring_size_New [simp]: "ring_size (ring_New n) = n"
  by (simp add: ring_size_def ring_New_def)

lemma ring_size_Reset [simp]: "ring_size (ring_Reset b) = ring_size b"
  by (simp add: ring_size_def ring_Reset_def)

text \<open>The snapshot in closed form: the older half behind the write position, then the newer one.\<close>

lemma ring_Snapshot_eq:
  assumes "ring_inv b"
  shows "ring_Snapshot b =
           (if full b then drop (head b) (buf b) @ take (head b) (buf b)
            else take (head b) (buf b))"
  using assms by (auto simp: ring_Snapshot_def ring_inv_def copy_at_def copy_len_def Let_def
      split: if_splits)

lemma ring_Snapshot_New [simp]: "ring_Snapshot (ring_New n) = []"
  by (simp add: ring_Snapshot_def ring_New_def)

lemma ring_Snapshot_Reset [simp]: "ring_Snapshot (ring_Reset b) = []"
  by (simp add: ring_Snapshot_def ring_Reset_def)

section \<open>Writing\<close>

text \<open>One lemma per branch of \<^verbatim>\<open>Write\<close>.\<close>

lemma ring_Write_nop [simp]: "p = [] \<or> buf b = [] \<Longrightarrow> ring_Write b p = b"
  by (auto simp: ring_Write_def Let_def)

lemma ring_Write_over:
  assumes "buf b \<noteq> []" "length (buf b) \<le> length p"
  shows "ring_Write b p = b\<lparr>buf := lastn (length (buf b)) p, head := 0, full := True\<rparr>"
proof -
  have "p \<noteq> []" using assms by auto
  with assms show ?thesis
    by (simp add: ring_Write_def lastn_def copy_at_def copy_len_def Let_def)
qed

lemma ring_Write_fits:
  assumes "ring_inv b" "p \<noteq> []" "length p < length (buf b)" "head b + length p \<le> length (buf b)"
  shows "ring_Write b p =
    b\<lparr>buf := take (head b) (buf b) @ p @ drop (head b + length p) (buf b),
      head := (if head b + length p = length (buf b) then 0 else head b + length p),
      full := (head b + length p = length (buf b) \<or> full b)\<rparr>"
  using assms by (auto simp: ring_Write_def ring_inv_def copy_at_fits Let_def)

lemma ring_Write_wraps:
  assumes "ring_inv b" "length p < length (buf b)" "length (buf b) < head b + length p"
  defines "n \<equiv> length (buf b) - head b"
  shows "ring_Write b p =
    b\<lparr>buf := drop n p @ drop (length p - n) (take (head b) (buf b)) @ take n p,
      head := length p - n, full := True\<rparr>"
proof -
  have h: "head b < length (buf b)" and p: "p \<noteq> []" and ne: "buf b \<noteq> []"
    using assms by (auto simp: ring_inv_def split: if_splits)
  have c: "copy_len (buf b) (head b) p = n" using assms h by (simp add: copy_len_def)
  have b1: "copy_at (buf b) (head b) p = take (head b) (buf b) @ take n p"
    using c h by (simp add: copy_at_def n_def)
  have l: "length p - n \<le> head b" using assms h by simp
  have "copy_at (copy_at (buf b) (head b) p) 0 (drop n p) =
      drop n p @ drop (length p - n) (take (head b) (buf b)) @ take n p"
    using l h assms by (simp add: copy_at_fits b1)
  moreover have "\<not> length p \<le> length (buf b) - head b" using assms h by simp
  ultimately show ?thesis using assms p ne c by (simp add: ring_Write_def Let_def n_def)
qed

lemma ring_Write_cases [case_names nop over fits wraps]:
  assumes "p = [] \<or> buf b = [] \<Longrightarrow> P"
    and "buf b \<noteq> [] \<Longrightarrow> length (buf b) \<le> length p \<Longrightarrow> P"
    and "p \<noteq> [] \<Longrightarrow> length p < length (buf b) \<Longrightarrow> head b + length p \<le> length (buf b) \<Longrightarrow> P"
    and "length p < length (buf b) \<Longrightarrow> length (buf b) < head b + length p \<Longrightarrow> P"
  shows P
  using assms by (metis not_le)

lemma ring_inv_Write [simp]: "ring_inv b \<Longrightarrow> ring_inv (ring_Write b p)"
  by (cases rule: ring_Write_cases [of p b])
    (auto simp: ring_Write_over ring_Write_fits ring_Write_wraps ring_inv_def split: if_splits)

lemma ring_size_Write [simp]: "ring_inv b \<Longrightarrow> ring_size (ring_Write b p) = ring_size b"
  by (cases rule: ring_Write_cases [of p b])
    (auto simp: ring_size_def ring_Write_over ring_Write_fits ring_Write_wraps ring_inv_def
      split: if_splits)

lemma ring_Snapshot_Write:
  assumes "ring_inv b"
  shows "ring_Snapshot (ring_Write b p) = lastn (ring_size b) (ring_Snapshot b @ p)"
proof (cases rule: ring_Write_cases [of p b])
  case nop
  then show ?thesis using assms
    by (auto simp: ring_Snapshot_eq ring_size_def ring_inv_def split: if_splits)
next
  case over
  then show ?thesis using assms ring_inv_Write [of b p]
    by (auto simp: ring_Snapshot_eq ring_Write_over ring_size_def)
next
  case fits
  then show ?thesis using assms ring_inv_Write [of b p]
    by (auto simp: ring_Snapshot_eq ring_Write_fits ring_size_def ring_inv_def lastn_def add.commute
        split: if_splits)
next
  case wraps
  then show ?thesis using assms ring_inv_Write [of b p]
    by (auto simp: ring_Snapshot_eq ring_Write_wraps ring_size_def ring_inv_def lastn_def add.commute
        split: if_splits)
qed

lemma ring_Snapshot_bound: "ring_inv b \<Longrightarrow> length (ring_Snapshot b) \<le> ring_size b"
  by (auto simp: ring_Snapshot_eq ring_size_def ring_inv_def split: if_splits)

section \<open>The interface: a bounded log\<close>

text \<open>
  What \<^verbatim>\<open>internal/stream\<close> relies on.  A log operation is a write or a reset; \<open>retained\<close> is what the
  operations leave behind when nothing is ever forgotten for lack of room.
\<close>

datatype log_op = Put bytes | Clear

fun retained :: "bytes \<Rightarrow> log_op list \<Rightarrow> bytes" where
  "retained acc [] = acc"
| "retained acc (Put p # ops) = retained (acc @ p) ops"
| "retained acc (Clear # ops) = retained [] ops"

fun log_apply :: "('b \<Rightarrow> bytes \<Rightarrow> 'b) \<Rightarrow> ('b \<Rightarrow> 'b) \<Rightarrow> 'b \<Rightarrow> log_op \<Rightarrow> 'b" where
  "log_apply write reset b (Put p) = write b p"
| "log_apply write reset b Clear = reset b"

lemma retained_append: "retained acc (xs @ ys) = retained (retained acc xs) ys"
  by (induction acc xs rule: retained.induct) auto

lemma retained_lastn: "lastn n (retained (lastn n acc) ops) = lastn n (retained acc ops)"
proof (induction ops arbitrary: acc)
  case (Cons op ops)
  then show ?case
    using Cons.IH [of "lastn n acc @ p" for p] Cons.IH [of "acc @ p" for p]
    by (cases op) (metis lastn_lastn_append retained.simps(2), simp)
qed simp

locale bounded_log =
  fixes inv :: "'b \<Rightarrow> bool"
    and capacity :: "'b \<Rightarrow> nat"
    and append_log :: "'b \<Rightarrow> bytes \<Rightarrow> 'b"
    and reset :: "'b \<Rightarrow> 'b"
    and snapshot :: "'b \<Rightarrow> bytes"
  assumes inv_write: "inv b \<Longrightarrow> inv (append_log b p)"
    and inv_reset: "inv b \<Longrightarrow> inv (reset b)"
    and capacity_write: "inv b \<Longrightarrow> capacity (append_log b p) = capacity b"
    and capacity_reset: "inv b \<Longrightarrow> capacity (reset b) = capacity b"
    and snapshot_write: "inv b \<Longrightarrow> snapshot (append_log b p) = lastn (capacity b) (snapshot b @ p)"
    and snapshot_reset: "inv b \<Longrightarrow> snapshot (reset b) = []"
    and snapshot_bound: "inv b \<Longrightarrow> length (snapshot b) \<le> capacity b"
begin

lemmas log_laws = inv_write inv_reset capacity_write capacity_reset snapshot_write snapshot_reset

lemma run_keeps:
  "inv b \<Longrightarrow> inv (foldl (log_apply append_log reset) b ops) \<and>
     capacity (foldl (log_apply append_log reset) b ops) = capacity b"
proof (induction ops arbitrary: b)
  case (Cons op ops)
  then show ?case by (cases op) (auto simp: log_laws)
qed simp

lemma snapshot_run:
  "inv b \<Longrightarrow>
     snapshot (foldl (log_apply append_log reset) b ops) = lastn (capacity b) (retained (snapshot b) ops)"
proof (induction ops arbitrary: b)
  case Nil
  then show ?case by (simp add: snapshot_bound)
next
  case (Cons op ops)
  then show ?case by (cases op) (auto simp: log_laws retained_lastn)
qed

end

interpretation ring_log: bounded_log ring_inv ring_size ring_Write ring_Reset ring_Snapshot
  by unfold_locales (auto simp: ring_Snapshot_Write ring_Snapshot_bound)

section \<open>Properties\<close>

text \<open>
  C2.  Refinement of the bounded log: after any sequence of writes and resets on a buffer created
  with capacity \<open>n\<close>, the snapshot is exactly the last \<open>n\<close> bytes of what was written since the last
  reset, in chronological order, whatever the sizes of the individual writes and however often the
  buffer wrapped.
\<close>

theorem ring_refines_bounded_log:
  "ring_Snapshot (foldl (log_apply ring_Write ring_Reset) (ring_New n) ops) =
     lastn n (retained [] ops)"
  using ring_log.snapshot_run [of "ring_New n" ops] by simp

end
