(* ===== verification/Output_Stream.thy ===== *)
theory Output_Stream
  imports Ring_Buffer "HOL-Library.AList"
begin

text \<open>
  The output side of a terminal session, \<^verbatim>\<open>src/internal/stream/stream.go\<close>: a ring of recent output
  plus a fan-out to subscriber channels, with snapshots taken at exact points of the stream.

  Buffered Go channels are records of a capacity and a queue, held in a store indexed by channel
  identity, because the sender (the stream) and the receiver (a forwarder) share them.  The
  subscriber map is an association list in the order one iteration of Go's map visits it; nothing
  below depends on that order.  An overflow callback is a token; \<^verbatim>\<open>broadcast\<close> returns the tokens of
  the callbacks it fired.  \<^verbatim>\<open>Stream.mu\<close> makes \<^verbatim>\<open>Emit\<close>, \<^verbatim>\<open>EmitReset\<close> and \<^verbatim>\<open>RequestSnapshot\<close> atomic, and
  \<^verbatim>\<open>broadcast\<close> copies the subscriber map before it sends, so a concurrent \<^verbatim>\<open>Subscribe\<close> or
  \<^verbatim>\<open>Unsubscribe\<close> takes effect before or after a whole \<^verbatim>\<open>Emit\<close>.
\<close>

section \<open>Channels\<close>

record 'e chan =
  cap :: nat
  queue :: "'e list"

text \<open>The send and receive arms of a \<^verbatim>\<open>select\<close> with a \<^verbatim>\<open>default\<close>: \<open>None\<close> is the default arm.\<close>

definition chan_make :: "nat \<Rightarrow> 'e chan" where
  "chan_make n = \<lparr>cap = n, queue = []\<rparr>"

definition chan_try_send :: "'e chan \<Rightarrow> 'e \<Rightarrow> 'e chan option" where
  "chan_try_send c e =
     (if length (queue c) < cap c then Some (c\<lparr>queue := queue c @ [e]\<rparr>) else None)"

definition chan_try_recv :: "'e chan \<Rightarrow> ('e \<times> 'e chan) option" where
  "chan_try_recv c =
     (case queue c of [] \<Rightarrow> None | e # es \<Rightarrow> Some (e, c\<lparr>queue := es\<rparr>))"

section \<open>Model\<close>

record event =
  Data :: bytes
  Snapshot :: bool
  ClientID :: string

type_synonym chan_id = nat
type_synonym event_chans = "chan_id \<Rightarrow> event chan"

record 'cb stream =
  ring :: ring
  subs :: "(chan_id \<times> 'cb option) list"

abbreviation live_event :: "bytes \<Rightarrow> event" where
  "live_event d \<equiv> \<lparr>Data = d, Snapshot = False, ClientID = []\<rparr>"

abbreviation snapshot_event :: "bytes \<Rightarrow> string \<Rightarrow> event" where
  "snapshot_event d c \<equiv> \<lparr>Data = d, Snapshot = True, ClientID = c\<rparr>"

definition stream_New :: "nat \<Rightarrow> 'cb stream" where
  "stream_New n = \<lparr>ring = ring_New n, subs = []\<rparr>"

fun broadcast_to ::
    "(chan_id \<times> 'cb option) list \<Rightarrow> bytes \<Rightarrow> event_chans \<Rightarrow> event_chans \<times> 'cb list" where
  "broadcast_to [] d chs = (chs, [])"
| "broadcast_to ((ch, overflow) # rest) d chs =
     (case chan_try_send (chs ch) (live_event d) of
        Some c \<Rightarrow> broadcast_to rest d (chs(ch := c))
      | None \<Rightarrow>
          let (chs', fired) = broadcast_to rest d chs
          in (chs', case overflow of Some f \<Rightarrow> f # fired | None \<Rightarrow> fired))"

definition stream_broadcast ::
    "'cb stream \<Rightarrow> bytes \<Rightarrow> event_chans \<Rightarrow> event_chans \<times> 'cb list" where
  "stream_broadcast s d chs = broadcast_to (subs s) d chs"

definition stream_Emit ::
    "'cb stream \<Rightarrow> bytes \<Rightarrow> event_chans \<Rightarrow> 'cb stream \<times> event_chans \<times> 'cb list" where
  "stream_Emit s d chs =
     (let s' = s\<lparr>ring := ring_Write (ring s) d\<rparr> in (s', stream_broadcast s' d chs))"

definition stream_EmitReset ::
    "'cb stream \<Rightarrow> bytes \<Rightarrow> event_chans \<Rightarrow> 'cb stream \<times> event_chans \<times> 'cb list" where
  "stream_EmitReset s d chs =
     (let s' = s\<lparr>ring := ring_Write (ring_Reset (ring s)) d\<rparr> in (s', stream_broadcast s' d chs))"

definition stream_Subscribe :: "'cb stream \<Rightarrow> chan_id \<Rightarrow> 'cb option \<Rightarrow> 'cb stream" where
  "stream_Subscribe s ch overflow = s\<lparr>subs := AList.update ch overflow (subs s)\<rparr>"

definition stream_Unsubscribe :: "'cb stream \<Rightarrow> chan_id \<Rightarrow> 'cb stream" where
  "stream_Unsubscribe s ch = s\<lparr>subs := AList.delete ch (subs s)\<rparr>"

definition stream_RequestSnapshot ::
    "'cb stream \<Rightarrow> chan_id \<Rightarrow> string \<Rightarrow> event_chans \<Rightarrow> event_chans \<times> bool" where
  "stream_RequestSnapshot s ch clientID chs =
     (case chan_try_send (chs ch) (snapshot_event (ring_Snapshot (ring s)) clientID) of
        Some c \<Rightarrow> (chs(ch := c), True)
      | None \<Rightarrow> (chs, False))"

definition stream_Snapshot :: "'cb stream \<Rightarrow> bytes" where
  "stream_Snapshot s = ring_Snapshot (ring s)"

section \<open>Runs\<close>

text \<open>
  A run interleaves the stream's operations with reads of the subscriber channels.  The state keeps,
  beside the stream and the channels, what each reader has taken off its channel, the overflow
  callbacks that fired and the snapshot requests that were refused: the signals on which the agent
  drops the connection.
\<close>

datatype 'cb stream_op =
    OpEmit bytes
  | OpEmitReset bytes
  | OpSubscribe chan_id "'cb option"
  | OpUnsubscribe chan_id
  | OpRequest chan_id string
  | OpRecv chan_id

record 'cb stream_run =
  strm :: "'cb stream"
  chans :: event_chans
  received :: "chan_id \<Rightarrow> event list"
  overflows :: "'cb list"
  refused :: "chan_id list"

fun stream_step :: "'cb stream_run \<Rightarrow> 'cb stream_op \<Rightarrow> 'cb stream_run" where
  "stream_step w (OpEmit d) =
     (let (s, chs, fired) = stream_Emit (strm w) d (chans w)
      in w\<lparr>strm := s, chans := chs, overflows := overflows w @ fired\<rparr>)"
| "stream_step w (OpEmitReset d) =
     (let (s, chs, fired) = stream_EmitReset (strm w) d (chans w)
      in w\<lparr>strm := s, chans := chs, overflows := overflows w @ fired\<rparr>)"
| "stream_step w (OpSubscribe ch cb) = w\<lparr>strm := stream_Subscribe (strm w) ch cb\<rparr>"
| "stream_step w (OpUnsubscribe ch) = w\<lparr>strm := stream_Unsubscribe (strm w) ch\<rparr>"
| "stream_step w (OpRequest ch c) =
     (let (chs, ok) = stream_RequestSnapshot (strm w) ch c (chans w)
      in w\<lparr>chans := chs, refused := (if ok then refused w else refused w @ [ch])\<rparr>)"
| "stream_step w (OpRecv ch) =
     (case chan_try_recv (chans w ch) of
        None \<Rightarrow> w
      | Some (e, c) \<Rightarrow>
          w\<lparr>chans := (chans w)(ch := c), received := (received w)(ch := received w ch @ [e])\<rparr>)"

text \<open>Everything a channel has accepted so far, read or still queued, in order.\<close>

definition delivered :: "'cb stream_run \<Rightarrow> chan_id \<Rightarrow> event list" where
  "delivered w ch = received w ch @ queue (chans w ch)"

text \<open>
  The specification of a subscriber's stream: live output in emission order, and each snapshot
  request answered at its position with the last \<open>n\<close> bytes retained there.
\<close>

fun expected_events :: "nat \<Rightarrow> bytes \<Rightarrow> chan_id \<Rightarrow> 'cb stream_op list \<Rightarrow> event list" where
  "expected_events n acc ch [] = []"
| "expected_events n acc ch (OpEmit d # ops) =
     live_event d # expected_events n (lastn n (acc @ d)) ch ops"
| "expected_events n acc ch (OpEmitReset d # ops) =
     live_event d # expected_events n (lastn n d) ch ops"
| "expected_events n acc ch (OpRequest ch' c # ops) =
     (if ch' = ch then snapshot_event acc c # expected_events n acc ch ops
      else expected_events n acc ch ops)"
| "expected_events n acc ch (_ # ops) = expected_events n acc ch ops"

text \<open>The operations that leave the subscription of \<open>ch\<close> alone, and the bytes a run emits.\<close>

fun keeps_subscription :: "chan_id \<Rightarrow> 'cb stream_op \<Rightarrow> bool" where
  "keeps_subscription ch (OpSubscribe ch' _) \<longleftrightarrow> ch' \<noteq> ch"
| "keeps_subscription ch (OpUnsubscribe ch') \<longleftrightarrow> ch' \<noteq> ch"
| "keeps_subscription ch _ \<longleftrightarrow> True"

fun emitted :: "'cb stream_op \<Rightarrow> bytes" where
  "emitted (OpEmit d) = d"
| "emitted (OpEmitReset d) = d"
| "emitted _ = []"

fun to_log :: "'cb stream_op \<Rightarrow> log_op list" where
  "to_log (OpEmit d) = [Put d]"
| "to_log (OpEmitReset d) = [Clear, Put d]"
| "to_log _ = []"

section \<open>Channels and broadcasts\<close>

lemma chan_try_send_cases:
  obtains (sent) "chan_try_send c e = Some (c\<lparr>queue := queue c @ [e]\<rparr>)"
    | (blocked) "chan_try_send c e = None"
  by (cases "length (queue c) < cap c") (auto simp: chan_try_send_def)

lemma chan_try_send_Some:
  "chan_try_send c e = Some c' \<Longrightarrow> queue c' = queue c @ [e] \<and> cap c' = cap c"
  by (auto simp: chan_try_send_def split: if_splits)

lemma broadcast_to_other:
  "ch \<notin> fst ` set ss \<Longrightarrow> fst (broadcast_to ss d chs) ch = chs ch"
  by (induction ss d chs rule: broadcast_to.induct)
    (auto simp: Let_def split: option.splits prod.splits)

lemma broadcast_to_sent:
  assumes "distinct (map fst ss)" "ch \<in> fst ` set ss" "chan_try_send (chs ch) (live_event d) = Some c"
  shows "fst (broadcast_to ss d chs) ch = c"
  using assms
proof (induction ss arbitrary: chs)
  case (Cons s ss)
  obtain ch' ov where s: "s = (ch', ov)" by force
  show ?case
  proof (cases "chan_try_send (chs ch') (live_event d)")
    case None
    with Cons.prems have "ch' \<noteq> ch" by (auto simp: s)
    with None Cons.prems Cons.IH [of chs] show ?thesis
      by (auto simp: s Let_def case_prod_beta)
  next
    case (Some x)
    have "fst (broadcast_to ss d (chs(ch' := x))) ch = c" if "ch' \<noteq> ch"
      by (rule Cons.IH) (use that Cons.prems in \<open>auto simp: s\<close>)
    with Some Cons.prems show ?thesis
      by (cases "ch' = ch") (simp_all add: s broadcast_to_other)
  qed
qed simp

lemma broadcast_to_overflow:
  assumes "distinct (map fst ss)" "map_of ss ch = Some (Some cb)"
    and "chan_try_send (chs ch) (live_event d) = None"
  shows "cb \<in> set (snd (broadcast_to ss d chs))"
  using assms
proof (induction ss arbitrary: chs)
  case (Cons s ss)
  obtain ch' ov where s: "s = (ch', ov)" by force
  show ?case
  proof (cases "chan_try_send (chs ch') (live_event d)")
    case None
    with Cons.prems Cons.IH [of chs] show ?thesis
      by (auto simp: s Let_def case_prod_beta split: if_splits option.splits)
  next
    case (Some x)
    with Cons.prems have "ch' \<noteq> ch" by (auto simp: s)
    then have "cb \<in> set (snd (broadcast_to ss d (chs(ch' := x))))"
      by (intro Cons.IH) (use Cons.prems in \<open>auto simp: s\<close>)
    with Some show ?thesis by (simp add: s)
  qed
qed simp

section \<open>One step of a run\<close>

definition stream_inv :: "'cb stream \<Rightarrow> bool" where
  "stream_inv s \<longleftrightarrow> ring_inv (ring s) \<and> distinct (map fst (subs s))"

definition stream_init :: "nat \<Rightarrow> (chan_id \<Rightarrow> nat) \<Rightarrow> 'cb stream_run" where
  "stream_init n caps =
     \<lparr>strm = stream_New n, chans = (\<lambda>ch. chan_make (caps ch)), received = (\<lambda>_. []), overflows = [],
      refused = []\<rparr>"

text \<open>The loss of an event on \<open>ch\<close> has been signalled: its callback fired or a request was refused.\<close>

definition signalled :: "'cb stream_run \<Rightarrow> chan_id \<Rightarrow> 'cb \<Rightarrow> bool" where
  "signalled w ch cb \<longleftrightarrow> cb \<in> set (overflows w) \<or> ch \<in> set (refused w)"

lemma stream_inv_New [simp]: "stream_inv (stream_New n)"
  by (simp add: stream_inv_def stream_New_def)

lemma stream_inv_ops [simp]:
  "stream_inv s \<Longrightarrow> stream_inv (fst (stream_Emit s d chs))"
  "stream_inv s \<Longrightarrow> stream_inv (fst (stream_EmitReset s d chs))"
  "stream_inv s \<Longrightarrow> stream_inv (stream_Subscribe s ch cb)"
  "stream_inv s \<Longrightarrow> stream_inv (stream_Unsubscribe s ch)"
  by (auto simp: stream_inv_def stream_Emit_def stream_EmitReset_def stream_Subscribe_def
      stream_Unsubscribe_def distinct_update distinct_delete Let_def)

interpretation stream_machine: invariant_machine stream_step "\<lambda>w. stream_inv (strm w)"
proof
  fix w :: "'cb stream_run" and op
  assume "stream_inv (strm w)"
  then show "stream_inv (strm (stream_step w op))"
    using stream_inv_ops [of "strm w"]
    by (cases op) (auto simp: case_prod_beta Let_def split: option.splits)
qed

lemma stream_step_ring:
  "ring (strm (stream_step w op)) =
     foldl (log_apply ring_Write ring_Reset) (ring (strm w)) (to_log op)"
  by (cases op)
    (auto simp: stream_Emit_def stream_EmitReset_def stream_Subscribe_def stream_Unsubscribe_def
      Let_def split: prod.splits option.splits)

lemma stream_run_ring:
  "ring (strm (foldl stream_step w ops)) =
     foldl (log_apply ring_Write ring_Reset) (ring (strm w)) (concat (map to_log ops))"
  by (induction ops arbitrary: w) (auto simp: stream_step_ring)

lemma stream_step_subs:
  "keeps_subscription ch op \<Longrightarrow>
     map_of (subs (strm (stream_step w op))) ch = map_of (subs (strm w)) ch"
  by (cases op)
    (auto simp: stream_Emit_def stream_EmitReset_def stream_Subscribe_def stream_Unsubscribe_def
      update_conv' delete_conv' Let_def split: prod.splits option.splits)

lemma signalled_step: "signalled w ch cb \<Longrightarrow> signalled (stream_step w op) ch cb"
  by (cases op) (auto simp: signalled_def Let_def split: prod.splits option.splits)

lemma signalled_run: "signalled w ch cb \<Longrightarrow> signalled (foldl stream_step w ops) ch cb"
  by (induction ops arbitrary: w) (auto intro: signalled_step)

lemma broadcast_delivers:
  assumes "distinct (map fst ss)" "(ch, Some cb) \<in> set ss" "broadcast_to ss d chs = (chs', fired)"
  shows "cb \<in> set fired \<or> queue (chs' ch) = queue (chs ch) @ [live_event d]"
proof (cases rule: chan_try_send_cases [of "chs ch" "live_event d"])
  case sent
  with assms show ?thesis
    using broadcast_to_sent [of ss ch chs d] by force
next
  case blocked
  with assms show ?thesis
    using broadcast_to_overflow [of ss ch cb chs d] by auto
qed

lemma stream_step_delivers:
  assumes "stream_inv (strm w)" "map_of (subs (strm w)) ch = Some (Some cb)"
    and "\<not> signalled (stream_step w op) ch cb"
  shows "delivered (stream_step w op) ch =
           delivered w ch @ expected_events n (ring_Snapshot (ring (strm w))) ch [op]"
proof (cases op)
  case (OpEmit d)
  with assms show ?thesis
    by (auto simp: stream_Emit_def stream_broadcast_def delivered_def signalled_def stream_inv_def
        Let_def split: prod.splits dest: broadcast_delivers)
next
  case (OpEmitReset d)
  with assms show ?thesis
    by (auto simp: stream_EmitReset_def stream_broadcast_def delivered_def signalled_def
        stream_inv_def Let_def split: prod.splits dest: broadcast_delivers)
next
  case (OpRequest ch' c)
  with assms show ?thesis
    by (auto simp: stream_RequestSnapshot_def delivered_def signalled_def
        split: option.splits dest: chan_try_send_Some)
next
  case (OpRecv ch')
  then show ?thesis
    by (auto simp: chan_try_recv_def delivered_def split: option.splits list.splits)
qed (auto simp: delivered_def)

section \<open>Whole runs\<close>

lemma expected_events_Cons:
  "length acc \<le> n \<Longrightarrow>
     expected_events n acc ch (op # ops) =
     expected_events n acc ch [op] @
     expected_events n (lastn n (retained acc (to_log op))) ch ops"
  by (cases op) auto

lemma expected_events_append:
  "length acc \<le> n \<Longrightarrow>
     expected_events n acc ch (xs @ ys) =
     expected_events n acc ch xs @
     expected_events n (lastn n (retained acc (concat (map to_log xs)))) ch ys"
proof (induction xs arbitrary: acc)
  case (Cons op xs)
  have "expected_events n acc ch ((op # xs) @ ys) =
      expected_events n acc ch [op] @
      expected_events n (lastn n (retained acc (to_log op))) ch (xs @ ys)"
    using Cons.prems by (simp add: expected_events_Cons [of acc n ch op "xs @ ys"])
  also have "\<dots> = expected_events n acc ch (op # xs) @
      expected_events n (lastn n (retained acc (concat (map to_log (op # xs))))) ch ys"
    using Cons by (simp add: expected_events_Cons [of acc n ch op xs] retained_lastn retained_append)
  finally show ?case .
qed simp

lemma stream_run_delivers:
  assumes "stream_inv (strm w)" "map_of (subs (strm w)) ch = Some (Some cb)"
    and "list_all (keeps_subscription ch) ops"
  shows "signalled (foldl stream_step w ops) ch cb \<or>
    delivered (foldl stream_step w ops) ch =
      delivered w ch @
      expected_events (ring_size (ring (strm w))) (ring_Snapshot (ring (strm w))) ch ops"
  using assms
proof (induction ops arbitrary: w)
  case (Cons op ops)
  let ?w = "stream_step w op" and ?n = "ring_size (ring (strm w))"
  let ?acc = "ring_Snapshot (ring (strm w))"
  have ring: "ring_inv (ring (strm w))" using Cons.prems(1) by (simp add: stream_inv_def)
  have len: "length ?acc \<le> ?n" using ring by (rule ring_Snapshot_bound)
  have n: "ring_size (ring (strm ?w)) = ?n"
    and acc: "ring_Snapshot (ring (strm ?w)) = lastn ?n (retained ?acc (to_log op))"
    using ring ring_log.run_keeps [of "ring (strm w)" "to_log op"]
    by (simp_all add: stream_step_ring ring_log.snapshot_run)
  show ?case
  proof (cases "signalled ?w ch cb")
    case True
    then show ?thesis by (simp add: signalled_run)
  next
    case False
    have "delivered ?w ch = delivered w ch @ expected_events ?n ?acc ch [op]"
      using Cons.prems False by (intro stream_step_delivers) auto
    moreover have "signalled (foldl stream_step ?w ops) ch cb \<or>
      delivered (foldl stream_step ?w ops) ch =
        delivered ?w ch @ expected_events (ring_size (ring (strm ?w))) (ring_Snapshot (ring (strm ?w))) ch ops"
      using Cons.prems by (intro Cons.IH) (auto simp: stream_machine.step_inv stream_step_subs)
    ultimately show ?thesis
      using expected_events_Cons [OF len, of ch op ops] by (simp add: n acc)
  qed
qed simp

lemma stream_init_inv [simp]: "stream_inv (strm (stream_init n caps))"
  by (simp add: stream_init_def)

lemma stream_run_from_init:
  "ring_size (ring (strm (foldl stream_step (stream_init n caps) ops))) = n"
  "ring_Snapshot (ring (strm (foldl stream_step (stream_init n caps) ops))) =
     lastn n (retained [] (concat (map to_log ops)))"
  using ring_log.run_keeps [of "ring_New n"]
  by (simp_all add: stream_run_ring stream_init_def stream_New_def ring_log.snapshot_run)

text \<open>The state right after \<open>ch\<close> subscribed to a stream that had already run \<open>pre\<close>.\<close>

definition subscribed_run ::
    "nat \<Rightarrow> (chan_id \<Rightarrow> nat) \<Rightarrow> 'cb stream_op list \<Rightarrow> chan_id \<Rightarrow> 'cb \<Rightarrow> 'cb stream_run" where
  "subscribed_run n caps pre ch cb =
     foldl stream_step (stream_init n caps) (pre @ [OpSubscribe ch (Some cb)])"

lemma subscribed_run_facts:
  "stream_inv (strm (subscribed_run n caps pre ch cb))"
  "map_of (subs (strm (subscribed_run n caps pre ch cb))) ch = Some (Some cb)"
  "ring_size (ring (strm (subscribed_run n caps pre ch cb))) = n"
  "ring_Snapshot (ring (strm (subscribed_run n caps pre ch cb))) =
     lastn n (retained [] (concat (map to_log pre)))"
  using stream_run_from_init [of n caps "pre @ [OpSubscribe ch (Some cb)]"]
    stream_machine.run_inv [OF stream_init_inv [of n caps], where es = "pre @ [OpSubscribe ch (Some cb)]"]
  by (simp_all add: subscribed_run_def stream_Subscribe_def update_conv')

definition live_bytes :: "event list \<Rightarrow> bytes" where
  "live_bytes evs = concat (map Data (filter (\<lambda>e. \<not> Snapshot e) evs))"

lemma live_bytes_expected:
  "live_bytes (expected_events n acc ch ops) = concat (map emitted ops)"
  by (induction n acc ch ops rule: expected_events.induct) (auto simp: live_bytes_def)

section \<open>Properties\<close>

text \<open>
  C3.  No silent gap.  Subscribe a channel with an overflow callback to a stream that has already run
  any operations, then run any further operations that leave that subscription alone (output, screen
  resets, snapshot requests for it or for others, other subscribers coming and going, reads).  Either
  the loss was signalled, by the overflow callback or by a refused snapshot request, or the channel
  has accepted exactly the specified events: all live output in order, and every snapshot at its
  place in the stream with the last \<open>n\<close> bytes emitted before it since the last reset.
\<close>

theorem stream_no_silent_gap:
  fixes n :: nat and caps :: "chan_id \<Rightarrow> nat" and pre :: "'cb stream_op list" and cb :: 'cb
  assumes "list_all (keeps_subscription ch) ops"
  defines "w \<equiv> subscribed_run n caps pre ch cb"
  shows "signalled (foldl stream_step w ops) ch cb \<or>
    delivered (foldl stream_step w ops) ch =
      delivered w ch @ expected_events n (lastn n (retained [] (concat (map to_log pre)))) ch ops"
  using stream_run_delivers [of w ch cb ops] assms(1) by (simp add: w_def subscribed_run_facts)

theorem stream_no_silent_gap_witness:
  "let w = subscribed_run 3 (\<lambda>_. 8) [OpEmit ''ab''] 7 ();
       ops = [OpEmit ''cd'', OpRequest 7 ''me'', OpEmitReset ''e'', OpRecv 7, OpRequest 7 ''you'']
   in list_all (keeps_subscription 7) ops \<and>
      delivered (foldl stream_step w ops) 7 =
        [live_event ''cd'', snapshot_event ''bcd'' ''me'', live_event ''e'', snapshot_event ''e'' ''you'']"
proof -
  let ?ops = "[OpEmit ''cd'', OpRequest 7 ''me'', OpEmitReset ''e'', OpRecv 7, OpRequest 7 ''you'']"
  let ?w = "subscribed_run 3 (\<lambda>_. 8) [OpEmit ''ab''] 7 ()"
  have k: "list_all (keeps_subscription 7) ?ops" by simp
  have "\<not> signalled (foldl stream_step ?w ?ops) 7 ()" by code_simp
  moreover have "delivered ?w 7 = []" by code_simp
  moreover have "expected_events 3 (lastn 3 (retained [] (concat (map to_log [OpEmit ''ab''])))) 7 ?ops =
      [live_event ''cd'', snapshot_event ''bcd'' ''me'', live_event ''e'', snapshot_event ''e'' ''you'']"
    by code_simp
  ultimately show ?thesis
    using stream_no_silent_gap [OF k, of 3 "\<lambda>_. 8" "[OpEmit ''ab'']" "()"] k by (simp add: Let_def)
qed

text \<open>
  C4.  Attach replay has neither gap nor overlap.  When a snapshot is requested in the middle of such
  a run and no loss was signalled, the subscriber's stream splits at the snapshot event: the snapshot
  carries the last \<open>n\<close> bytes of everything emitted before the request since the last reset, and the
  live output that follows it is exactly what was emitted after the request.
\<close>

theorem stream_replay_exact:
  fixes n :: nat and caps :: "chan_id \<Rightarrow> nat" and pre :: "'cb stream_op list" and cb :: 'cb
    and ops1 ops2 :: "'cb stream_op list" and c :: string
  assumes "list_all (keeps_subscription ch) (ops1 @ OpRequest ch c # ops2)"
  defines "w \<equiv> foldl stream_step (subscribed_run n caps pre ch cb) (ops1 @ OpRequest ch c # ops2)"
  assumes "\<not> signalled w ch cb"
  shows "\<exists>before after.
    delivered w ch =
      before @ snapshot_event (lastn n (retained [] (concat (map to_log (pre @ ops1))))) c # after \<and>
    live_bytes after = concat (map emitted ops2)"
proof -
  let ?acc = "lastn n (retained [] (concat (map to_log pre)))"
  let ?snap = "lastn n (retained ?acc (concat (map to_log ops1)))"
  have "delivered w ch =
      delivered (subscribed_run n caps pre ch cb) ch @
      expected_events n ?acc ch (ops1 @ OpRequest ch c # ops2)"
    using stream_run_delivers [of "subscribed_run n caps pre ch cb" ch cb "ops1 @ OpRequest ch c # ops2"] assms
    by (auto simp: subscribed_run_facts)
  moreover have "expected_events n ?acc ch (ops1 @ OpRequest ch c # ops2) =
      expected_events n ?acc ch ops1 @ snapshot_event ?snap c # expected_events n ?snap ch ops2"
    by (simp add: expected_events_append)
  moreover have "?snap = lastn n (retained [] (concat (map to_log (pre @ ops1))))"
    by (simp add: retained_lastn retained_append)
  ultimately show ?thesis by (metis append_assoc live_bytes_expected)
qed

theorem stream_replay_exact_witness:
  "\<exists>before after.
    delivered (foldl stream_step (subscribed_run 3 (\<lambda>_. 8) [OpEmit ''ab''] 7 ())
        ([OpEmit ''cd''] @ OpRequest 7 ''me'' # [OpEmit ''ef''])) 7 =
      before @ snapshot_event (lastn 3 (retained [] (concat (map to_log ([OpEmit ''ab''] @ [OpEmit ''cd''] :: unit stream_op list)))))
        ''me'' # after \<and>
    live_bytes after = concat (map emitted [OpEmit ''ef'' :: unit stream_op])"
proof -
  have "list_all (keeps_subscription 7) ([OpEmit ''cd''] @ OpRequest 7 ''me'' # [OpEmit ''ef''])"
    by simp
  moreover have "\<not> signalled (foldl stream_step (subscribed_run 3 (\<lambda>_. 8) [OpEmit ''ab''] 7 ())
        ([OpEmit ''cd''] @ OpRequest 7 ''me'' # [OpEmit ''ef''])) 7 ()"
    by code_simp
  ultimately show ?thesis
    using stream_replay_exact [of 7 "[OpEmit ''cd'']" "''me''" "[OpEmit ''ef'']" 3 "\<lambda>_. 8"
        "[OpEmit ''ab'']" "()"] by blast
qed

end
