(* ===== verification/Pty_Session.thy ===== *)
theory Pty_Session
  imports Output_Stream "HOL-Library.Word"
begin

text \<open>
  PTY-backed sessions, \<^verbatim>\<open>src/internal/pty/session.go\<close>: the byte-level tracker of DECCKM
  (application cursor keys), the arrow-key translation of remote input, and the session that joins
  them with an output stream.

  The pseudo terminal and the child process are the operating system's: the model records what is
  written to the PTY master and which window sizes are set, and takes what the master delivers and
  whether a system call fails as arguments.
\<close>

section \<open>The mode tracker\<close>

datatype modeState = stateNormal | stateEsc | stateCsi | stateCsiQ | stateCsiQN

record modeTracker =
  mstate :: modeState
  mparam :: bytes
  DECCKM :: bool

definition tracker_zero :: modeTracker where
  "tracker_zero = \<lparr>mstate = stateNormal, mparam = [], DECCKM = False\<rparr>"

definition is_digit :: "byte \<Rightarrow> bool" where
  "is_digit b \<longleftrightarrow> 48 \<le> byte_code b \<and> byte_code b \<le> 57"

definition tracker_byte :: "modeTracker \<Rightarrow> byte \<Rightarrow> modeTracker" where
  "tracker_byte t b =
     (case mstate t of
        stateNormal \<Rightarrow> if b = CHR 0x1B then t\<lparr>mstate := stateEsc\<rparr> else t
      | stateEsc \<Rightarrow>
          if b = CHR ''['' then t\<lparr>mstate := stateCsi\<rparr> else t\<lparr>mstate := stateNormal\<rparr>
      | stateCsi \<Rightarrow>
          if b = CHR ''?'' then t\<lparr>mstate := stateCsiQ, mparam := []\<rparr>
          else t\<lparr>mstate := stateNormal\<rparr>
      | stateCsiQ \<Rightarrow>
          if is_digit b then t\<lparr>mparam := mparam t @ [b], mstate := stateCsiQN\<rparr>
          else t\<lparr>mstate := stateNormal\<rparr>
      | stateCsiQN \<Rightarrow>
          if is_digit b \<or> b = CHR '';'' then t\<lparr>mparam := mparam t @ [b]\<rparr>
          else if b = CHR ''h'' \<or> b = CHR ''l'' then
            (let t' = (if mparam t = ''1'' then t\<lparr>DECCKM := (b = CHR ''h'')\<rparr> else t)
             in t'\<lparr>mparam := [], mstate := stateNormal\<rparr>)
          else t\<lparr>mparam := [], mstate := stateNormal\<rparr>)"

definition tracker_process :: "modeTracker \<Rightarrow> bytes \<Rightarrow> modeTracker" where
  "tracker_process t p = foldl tracker_byte t p"

definition transformInput :: "modeTracker \<Rightarrow> bytes \<Rightarrow> bytes" where
  "transformInput t data =
     (if \<not> DECCKM t \<or> length data \<noteq> 3 \<or> data ! 0 \<noteq> CHR 0x1B \<or> data ! 1 \<noteq> CHR ''[''
      then data
      else if data ! 2 \<in> {CHR ''A'', CHR ''B'', CHR ''C'', CHR ''D''}
        then [CHR 0x1B, CHR ''O'', data ! 2]
      else data)"

section \<open>The session\<close>

record 'cb pty_session =
  pstream :: "'cb stream"
  Cmd :: string
  tracker :: modeTracker
  ptmx_written :: "bytes list"
  winsize :: "16 word \<times> 16 word"
  pty_done :: bool
  ptmx_closed :: bool

text \<open>\<open>start_ok\<close> is whether \<^verbatim>\<open>cpty.StartWithSize\<close> succeeded.\<close>

definition pty_New ::
    "bool \<Rightarrow> string \<Rightarrow> 16 word \<Rightarrow> 16 word \<Rightarrow> 'cb pty_session option" where
  "pty_New start_ok shellCmd cols rows =
     (if \<not> start_ok then None
      else Some \<lparr>pstream = stream_New DefaultSize, Cmd = shellCmd, tracker = tracker_zero,
                 ptmx_written = [], winsize = (cols, rows), pty_done = False, ptmx_closed = False\<rparr>)"

definition pty_emit ::
    "'cb pty_session \<Rightarrow> bytes \<Rightarrow> event_chans \<Rightarrow> 'cb pty_session \<times> event_chans \<times> 'cb list" where
  "pty_emit s data chs =
     (let s1 = s\<lparr>tracker := tracker_process (tracker s) data\<rparr>;
          (str, chs', fired) = stream_Emit (pstream s1) data chs
      in (s1\<lparr>pstream := str\<rparr>, chs', fired))"

text \<open>
  \<^verbatim>\<open>readLoop\<close> over the results of successive reads: the bytes read (up to 32 KiB) and whether the
  read reported an error, which ends the loop and closes \<^verbatim>\<open>done\<close>.
\<close>

fun pty_readLoop ::
    "'cb pty_session \<Rightarrow> (bytes \<times> bool) list \<Rightarrow> event_chans \<Rightarrow>
     'cb pty_session \<times> event_chans \<times> 'cb list" where
  "pty_readLoop s [] chs = (s, chs, [])"
| "pty_readLoop s ((data, err) # reads) chs =
     (let (s1, chs1, fired1) = (if 0 < length data then pty_emit s data chs else (s, chs, [])) in
      if err then (s1\<lparr>pty_done := True\<rparr>, chs1, fired1)
      else let (s2, chs2, fired2) = pty_readLoop s1 reads chs1 in (s2, chs2, fired1 @ fired2))"

text \<open>\<open>ok\<close> is whether the system call succeeded; the boolean result is \<^verbatim>\<open>err == nil\<close>.\<close>

definition pty_Write :: "bool \<Rightarrow> 'cb pty_session \<Rightarrow> bytes \<Rightarrow> 'cb pty_session \<times> bool" where
  "pty_Write ok s data =
     (let transformed = transformInput (tracker s) data
      in (s\<lparr>ptmx_written := ptmx_written s @ [transformed]\<rparr>, ok))"

definition pty_Resize ::
    "bool \<Rightarrow> 'cb pty_session \<Rightarrow> 16 word \<Rightarrow> 16 word \<Rightarrow> 'cb pty_session \<times> bool" where
  "pty_Resize ok s cols rows = (if ok then (s\<lparr>winsize := (cols, rows)\<rparr>, True) else (s, False))"

definition DECCKMActive :: "'cb pty_session \<Rightarrow> bool" where
  "DECCKMActive s = DECCKM (tracker s)"

definition pty_Close :: "'cb pty_session \<Rightarrow> 'cb pty_session" where
  "pty_Close s = s\<lparr>ptmx_closed := True, pty_done := True\<rparr>"

section \<open>Terminal output as a sequence of items\<close>

text \<open>
  A specification of the output the tracker reads: ordinary text (no escape byte), private mode
  settings (digits and semicolons, starting with a digit, ended by \<^verbatim>\<open>h\<close> or \<^verbatim>\<open>l\<close>), and other two-byte
  escapes and control sequences whose introducer is not followed by a question mark.
\<close>

datatype out_item =
    Text bytes
  | PrivateMode bytes bool
  | EscPair byte
  | CsiStart byte

definition mode_params :: "bytes \<Rightarrow> bool" where
  "mode_params ps \<longleftrightarrow>
     (case ps of [] \<Rightarrow> False
      | p # rest \<Rightarrow> is_digit p \<and> list_all (\<lambda>b. is_digit b \<or> b = CHR '';'') rest)"

fun item_ok :: "out_item \<Rightarrow> bool" where
  "item_ok (Text bs) \<longleftrightarrow> CHR 0x1B \<notin> set bs"
| "item_ok (PrivateMode ps _) \<longleftrightarrow> mode_params ps"
| "item_ok (EscPair b) \<longleftrightarrow> b \<noteq> CHR ''[''"
| "item_ok (CsiStart b) \<longleftrightarrow> b \<noteq> CHR ''?''"

fun item_bytes :: "out_item \<Rightarrow> bytes" where
  "item_bytes (Text bs) = bs"
| "item_bytes (PrivateMode ps on) =
     [CHR 0x1B, CHR ''['', CHR ''?''] @ ps @ [if on then CHR ''h'' else CHR ''l'']"
| "item_bytes (EscPair b) = [CHR 0x1B, b]"
| "item_bytes (CsiStart b) = [CHR 0x1B, CHR ''['', b]"

fun item_decckm :: "bool \<Rightarrow> out_item \<Rightarrow> bool" where
  "item_decckm m (PrivateMode ps on) = (if ps = ''1'' then on else m)"
| "item_decckm m _ = m"

section \<open>The tracker against the specification\<close>

lemma tracker_process_append: "tracker_process t (p @ q) = tracker_process (tracker_process t p) q"
  by (simp add: tracker_process_def)

lemma tracker_process_chunks: "foldl tracker_process t chunks = tracker_process t (concat chunks)"
  by (induction chunks arbitrary: t) (auto simp: tracker_process_def)

lemma tracker_text:
  "mstate t = stateNormal \<Longrightarrow> CHR 0x1B \<notin> set bs \<Longrightarrow> tracker_process t bs = t"
  by (induction bs) (auto simp: tracker_process_def tracker_byte_def)

lemma is_digit_neq [simp]: "\<not> is_digit (CHR '';'')" "\<not> is_digit (CHR ''h'')" "\<not> is_digit (CHR ''l'')"
  by (simp_all add: is_digit_def)

lemma tracker_params:
  "mstate t = stateCsiQN \<Longrightarrow> list_all (\<lambda>b. is_digit b \<or> b = CHR '';'') ps \<Longrightarrow>
     tracker_process t ps = t\<lparr>mparam := mparam t @ ps\<rparr>"
  by (induction ps arbitrary: t) (auto simp: tracker_process_def tracker_byte_def)

lemma tracker_private_mode:
  assumes "mstate t = stateNormal" "mode_params ps"
  shows "tracker_process t (item_bytes (PrivateMode ps on)) =
     t\<lparr>mparam := [], DECCKM := (if ps = ''1'' then on else DECCKM t)\<rparr>"
proof -
  obtain p rest where ps: "ps = p # rest" and p: "is_digit p"
    and rest: "list_all (\<lambda>b. is_digit b \<or> b = CHR '';'') rest"
    using assms(2) by (auto simp: mode_params_def split: list.splits)
  let ?t = "t\<lparr>mstate := stateCsiQN, mparam := [p]\<rparr>"
  have "tracker_process t ([CHR 0x1B, CHR ''['', CHR ''?''] @ [p]) = ?t"
    using assms(1) p by (simp add: tracker_process_def tracker_byte_def)
  moreover have "tracker_process ?t rest = ?t\<lparr>mparam := ps\<rparr>"
    using tracker_params [of ?t rest] rest by (simp add: ps)
  ultimately have "tracker_process t ([CHR 0x1B, CHR ''['', CHR ''?''] @ ps) = ?t\<lparr>mparam := ps\<rparr>"
    by (simp add: ps tracker_process_def)
  then have "tracker_process t (item_bytes (PrivateMode ps on)) =
      tracker_byte (?t\<lparr>mparam := ps\<rparr>) (if on then CHR ''h'' else CHR ''l'')"
    by (simp add: tracker_process_def)
  then show ?thesis using assms(1) by (auto simp: tracker_byte_def Let_def)
qed

lemma tracker_item:
  assumes "mstate t = stateNormal" "item_ok i"
  shows "mstate (tracker_process t (item_bytes i)) = stateNormal \<and>
         DECCKM (tracker_process t (item_bytes i)) = item_decckm (DECCKM t) i"
proof (cases i)
  case (Text bs)
  then show ?thesis using assms by (simp add: tracker_text)
next
  case (PrivateMode ps on)
  then show ?thesis using assms tracker_private_mode [of t ps on] by simp
qed (use assms in \<open>simp_all add: tracker_process_def tracker_byte_def\<close>)

lemma tracker_items:
  "mstate t = stateNormal \<Longrightarrow> list_all item_ok items \<Longrightarrow>
     mstate (tracker_process t (concat (map item_bytes items))) = stateNormal \<and>
     DECCKM (tracker_process t (concat (map item_bytes items))) =
       foldl item_decckm (DECCKM t) items"
proof (induction items arbitrary: t)
  case (Cons i items)
  then show ?case using tracker_item [of t i] by (simp add: tracker_process_append)
qed (simp add: tracker_process_def)

section \<open>The session against the specification\<close>

lemma pty_emit_fields [simp]:
  "tracker (fst (pty_emit s d chs)) = tracker_process (tracker s) d"
  "ptmx_written (fst (pty_emit s d chs)) = ptmx_written s"
  "pty_done (fst (pty_emit s d chs)) = pty_done s"
  "ring (pstream (fst (pty_emit s d chs))) = ring_Write (ring (pstream s)) d"
  by (simp_all add: pty_emit_def stream_Emit_def Let_def case_prod_beta)

lemma pty_readLoop_tracker:
  "list_all (\<lambda>r. \<not> snd r) reads \<Longrightarrow>
     tracker (fst (pty_readLoop s reads chs)) = tracker_process (tracker s) (concat (map fst reads)) \<and>
     ptmx_written (fst (pty_readLoop s reads chs)) = ptmx_written s \<and>
     pty_done (fst (pty_readLoop s reads chs)) = pty_done s"
proof (induction reads arbitrary: s chs)
  case (Cons r reads)
  obtain d e where r: "r = (d, e)" by force
  have "tracker_process t [] = t" for t by (simp add: tracker_process_def)
  with Cons show ?case
    by (cases "d = []") (simp_all add: r tracker_process_append case_prod_beta Let_def)
qed (simp add: tracker_process_def)

lemma transformInput_cases:
  "transformInput t data =
     (case data of
        [a, b, c] \<Rightarrow>
          if DECCKM t \<and> a = CHR 0x1B \<and> b = CHR ''['' \<and> c \<in> {CHR ''A'', CHR ''B'', CHR ''C'', CHR ''D''}
          then [CHR 0x1B, CHR ''O'', c] else data
      | _ \<Rightarrow> data)"
  by (auto simp: transformInput_def split: list.splits)

text \<open>An arrow key as the browser sends it, and as an application in cursor-keys mode expects it.\<close>

definition arrow :: "bool \<Rightarrow> byte \<Rightarrow> bytes" where
  "arrow app x = [CHR 0x1B, if app then CHR ''O'' else CHR ''['', x]"

section \<open>Properties\<close>



text \<open>
  Input is otherwise passed through: the translation changes a message only when cursor-keys mode
  is on and the message is exactly one normal-mode arrow sequence, and then only its second byte.
\<close>

lemma transformInput_only_arrows:
  assumes "transformInput t data \<noteq> data"
  shows "DECCKM t \<and> (\<exists>x. x \<in> {CHR ''A'', CHR ''B'', CHR ''C'', CHR ''D''} \<and>
           data = arrow False x \<and> transformInput t data = arrow True x)"
  using assms by (auto simp: transformInput_cases arrow_def split: list.splits if_splits)

end
