(* ===== verification/Key_Decoder.thy ===== *)
theory Key_Decoder
  imports Go_Encoding
begin

text \<open>
  The key decoder of the fake terminal, \<^verbatim>\<open>src/fakeshell/term/keys.go\<close>: input bytes become runes,
  control codes and special keys, with state kept between relay messages.  \<^verbatim>\<open>Feed\<close> loops over the
  bytes of one message; the model recurses over them and passes \<open>rest = []\<close> where the code asks
  whether the byte is the last of the message.
\<close>

section \<open>Model\<close>

type_synonym key = nat

definition KeyUp :: key where "KeyUp = MaxRune + 1"
definition KeyDown :: key where "KeyDown = MaxRune + 2"
definition KeyRight :: key where "KeyRight = MaxRune + 3"
definition KeyLeft :: key where "KeyLeft = MaxRune + 4"
definition KeyHome :: key where "KeyHome = MaxRune + 5"
definition KeyEnd :: key where "KeyEnd = MaxRune + 6"
definition KeyDelete :: key where "KeyDelete = MaxRune + 7"
definition KeyPageUp :: key where "KeyPageUp = MaxRune + 8"
definition KeyPageDown :: key where "KeyPageDown = MaxRune + 9"
definition KeyUnknown :: key where "KeyUnknown = MaxRune + 10"

definition KeyCtrlA :: key where "KeyCtrlA = 0x01"
definition KeyCtrlC :: key where "KeyCtrlC = 0x03"
definition KeyCtrlD :: key where "KeyCtrlD = 0x04"
definition KeyCtrlE :: key where "KeyCtrlE = 0x05"
definition KeyBell :: key where "KeyBell = 0x07"
definition KeyBackspace :: key where "KeyBackspace = 0x7f"
definition KeyTab :: key where "KeyTab = 0x09"
definition KeyCtrlK :: key where "KeyCtrlK = 0x0b"
definition KeyCtrlL :: key where "KeyCtrlL = 0x0c"
definition KeyEnter :: key where "KeyEnter = 0x0d"
definition KeyCtrlU :: key where "KeyCtrlU = 0x15"
definition KeyCtrlW :: key where "KeyCtrlW = 0x17"
definition KeyEsc :: key where "KeyEsc = 0x1b"

lemmas key_defs =
  KeyUp_def KeyDown_def KeyRight_def KeyLeft_def KeyHome_def KeyEnd_def KeyDelete_def
  KeyPageUp_def KeyPageDown_def KeyUnknown_def KeyCtrlA_def KeyCtrlC_def KeyCtrlD_def
  KeyCtrlE_def KeyBell_def KeyBackspace_def KeyTab_def KeyCtrlK_def KeyCtrlL_def KeyEnter_def
  KeyCtrlU_def KeyCtrlW_def KeyEsc_def MaxRune_def

definition Printable :: "key \<Rightarrow> bool" where
  "Printable k \<longleftrightarrow> 0x20 \<le> k \<and> k \<noteq> KeyBackspace \<and> k \<le> MaxRune"

datatype decodeState = stGround | stEsc | stCSI | stCSIDiscard | stSS3

definition maxCSI :: nat where "maxCSI = 16"

record Decoder =
  dstate :: decodeState
  params :: bytes
  utf :: bytes
  lastCR :: bool

definition decoder_zero :: Decoder where
  "decoder_zero = \<lparr>dstate = stGround, params = [], utf = [], lastCR = False\<rparr>"

definition csiKey :: "bytes \<Rightarrow> byte \<Rightarrow> key" where
  "csiKey ps final =
     (if final = CHR ''A'' then KeyUp
      else if final = CHR ''B'' then KeyDown
      else if final = CHR ''C'' then KeyRight
      else if final = CHR ''D'' then KeyLeft
      else if final = CHR ''H'' then KeyHome
      else if final = CHR ''F'' then KeyEnd
      else if final = CHR ''~'' then
        (if ps = ''1'' \<or> ps = ''7'' then KeyHome
         else if ps = ''4'' \<or> ps = ''8'' then KeyEnd
         else if ps = ''3'' then KeyDelete
         else if ps = ''5'' then KeyPageUp
         else if ps = ''6'' then KeyPageDown
         else KeyUnknown)
      else KeyUnknown)"

definition ss3Key :: "byte \<Rightarrow> key" where
  "ss3Key b =
     (if b = CHR ''A'' then KeyUp
      else if b = CHR ''B'' then KeyDown
      else if b = CHR ''C'' then KeyRight
      else if b = CHR ''D'' then KeyLeft
      else if b = CHR ''H'' then KeyHome
      else if b = CHR ''F'' then KeyEnd
      else KeyUnknown)"

definition decoder_ground :: "Decoder \<Rightarrow> byte \<Rightarrow> Decoder \<times> key list" where
  "decoder_ground d0 b =
     (let cr = lastCR d0; d = d0\<lparr>lastCR := False\<rparr> in
      if utf d \<noteq> [] \<or> 0x80 \<le> byte_code b then
        let u = utf d @ [b] in
        if FullRune u then
          let r = fst (DecodeRune u) in (d\<lparr>utf := []\<rparr>, if r \<noteq> RuneError then [r] else [])
        else if UTFMax \<le> length u then (d\<lparr>utf := []\<rparr>, [])
        else (d\<lparr>utf := u\<rparr>, [])
      else if b = CHR 0x0D then (d\<lparr>lastCR := True\<rparr>, [KeyEnter])
      else if b = CHR 0x0A then (d, if \<not> cr then [KeyEnter] else [])
      else if b = CHR 0x08 then (d, [KeyBackspace])
      else (d, [byte_code b]))"

definition csi_final :: "byte \<Rightarrow> bool" where
  "csi_final b \<longleftrightarrow> 0x40 \<le> byte_code b \<and> byte_code b \<le> 0x7e"

text \<open>One iteration of the loop of \<^verbatim>\<open>Feed\<close>; \<open>is_last\<close> is \<^verbatim>\<open>i == len(p)-1\<close>.\<close>

definition decoder_byte :: "Decoder \<Rightarrow> byte \<Rightarrow> bool \<Rightarrow> Decoder \<times> key list" where
  "decoder_byte d b is_last =
     (case dstate d of
        stEsc \<Rightarrow>
          if b = CHR ''['' then (d\<lparr>dstate := stCSI, params := []\<rparr>, [])
          else if b = CHR ''O'' then (d\<lparr>dstate := stSS3\<rparr>, [])
          else let (d', ks) = decoder_ground (d\<lparr>dstate := stGround\<rparr>) b in (d', KeyEsc # ks)
      | stCSI \<Rightarrow>
          if csi_final b then (d\<lparr>dstate := stGround\<rparr>, [csiKey (params d) b])
          else if maxCSI \<le> length (params d) then (d\<lparr>dstate := stCSIDiscard\<rparr>, [])
          else (d\<lparr>params := params d @ [b]\<rparr>, [])
      | stCSIDiscard \<Rightarrow>
          if csi_final b then (d\<lparr>dstate := stGround\<rparr>, [KeyUnknown]) else (d, [])
      | stSS3 \<Rightarrow> (d\<lparr>dstate := stGround\<rparr>, [ss3Key b])
      | stGround \<Rightarrow>
          if b = CHR 0x1B then
            (if is_last then (d, [KeyEsc]) else (d\<lparr>dstate := stEsc\<rparr>, []))
          else decoder_ground d b)"

fun decoder_Feed :: "Decoder \<Rightarrow> bytes \<Rightarrow> Decoder \<times> key list" where
  "decoder_Feed d [] = (d, [])"
| "decoder_Feed d (b # rest) =
     (let (d1, ks1) = decoder_byte d b (rest = []);
          (d2, ks2) = decoder_Feed d1 rest
      in (d2, ks1 @ ks2))"

text \<open>A sequence of relay messages.\<close>

fun decoder_feed_all :: "Decoder \<Rightarrow> bytes list \<Rightarrow> Decoder \<times> key list" where
  "decoder_feed_all d [] = (d, [])"
| "decoder_feed_all d (p # ps) =
     (let (d1, ks1) = decoder_Feed d p;
          (d2, ks2) = decoder_feed_all d1 ps
      in (d2, ks1 @ ks2))"

section \<open>Bounded state\<close>

text \<open>A hostile client cannot make the decoder buffer more than a few bytes.\<close>

definition decoder_inv :: "Decoder \<Rightarrow> bool" where
  "decoder_inv d \<longleftrightarrow> length (params d) \<le> maxCSI \<and> length (utf d) < UTFMax"

lemma decoder_inv_zero [simp]: "decoder_inv decoder_zero"
  by (simp add: decoder_inv_def decoder_zero_def UTFMax_def)

lemma decoder_inv_ground: "decoder_inv d \<Longrightarrow> decoder_inv (fst (decoder_ground d b))"
  by (auto simp: decoder_inv_def decoder_ground_def Let_def UTFMax_def)

lemma decoder_inv_byte: "decoder_inv d \<Longrightarrow> decoder_inv (fst (decoder_byte d b l))"
  using decoder_inv_ground [of d b] decoder_inv_ground [of "d\<lparr>dstate := stGround\<rparr>" b]
  by (auto simp: decoder_byte_def case_prod_beta split: decodeState.splits)
    (auto simp: decoder_inv_def maxCSI_def)

lemma decoder_inv_Feed: "decoder_inv d \<Longrightarrow> decoder_inv (fst (decoder_Feed d p))"
proof (induction p arbitrary: d)
  case (Cons b p)
  then show ?case
    using decoder_inv_byte [of d b "p = []"] by (auto simp: case_prod_beta Let_def)
qed simp

interpretation decoder_machine: invariant_machine "\<lambda>d p. fst (decoder_Feed d p)" decoder_inv
  by unfold_locales (rule decoder_inv_Feed)

lemma decoder_feed_all_fst: "fst (decoder_feed_all d ps) = foldl (\<lambda>d p. fst (decoder_Feed d p)) d ps"
  by (induction ps arbitrary: d) (auto simp: case_prod_beta Let_def)

section \<open>Text\<close>

fun ground_all :: "Decoder \<Rightarrow> bytes \<Rightarrow> Decoder \<times> key list" where
  "ground_all d [] = (d, [])"
| "ground_all d (b # bs) =
     (let (d1, ks1) = decoder_ground d b; (d2, ks2) = ground_all d1 bs in (d2, ks1 @ ks2))"

lemma decoder_ground_state [simp]: "dstate (fst (decoder_ground d b)) = dstate d"
  by (simp add: decoder_ground_def Let_def)

lemma ground_all_state [simp]: "dstate (fst (ground_all d bs)) = dstate d"
  by (induction bs arbitrary: d) (auto simp: case_prod_beta Let_def)

lemma ground_all_append:
  "ground_all d (xs @ ys) =
     (let (d1, ks1) = ground_all d xs; (d2, ks2) = ground_all d1 ys in (d2, ks1 @ ks2))"
  by (induction xs arbitrary: d) (auto simp: case_prod_beta Let_def)

lemma decoder_Feed_ground:
  "dstate d = stGround \<Longrightarrow> CHR 0x1B \<notin> set p \<Longrightarrow> decoder_Feed d p = ground_all d p"
proof (induction p arbitrary: d)
  case (Cons b p)
  then have "decoder_byte d b (p = []) = decoder_ground d b"
    by (auto simp: decoder_byte_def)
  with Cons show ?case by (auto simp: case_prod_beta Let_def)
qed simp

text \<open>Outside escape sequences the boundaries between messages do not matter.\<close>

lemma decoder_feed_all_ground:
  "dstate d = stGround \<Longrightarrow> CHR 0x1B \<notin> set (concat ps) \<Longrightarrow>
     decoder_feed_all d ps = ground_all d (concat ps)"
proof (induction ps arbitrary: d)
  case (Cons p ps)
  then show ?case by (simp add: decoder_Feed_ground ground_all_append case_prod_beta Let_def)
qed simp

definition text_rune :: "rune \<Rightarrow> bool" where
  "text_rune r \<longleftrightarrow> valid_rune r \<and> 0x20 \<le> r \<and> r \<noteq> RuneError"

lemma ground_high:
  "0x80 \<le> byte_code b \<Longrightarrow> decoder_ground d b =
     (let d' = d\<lparr>lastCR := False\<rparr>; u = utf d @ [b] in
      if FullRune u then
        (d'\<lparr>utf := []\<rparr>, if fst (DecodeRune u) \<noteq> RuneError then [fst (DecodeRune u)] else [])
      else if UTFMax \<le> length u then (d'\<lparr>utf := []\<rparr>, []) else (d'\<lparr>utf := u\<rparr>, []))"
  by (simp add: decoder_ground_def Let_def)

lemma ground_all_EncodeRune:
  assumes "text_rune r" "utf d = []"
  shows "ground_all d (EncodeRune r) = (d\<lparr>lastCR := False\<rparr>, [r])"
proof -
  have v: "valid_rune r" and ne: "r \<noteq> RuneError" and lo: "0x20 \<le> r"
    using assms by (auto simp: text_rune_def)
  note full = FullRune_EncodeRune [OF v] and dec = DecodeRune_EncodeRune [OF v, of "[]"]
  have d: "d\<lparr>utf := [], lastCR := c\<rparr> = d\<lparr>lastCR := c\<rparr>" for c using assms(2) by simp
  show ?thesis using v
  proof (cases rule: EncodeRune_cases)
    case one
    then have "char_of r \<noteq> CHR 0x0D" "char_of r \<noteq> CHR 0x0A" "char_of r \<noteq> CHR 0x08"
      using lo by (intro char_of_neq; simp)+
    with one assms lo show ?thesis by (simp add: decoder_ground_def Let_def)
  next
    case (two q m)
    then show ?thesis using full(1) full(2) [of 1] dec ne
      by (simp add: ground_high assms(2) UTFMax_def Let_def d)
  next
    case (three q m k)
    then have "q < 16" "m < 64" by (auto simp: payload3_def)
    with three show ?thesis using full(1) full(2) [of 1] full(2) [of 2] dec ne
      by (simp add: ground_high assms(2) UTFMax_def Let_def d)
  next
    case (four q m k l)
    then have "q < 8" "m < 64" by (auto simp: payload4_def)
    with four show ?thesis using full(1) full(2) [of 1] full(2) [of 2] full(2) [of 3] dec ne
      by (simp add: ground_high assms(2) UTFMax_def Let_def d)
  qed
qed

lemma EncodeRune_no_esc:
  assumes "text_rune r" shows "CHR 0x1B \<notin> set (EncodeRune r)"
proof -
  have "valid_rune r" "0x20 \<le> r" using assms by (auto simp: text_rune_def)
  then have "\<forall>b \<in> set (EncodeRune r). 0x20 \<le> byte_code b"
    by (cases rule: EncodeRune_cases) (auto simp: payload3_def payload4_def)
  then show ?thesis by auto
qed

lemma ground_all_text:
  "list_all text_rune rs \<Longrightarrow> utf d = [] \<Longrightarrow> snd (ground_all d (string_of_runes rs)) = rs"
proof (induction rs arbitrary: d)
  case (Cons r rs)
  then show ?case
    by (simp add: string_of_runes_def ground_all_append ground_all_EncodeRune case_prod_beta Let_def)
qed (simp add: string_of_runes_def)

section \<open>Escape sequences\<close>

text \<open>The bytes of a control sequence: introducer, parameter bytes, final byte.\<close>

definition csi_sequence :: "bytes \<Rightarrow> byte \<Rightarrow> bytes" where
  "csi_sequence ps final = CHR 0x1B # CHR ''['' # ps @ [final]"

lemma decoder_discard:
  "dstate d = stCSIDiscard \<Longrightarrow> list_all (\<lambda>b. \<not> csi_final b) ps \<Longrightarrow> csi_final f \<Longrightarrow>
     decoder_Feed d (ps @ [f]) = (d\<lparr>dstate := stGround\<rparr>, [KeyUnknown])"
  by (induction ps) (auto simp: decoder_byte_def)

lemma decoder_params:
  "dstate d = stCSI \<Longrightarrow> list_all (\<lambda>b. \<not> csi_final b) ps \<Longrightarrow> csi_final f \<Longrightarrow>
     length (params d) \<le> maxCSI \<Longrightarrow>
     snd (decoder_Feed d (ps @ [f])) =
       [if length (params d @ ps) \<le> maxCSI then csiKey (params d @ ps) f else KeyUnknown] \<and>
     dstate (fst (decoder_Feed d (ps @ [f]))) = stGround"
proof (induction ps arbitrary: d)
  case (Cons b ps)
  show ?case
  proof (cases "maxCSI \<le> length (params d)")
    case True
    then show ?thesis
      using Cons.prems decoder_discard [of "d\<lparr>dstate := stCSIDiscard\<rparr>" ps f]
      by (auto simp: decoder_byte_def)
  next
    case False
    then show ?thesis
      using Cons.prems Cons.IH [of "d\<lparr>params := params d @ [b]\<rparr>"]
      by (auto simp: decoder_byte_def case_prod_beta Let_def)
  qed
qed (auto simp: decoder_byte_def)

section \<open>Properties\<close>

text \<open>
  C35.  Typed text arrives intact: the UTF-8 bytes of any text runes (valid, printable or DEL, not the
  replacement character), cut into relay messages at arbitrary byte boundaries, decode to exactly
  those runes, also when a boundary falls inside a multi-byte rune.
\<close>

theorem decoder_text_roundtrip:
  assumes "list_all text_rune rs" "concat msgs = string_of_runes rs"
  shows "snd (decoder_feed_all decoder_zero msgs) = rs"
proof -
  have "CHR 0x1B \<notin> set (string_of_runes rs)"
    using assms(1) EncodeRune_no_esc by (auto simp: string_of_runes_def list_all_iff)
  then show ?thesis
    using assms decoder_feed_all_ground [of decoder_zero msgs]
      ground_all_text [of rs decoder_zero] by (simp add: decoder_zero_def)
qed

theorem decoder_text_roundtrip_witness:
  "snd (decoder_feed_all decoder_zero
     [[CHR ''h'', CHR 0xC3], [CHR 0xA9, CHR 0xE2, CHR 0x82], [], [CHR 0xAC]]) = [0x68, 0xE9, 0x20AC]"
proof -
  have "list_all text_rune [0x68, 0xE9, 0x20AC]"
    by (simp add: text_rune_def valid_rune_def MaxRune_def RuneError_def)
  moreover have "concat [[CHR ''h'', CHR 0xC3], [CHR 0xA9, CHR 0xE2, CHR 0x82], [], [CHR 0xAC]] =
      string_of_runes [0x68, 0xE9, 0x20AC]"
    by (simp add: string_of_runes_def EncodeRune_def valid_rune_def MaxRune_def char_of_def bit_0)
  ultimately show ?thesis by (rule decoder_text_roundtrip)
qed

text \<open>
   Control sequences of any length: a whole CSI sequence in one message yields exactly one key and
  leaves the decoder at ground level; up to 16 parameter bytes it is the key the sequence names, and
  an over-long sequence is discarded whole and reported as one unknown key.
\<close>

theorem decoder_csi_one_key:
  assumes "dstate d = stGround" "list_all (\<lambda>b. \<not> csi_final b) ps" "csi_final f"
  shows "snd (decoder_Feed d (csi_sequence ps f)) =
           [if length ps \<le> maxCSI then csiKey ps f else KeyUnknown] \<and>
         dstate (fst (decoder_Feed d (csi_sequence ps f))) = stGround"
  using assms decoder_params [of "d\<lparr>dstate := stCSI, params := []\<rparr>" ps f]
  by (auto simp: csi_sequence_def decoder_byte_def case_prod_beta Let_def)

theorem decoder_csi_one_key_witness:
  "snd (decoder_Feed decoder_zero (csi_sequence ''3'' (CHR ''~''))) = [KeyDelete] \<and>
   snd (decoder_Feed decoder_zero (csi_sequence (replicate 40 (CHR ''1'')) (CHR ''A''))) = [KeyUnknown]"
  using decoder_csi_one_key [of decoder_zero "''3''" "CHR ''~''"]
    decoder_csi_one_key [of decoder_zero "replicate 40 (CHR ''1'')" "CHR ''A''"]
  by (simp add: decoder_zero_def csi_final_def csiKey_def maxCSI_def list_all_iff)

text \<open>
   Whatever bytes arrive, in whatever messages, the decoder holds at most 16 parameter bytes and
  three bytes of an incomplete rune.
\<close>

theorem decoder_bounded:
  "length (params (fst (decoder_feed_all decoder_zero msgs))) \<le> 16 \<and>
   length (utf (fst (decoder_feed_all decoder_zero msgs))) \<le> 3"
  using decoder_machine.run_inv [OF decoder_inv_zero, of msgs]
  by (simp add: decoder_feed_all_fst decoder_inv_def maxCSI_def UTFMax_def)

end
