(* ===== verification/Fake_Session.thy ===== *)
theory Fake_Session
  imports Output_Stream Key_Decoder "HOL-Library.Word"
begin

text \<open>
  Simulated sessions, \<^verbatim>\<open>src/fakeshell/session.go\<close>: the queueing of remote input, window sizes, the
  supervisor that restarts a program, and the \<^verbatim>\<open>TTY\<close> a program writes to, which does the newline
  translation a kernel line discipline would do.

  The clock is an argument.  A program is what it does to its \<^verbatim>\<open>TTY\<close>: a list of TTY operations per
  run and how the run ended.  Times are nanoseconds.
\<close>

section \<open>Configuration\<close>

record config =
  Hostname :: string
  IdleReset :: int
  Seed :: "64 word"

definition withDefaults :: "int \<Rightarrow> config \<Rightarrow> config" where
  "withDefaults now c0 =
     (let c1 = (if Hostname c0 = [] then c0\<lparr>Hostname := ''review-host''\<rparr> else c0);
          c2 = (if IdleReset c1 \<le> 0 then c1\<lparr>IdleReset := 15 * 60 * 10 ^ 9\<rparr> else c1)
      in if Seed c2 = 0 then c2\<lparr>Seed := word_of_int now\<rparr> else c2)"

datatype program = ProgShell | ProgAgent | ProgLogs

fun program_name :: "program \<Rightarrow> string" where
  "program_name ProgShell = ''shell''"
| "program_name ProgAgent = ''agent''"
| "program_name ProgLogs = ''logs''"

definition Programs :: "program list" where
  "Programs = [ProgShell, ProgAgent, ProgLogs]"

definition ringSize :: nat where "ringSize = 256 * 2 ^ 10"
definition keyQueue :: nat where "keyQueue = 1024"
definition maxInputBytes :: nat where "maxInputBytes = 64 * 2 ^ 10"

section \<open>The session\<close>

record 'cb fake_session =
  fstream :: "'cb stream"
  fkeys :: "key chan"
  resized :: "unit chan"
  dec :: Decoder
  fcols :: nat
  frows :: nat
  cancelled :: bool
  fdone :: bool

definition fake_setSize :: "'cb fake_session \<Rightarrow> 16 word \<Rightarrow> 16 word \<Rightarrow> 'cb fake_session" where
  "fake_setSize s cols0 rows0 =
     (let cols = (if cols0 = 0 then 80 else cols0); rows = (if rows0 = 0 then 24 else rows0)
      in s\<lparr>fcols := unat (min cols 500), frows := unat (min rows 200)\<rparr>)"

definition fake_NewSession :: "16 word \<Rightarrow> 16 word \<Rightarrow> 'cb fake_session" where
  "fake_NewSession cols rows =
     fake_setSize
       \<lparr>fstream = stream_New ringSize, fkeys = chan_make keyQueue, resized = chan_make 1,
        dec = decoder_zero, fcols = 0, frows = 0, cancelled = False, fdone = False\<rparr>
       cols rows"

definition fake_emit ::
    "'cb fake_session \<Rightarrow> bytes \<Rightarrow> bool \<Rightarrow> event_chans \<Rightarrow> 'cb fake_session \<times> event_chans \<times> 'cb list" where
  "fake_emit s p reset chs =
     (let (str, chs', fired) =
        (if reset then stream_EmitReset (fstream s) p chs else stream_Emit (fstream s) p chs)
      in (s\<lparr>fstream := str\<rparr>, chs', fired))"

definition fake_size :: "'cb fake_session \<Rightarrow> nat \<times> nat" where
  "fake_size s = (fcols s, frows s)"

text \<open>The loop of \<^verbatim>\<open>Write\<close> over the decoded keys: it returns at the first full queue.\<close>

fun enqueue_keys :: "key chan \<Rightarrow> key list \<Rightarrow> key chan" where
  "enqueue_keys c [] = c"
| "enqueue_keys c (k # ks) =
     (case chan_try_send c k of Some c' \<Rightarrow> enqueue_keys c' ks | None \<Rightarrow> c)"

definition fake_Write :: "'cb fake_session \<Rightarrow> bytes \<Rightarrow> 'cb fake_session" where
  "fake_Write s data0 =
     (let data = (if maxInputBytes < length data0 then take maxInputBytes data0 else data0);
          (d, ks) = decoder_Feed (dec s) data
      in s\<lparr>dec := d, fkeys := enqueue_keys (fkeys s) ks\<rparr>)"

definition fake_Resize :: "'cb fake_session \<Rightarrow> 16 word \<Rightarrow> 16 word \<Rightarrow> 'cb fake_session" where
  "fake_Resize s0 cols rows =
     (let s = fake_setSize s0 cols rows in
      case chan_try_send (resized s) () of Some c \<Rightarrow> s\<lparr>resized := c\<rparr> | None \<Rightarrow> s)"

text \<open>\<^verbatim>\<open>closeOnce\<close> makes \<^verbatim>\<open>Close\<close> idempotent: cancelling and closing again changes nothing.\<close>

definition fake_Close :: "'cb fake_session \<Rightarrow> 'cb fake_session" where
  "fake_Close s = s\<lparr>cancelled := True, fdone := True\<rparr>"

section \<open>The TTY\<close>

record tty =
  atLineStart :: bool
  tty_lastCR :: bool

definition tty_init :: tty where
  "tty_init = \<lparr>atLineStart = True, tty_lastCR = False\<rparr>"

fun translate_bytes :: "bool \<Rightarrow> bytes \<Rightarrow> bytes \<times> bool" where
  "translate_bytes cr [] = ([], cr)"
| "translate_bytes cr (b # bs) =
     (let (out, cr') = translate_bytes (b = CHR 0x0D) bs
      in ((if b = CHR 0x0A \<and> \<not> cr then [CHR 0x0D] else []) @ b # out, cr'))"

definition tty_translate :: "tty \<Rightarrow> bytes \<Rightarrow> tty \<times> bytes" where
  "tty_translate t p =
     (let (out, cr) = translate_bytes (tty_lastCR t) p;
          t1 = t\<lparr>tty_lastCR := cr\<rparr>;
          t2 = (if 0 < length p
                then t1\<lparr>atLineStart := (last p = CHR 0x0A \<or> last p = CHR 0x0D)\<rparr> else t1)
      in (t2, out))"

text \<open>What the TTY hands to the session's \<^verbatim>\<open>emit\<close>: bytes and whether the ring is reset first.\<close>

type_synonym emission = "bytes \<times> bool"

definition tty_Write :: "tty \<Rightarrow> bytes \<Rightarrow> tty \<times> emission list" where
  "tty_Write t p =
     (if 0 < length p then (let (t', out) = tty_translate t p in (t', [(out, False)])) else (t, []))"

definition tty_Frame :: "tty \<Rightarrow> bytes \<Rightarrow> tty \<times> emission list" where
  "tty_Frame t s = (let (t', out) = tty_translate t s in (t', [(out, True)]))"

definition clear_sequence :: bytes where
  "clear_sequence = [CHR 0x1B, CHR ''['', CHR ''H'', CHR 0x1B, CHR ''['', CHR ''2'', CHR ''J'']"

definition tty_ClearScreen :: "tty \<Rightarrow> tty \<times> emission list" where
  "tty_ClearScreen t = (let (t', es) = tty_Frame t clear_sequence in (t'\<lparr>atLineStart := True\<rparr>, es))"

datatype tty_op = TWrite bytes | TFrame bytes | TClear

fun tty_step :: "tty \<Rightarrow> tty_op \<Rightarrow> tty \<times> emission list" where
  "tty_step t (TWrite p) = tty_Write t p"
| "tty_step t (TFrame p) = tty_Frame t p"
| "tty_step t TClear = tty_ClearScreen t"

fun tty_run :: "tty \<Rightarrow> tty_op list \<Rightarrow> tty \<times> emission list" where
  "tty_run t [] = (t, [])"
| "tty_run t (op # ops) =
     (let (t1, es1) = tty_step t op; (t2, es2) = tty_run t1 ops in (t2, es1 @ es2))"

text \<open>
  \<^verbatim>\<open>Sleep\<close> over the events its \<^verbatim>\<open>select\<close> receives; \<open>None\<close> while it still waits, otherwise whether the
  time passed undisturbed.
\<close>

datatype sleep_event = SleepCancelled | SleepTimer | SleepKey key

fun tty_Sleep :: "tty \<Rightarrow> sleep_event list \<Rightarrow> tty \<times> emission list \<times> bool option" where
  "tty_Sleep t [] = (t, [], None)"
| "tty_Sleep t (SleepCancelled # _) = (t, [], Some False)"
| "tty_Sleep t (SleepTimer # _) = (t, [], Some True)"
| "tty_Sleep t (SleepKey k # evs) =
     (if k = KeyCtrlC
      then (let (t', es) = tty_Write t [CHR ''^'', CHR ''C'', CHR 0x0A] in (t', es, Some False))
      else tty_Sleep t evs)"

section \<open>The supervisor\<close>

datatype run_end = Returned | Panicked

text \<open>
  \<^verbatim>\<open>supervise\<close> over the runs of the program until the session is closed: every run starts on the same
  TTY, and a panic is caught and reported there.
\<close>

definition restart_notice :: "program \<Rightarrow> bytes" where
  "restart_notice p =
     [CHR 0x0D, CHR 0x0A] @ ''['' @ program_name p @ '' restarted]'' @ [CHR 0x0D, CHR 0x0A]"

fun fake_supervise ::
    "program \<Rightarrow> tty \<Rightarrow> (tty_op list \<times> run_end) list \<Rightarrow> tty \<times> emission list" where
  "fake_supervise p t [] = (t, [])"
| "fake_supervise p t ((ops, fin) # runs) =
     (let (t1, es1) = tty_run t ops;
          (t2, es2) = (if fin = Panicked then tty_Write t1 (restart_notice p) else (t1, []));
          (t3, es3) = fake_supervise p t2 runs
      in (t3, es1 @ es2 @ es3))"

fun fake_emit_all ::
    "'cb fake_session \<Rightarrow> emission list \<Rightarrow> event_chans \<Rightarrow> 'cb fake_session \<times> event_chans \<times> 'cb list" where
  "fake_emit_all s [] chs = (s, chs, [])"
| "fake_emit_all s ((p, reset) # es) chs =
     (let (s1, chs1, f1) = fake_emit s p reset chs; (s2, chs2, f2) = fake_emit_all s1 es chs1
      in (s2, chs2, f1 @ f2))"

section \<open>Input queueing\<close>

lemma enqueue_keys_eq:
  "length (queue c) \<le> cap c \<Longrightarrow>
     enqueue_keys c ks = c\<lparr>queue := queue c @ take (cap c - length (queue c)) ks\<rparr>"
proof (induction ks arbitrary: c)
  case (Cons k ks)
  show ?case
  proof (cases "length (queue c) < cap c")
    case True
    then have "take (cap c - length (queue c)) (k # ks) = k # take (cap c - Suc (length (queue c))) ks"
      by (metis Suc_diff_Suc take_Suc_Cons)
    with True Cons.IH [of "c\<lparr>queue := queue c @ [k]\<rparr>"] show ?thesis by (simp add: chan_try_send_def)
  next
    case False
    with Cons.prems show ?thesis by (simp add: chan_try_send_def)
  qed
qed simp

datatype fake_op =
    FWrite bytes
  | FResize "16 word" "16 word"
  | FClose
  | FReadKey
  | FReadResize

fun fake_step :: "'cb fake_session \<Rightarrow> fake_op \<Rightarrow> 'cb fake_session" where
  "fake_step s (FWrite d) = fake_Write s d"
| "fake_step s (FResize c r) = fake_Resize s c r"
| "fake_step s FClose = fake_Close s"
| "fake_step s FReadKey =
     (case chan_try_recv (fkeys s) of None \<Rightarrow> s | Some (_, c) \<Rightarrow> s\<lparr>fkeys := c\<rparr>)"
| "fake_step s FReadResize =
     (case chan_try_recv (resized s) of None \<Rightarrow> s | Some (_, c) \<Rightarrow> s\<lparr>resized := c\<rparr>)"

definition chan_ok :: "nat \<Rightarrow> 'e chan \<Rightarrow> bool" where
  "chan_ok n c \<longleftrightarrow> cap c = n \<and> length (queue c) \<le> n"

definition fake_inv :: "'cb fake_session \<Rightarrow> bool" where
  "fake_inv s \<longleftrightarrow>
     chan_ok keyQueue (fkeys s) \<and> chan_ok 1 (resized s) \<and> decoder_inv (dec s) \<and>
     1 \<le> fcols s \<and> fcols s \<le> 500 \<and> 1 \<le> frows s \<and> frows s \<le> 200"

lemma chan_ok_make [simp]: "chan_ok n (chan_make n)"
  by (simp add: chan_ok_def chan_make_def)

lemma chan_ok_ops:
  "chan_ok n c \<Longrightarrow> chan_try_send c e = Some c' \<Longrightarrow> chan_ok n c'"
  "chan_ok n c \<Longrightarrow> chan_try_recv c = Some (e, c') \<Longrightarrow> chan_ok n c'"
  by (auto simp: chan_ok_def chan_try_send_def chan_try_recv_def
      split: if_splits list.splits)

definition clamp16 :: "16 word \<Rightarrow> 16 word \<Rightarrow> 16 word \<Rightarrow> nat" where
  "clamp16 d m w = unat (min (if w = 0 then d else w) m)"

lemma clamp16_bounds:
  assumes "0 < unat d" "0 < unat m"
  shows "1 \<le> clamp16 d m w" "clamp16 d m w \<le> unat m"
proof -
  have "0 < unat (if w = 0 then d else w)" using assms(1) by (simp add: unat_gt_0)
  moreover have "unat (min a b) = min (unat a) (unat b)" for a b :: "16 word"
    by (simp add: min_def word_le_nat_alt)
  ultimately show "1 \<le> clamp16 d m w" "clamp16 d m w \<le> unat m"
    using assms(2) by (simp_all add: clamp16_def Suc_le_eq)
qed

lemma fake_setSize_clamp:
  "fake_setSize s cols rows = s\<lparr>fcols := clamp16 80 500 cols, frows := clamp16 24 200 rows\<rparr>"
  by (simp only: fake_setSize_def clamp16_def Let_def)

lemma fake_setSize_inv:
  "chan_ok keyQueue (fkeys s) \<Longrightarrow> chan_ok 1 (resized s) \<Longrightarrow> decoder_inv (dec s) \<Longrightarrow>
     fake_inv (fake_setSize s cols rows)"
  using clamp16_bounds [of 80 500 cols] clamp16_bounds [of 24 200 rows]
  by (simp add: fake_inv_def fake_setSize_clamp)

lemma fake_inv_NewSession: "fake_inv (fake_NewSession cols rows)"
  unfolding fake_NewSession_def by (rule fake_setSize_inv) simp_all

interpretation fake_machine: invariant_machine fake_step fake_inv
proof
  fix s :: "'cb fake_session" and op
  assume inv: "fake_inv s"
  show "fake_inv (fake_step s op)"
  proof (cases op)
    case (FWrite d)
    have "decoder_inv (fst (decoder_Feed (dec s) p))" for p
      using inv by (simp add: decoder_inv_Feed fake_inv_def)
    with FWrite inv show ?thesis
      by (auto simp: fake_Write_def fake_inv_def chan_ok_def enqueue_keys_eq case_prod_beta Let_def)
  next
    case (FResize c r)
    then have "fake_inv (fake_setSize s c r)"
      using inv by (intro fake_setSize_inv) (auto simp: fake_inv_def)
    with FResize show ?thesis
      by (auto simp: fake_Resize_def fake_inv_def Let_def split: option.splits intro: chan_ok_ops)
  qed (use inv in \<open>auto simp: fake_inv_def fake_Close_def split: option.splits intro: chan_ok_ops\<close>)
qed

section \<open>Newline translation\<close>

fun no_bare_lf :: "bool \<Rightarrow> bytes \<Rightarrow> bool" where
  "no_bare_lf cr [] \<longleftrightarrow> True"
| "no_bare_lf cr (b # bs) \<longleftrightarrow> (b = CHR 0x0A \<longrightarrow> cr) \<and> no_bare_lf (b = CHR 0x0D) bs"

fun op_bytes :: "tty_op \<Rightarrow> bytes" where
  "op_bytes (TWrite p) = p"
| "op_bytes (TFrame p) = p"
| "op_bytes TClear = clear_sequence"

abbreviation visible_bytes :: "bytes \<Rightarrow> bytes" where
  "visible_bytes bs \<equiv> filter (\<lambda>b. b \<noteq> CHR 0x0D) bs"

lemma translate_append:
  "translate_bytes cr (xs @ ys) =
     (let (o1, cr1) = translate_bytes cr xs; (o2, cr2) = translate_bytes cr1 ys in (o1 @ o2, cr2))"
  by (induction cr xs rule: translate_bytes.induct) (auto simp: case_prod_beta Let_def)

lemma translate_no_bare_lf: "no_bare_lf cr (fst (translate_bytes cr bs))"
  by (induction cr bs rule: translate_bytes.induct) (auto simp: case_prod_beta Let_def)

lemma translate_visible: "visible_bytes (fst (translate_bytes cr bs)) = visible_bytes bs"
  by (induction cr bs rule: translate_bytes.induct) (auto simp: case_prod_beta Let_def)

lemma tty_step_emits:
  "concat (map fst (snd (tty_step t op))) = fst (translate_bytes (tty_lastCR t) (op_bytes op)) \<and>
   tty_lastCR (fst (tty_step t op)) = snd (translate_bytes (tty_lastCR t) (op_bytes op))"
  by (cases op)
    (auto simp: tty_Write_def tty_Frame_def tty_ClearScreen_def tty_translate_def case_prod_beta Let_def)

lemma tty_run_emits:
  "concat (map fst (snd (tty_run t ops))) =
     fst (translate_bytes (tty_lastCR t) (concat (map op_bytes ops)))"
proof (induction ops arbitrary: t)
  case (Cons op ops)
  then show ?case using tty_step_emits [of t op]
    by (simp add: translate_append case_prod_beta Let_def)
qed simp

section \<open>Properties\<close>


text \<open>
   \<^verbatim>\<open>Write\<close> never blocks and drops only from the end: the keys that reach the program are the ones
  already queued followed by as many of the newly decoded keys, in order, as the queue has room for.
\<close>

theorem fake_Write_queues_prefix:
  assumes "fake_inv s" "length data \<le> 65536"
  shows "queue (fkeys (fake_Write s data)) =
           queue (fkeys s) @
           take (1024 - length (queue (fkeys s))) (snd (decoder_Feed (dec s) data))"
  using assms
  by (simp add: fake_Write_def fake_inv_def chan_ok_def keyQueue_def maxInputBytes_def enqueue_keys_eq
      case_prod_beta Let_def)

theorem fake_Write_queues_prefix_witness:
  "queue (fkeys (fake_Write (fake_NewSession 80 24 :: unit fake_session) ''ls'')) = [108, 115]"
  using fake_Write_queues_prefix [OF fake_inv_NewSession, of "''ls''" 80 24]
  by (simp add: fake_NewSession_def fake_setSize_def chan_make_def decoder_zero_def decoder_byte_def
      decoder_ground_def Let_def)

text \<open>
  C38.  A raw terminal sees proper line ends: over any sequence of writes, frames and screen clears by a
  program, no line feed is emitted without a carriage return before it (also across writes), and
  apart from carriage returns the emitted bytes are exactly the bytes written.
\<close>

theorem tty_output_crlf:
  "no_bare_lf (tty_lastCR t) (concat (map fst (snd (tty_run t ops)))) \<and>
   visible_bytes (concat (map fst (snd (tty_run t ops)))) = visible_bytes (concat (map op_bytes ops))"
  by (simp add: tty_run_emits translate_no_bare_lf translate_visible)

end
