(* ===== verification/Terminal.thy ===== *)
theory Terminal
  imports Pty_Session Fake_Session
begin

text \<open>
  The \<^verbatim>\<open>Terminal\<close> interface of \<^verbatim>\<open>src/internal/sessions/registry.go\<close> and its two implementations, a
  PTY-backed process and a simulated session.  An interface value is one of the two; a method call
  dispatches on it.  \<open>ok\<close> is whether the system call behind a PTY method succeeded.

  The locale states what the agent relies on, whichever implementation runs: remote input, resizes and
  subscriptions never touch the recorded output, and a terminal that has ended stays ended.
\<close>

section \<open>Dispatch\<close>

datatype 'cb terminal = PtyTerm "'cb pty_session" | FakeTerm "'cb fake_session"

fun term_Write :: "bool \<Rightarrow> 'cb terminal \<Rightarrow> bytes \<Rightarrow> 'cb terminal \<times> bool" where
  "term_Write ok (PtyTerm s) data = (let (s', r) = pty_Write ok s data in (PtyTerm s', r))"
| "term_Write ok (FakeTerm s) data = (FakeTerm (fake_Write s data), True)"

fun term_Resize :: "bool \<Rightarrow> 'cb terminal \<Rightarrow> 16 word \<Rightarrow> 16 word \<Rightarrow> 'cb terminal \<times> bool" where
  "term_Resize ok (PtyTerm s) cols rows = (let (s', r) = pty_Resize ok s cols rows in (PtyTerm s', r))"
| "term_Resize ok (FakeTerm s) cols rows = (FakeTerm (fake_Resize s cols rows), True)"

fun term_stream :: "'cb terminal \<Rightarrow> 'cb stream" where
  "term_stream (PtyTerm s) = pstream s"
| "term_stream (FakeTerm s) = fstream s"

fun term_with_stream :: "'cb terminal \<Rightarrow> 'cb stream \<Rightarrow> 'cb terminal" where
  "term_with_stream (PtyTerm s) str = PtyTerm (s\<lparr>pstream := str\<rparr>)"
| "term_with_stream (FakeTerm s) str = FakeTerm (s\<lparr>fstream := str\<rparr>)"

definition term_Subscribe :: "'cb terminal \<Rightarrow> chan_id \<Rightarrow> 'cb option \<Rightarrow> 'cb terminal" where
  "term_Subscribe t ch overflow = term_with_stream t (stream_Subscribe (term_stream t) ch overflow)"

definition term_Unsubscribe :: "'cb terminal \<Rightarrow> chan_id \<Rightarrow> 'cb terminal" where
  "term_Unsubscribe t ch = term_with_stream t (stream_Unsubscribe (term_stream t) ch)"

definition term_RequestSnapshot ::
    "'cb terminal \<Rightarrow> chan_id \<Rightarrow> string \<Rightarrow> event_chans \<Rightarrow> event_chans \<times> bool" where
  "term_RequestSnapshot t ch clientID chs = stream_RequestSnapshot (term_stream t) ch clientID chs"

definition term_Snapshot :: "'cb terminal \<Rightarrow> bytes" where
  "term_Snapshot t = stream_Snapshot (term_stream t)"

fun term_Done :: "'cb terminal \<Rightarrow> bool" where
  "term_Done (PtyTerm s) = pty_done s"
| "term_Done (FakeTerm s) = fdone s"

fun term_Close :: "'cb terminal \<Rightarrow> 'cb terminal" where
  "term_Close (PtyTerm s) = PtyTerm (pty_Close s)"
| "term_Close (FakeTerm s) = FakeTerm (fake_Close s)"

text \<open>What a terminal itself does: output (\<open>reset\<close> only for a simulated one) and its process ending.\<close>

fun term_emit ::
    "'cb terminal \<Rightarrow> bytes \<Rightarrow> bool \<Rightarrow> event_chans \<Rightarrow> 'cb terminal \<times> event_chans \<times> 'cb list" where
  "term_emit (PtyTerm s) d reset chs = (let (s', chs', f) = pty_emit s d chs in (PtyTerm s', chs', f))"
| "term_emit (FakeTerm s) d reset chs = (let (s', chs', f) = fake_emit s d reset chs in (FakeTerm s', chs', f))"

fun term_end :: "'cb terminal \<Rightarrow> 'cb terminal" where
  "term_end (PtyTerm s) = PtyTerm (s\<lparr>pty_done := True\<rparr>)"
| "term_end (FakeTerm s) = FakeTerm (s\<lparr>fdone := True\<rparr>)"

section \<open>The interface\<close>

locale terminal_interface =
  fixes str_of :: "'t \<Rightarrow> 'cb stream"
    and is_done :: "'t \<Rightarrow> bool"
    and input :: "'t \<Rightarrow> bytes \<Rightarrow> 't"
    and resize :: "'t \<Rightarrow> 16 word \<Rightarrow> 16 word \<Rightarrow> 't"
    and close :: "'t \<Rightarrow> 't"
  assumes input_stream: "str_of (input t d) = str_of t"
    and input_done: "is_done (input t d) = is_done t"
    and resize_stream: "str_of (resize t c r) = str_of t"
    and resize_done: "is_done (resize t c r) = is_done t"
    and close_stream: "str_of (close t) = str_of t"
    and close_done: "is_done (close t)"
begin

text \<open>Any sequence of remote inputs and resizes: \<open>Inl\<close> is an input, \<open>Inr\<close> a resize.\<close>

definition remote :: "'t \<Rightarrow> bytes + 16 word \<times> 16 word \<Rightarrow> 't" where
  "remote t a = (case a of Inl d \<Rightarrow> input t d | Inr (c, r) \<Rightarrow> resize t c r)"

lemma remote_transparent: "str_of (remote t a) = str_of t" "is_done (remote t a) = is_done t"
  by (auto simp: remote_def input_stream input_done resize_stream resize_done
      split: sum.split prod.split)

lemma remote_run_transparent:
  "str_of (foldl remote t as) = str_of t \<and> is_done (foldl remote t as) = is_done t"
  by (induction as arbitrary: t) (simp_all add: remote_transparent)

lemma closed_is_done: "is_done (foldl remote (close t) as)"
  using remote_run_transparent close_done by blast

end

lemma fake_setSize_other [simp]:
  "fstream (fake_setSize s c r) = fstream s" "fdone (fake_setSize s c r) = fdone s"
  by (simp_all add: fake_setSize_def Let_def)

lemma fake_Write_other [simp]:
  "fstream (fake_Write s d) = fstream s" "fdone (fake_Write s d) = fdone s"
  by (simp_all add: fake_Write_def Let_def case_prod_beta)

lemma fake_Resize_other [simp]:
  "fstream (fake_Resize s c r) = fstream s" "fdone (fake_Resize s c r) = fdone s"
  by (simp_all add: fake_Resize_def Let_def split: option.split)

lemma pty_Write_other [simp]:
  "pstream (fst (pty_Write ok s d)) = pstream s" "pty_done (fst (pty_Write ok s d)) = pty_done s"
  by (simp_all add: pty_Write_def Let_def)

lemma pty_Resize_other [simp]:
  "pstream (fst (pty_Resize ok s c r)) = pstream s" "pty_done (fst (pty_Resize ok s c r)) = pty_done s"
  by (simp_all add: pty_Resize_def)

interpretation pty_terminal:
  terminal_interface pstream pty_done "\<lambda>s d. fst (pty_Write ok s d)"
    "\<lambda>s c r. fst (pty_Resize ok s c r)" pty_Close
  by unfold_locales (simp_all add: pty_Close_def)

interpretation fake_terminal:
  terminal_interface fstream fdone fake_Write fake_Resize fake_Close
  by unfold_locales (simp_all add: fake_Close_def)

lemma term_Write_other [simp]:
  "term_stream (fst (term_Write ok t d)) = term_stream t"
  "term_Done (fst (term_Write ok t d)) = term_Done t"
  by (cases t; simp add: case_prod_beta)+

lemma term_Resize_other [simp]:
  "term_stream (fst (term_Resize ok t c r)) = term_stream t"
  "term_Done (fst (term_Resize ok t c r)) = term_Done t"
  by (cases t; simp add: case_prod_beta)+

lemma term_Close_other [simp]: "term_stream (term_Close t) = term_stream t" "term_Done (term_Close t)"
  by (cases t; simp add: pty_Close_def fake_Close_def)+

lemma term_end_other [simp]: "term_stream (term_end t) = term_stream t" "term_Done (term_end t)"
  by (cases t; simp)+

lemma term_with_stream_other [simp]:
  "term_stream (term_with_stream t str) = str" "term_Done (term_with_stream t str) = term_Done t"
  by (cases t; simp)+

lemma term_Subscribe_Done [simp]:
  "term_Done (term_Subscribe t ch cb) = term_Done t" "term_Done (term_Unsubscribe t ch) = term_Done t"
  by (simp_all add: term_Subscribe_def term_Unsubscribe_def)

interpretation any_terminal:
  terminal_interface term_stream term_Done "\<lambda>t d. fst (term_Write ok t d)"
    "\<lambda>t c r. fst (term_Resize ok t c r)" term_Close
  by unfold_locales simp_all

lemma term_emit_Done [simp]: "term_Done (fst (term_emit t d r chs)) = term_Done t"
  by (cases t) (simp_all add: pty_emit_def fake_emit_def Let_def case_prod_beta)

text \<open>Emission through a terminal is emission on its stream.\<close>

lemma term_emit_stream:
  "term_emit t d r chs =
     (let (str, chs', f) =
        (case t of FakeTerm _ \<Rightarrow> if r then stream_EmitReset (term_stream t) d chs
                                else stream_Emit (term_stream t) d chs
                 | PtyTerm _ \<Rightarrow> stream_Emit (term_stream t) d chs)
      in (fst (term_emit t d r chs), chs', f)) \<and>
   term_stream (fst (term_emit t d r chs)) =
     fst (case t of FakeTerm _ \<Rightarrow> if r then stream_EmitReset (term_stream t) d chs
                                else stream_Emit (term_stream t) d chs
                 | PtyTerm _ \<Rightarrow> stream_Emit (term_stream t) d chs)"
  by (cases t) (simp_all add: pty_emit_def fake_emit_def Let_def case_prod_beta)

end
