(* ===== verification/Multiplexers.thy ===== *)
theory Multiplexers
  imports Go_Strings "HOL-Library.Word"
begin

text \<open>
  Discovery of tmux and GNU Screen sessions: \<^verbatim>\<open>src/internal/tmuxsess/tmux.go\<close> and
  \<^verbatim>\<open>src/internal/screensess/screen.go\<close>, with the control-mode filter of
  \<^verbatim>\<open>src/cmd/scomp/session_watch.go\<close>.  Running the two programs is the operating system's part: the
  output of \<^verbatim>\<open>tmux list-sessions\<close> (or its failure), of \<^verbatim>\<open>screen -ls\<close>, the environment and the
  existence of directories are arguments.  Go's \<^verbatim>\<open>int\<close> has 64 bits on every supported platform.
\<close>

section \<open>tmux\<close>

definition sccompPrefix :: string where
  "sccompPrefix = ''scomp-''"

record tmux_session =
  tName :: string
  tWindows :: "64 word"

definition tmux_SocketDir :: "nat \<Rightarrow> string \<Rightarrow> string \<Rightarrow> string" where
  "tmux_SocketDir uid tmux_tmpdir tmpdir =
     (if tmux_tmpdir \<noteq> [] then tmux_tmpdir @ ''/tmux-'' @ show_nat uid
      else if tmpdir \<noteq> [] then tmpdir @ ''/tmux-'' @ show_nat uid
      else ''/tmp/tmux-'' @ show_nat uid)"

text \<open>The digit loop: other characters are skipped, and the sum wraps at 64 bits.\<close>

definition count_digit :: "64 word \<Rightarrow> char \<Rightarrow> 64 word" where
  "count_digit n c =
     (if 48 \<le> byte_code c \<and> byte_code c \<le> 57 then n * 10 + of_nat (byte_code c - 48) else n)"

definition tmux_parse_line :: "string \<Rightarrow> tmux_session option" where
  "tmux_parse_line line =
     (if line = [] then None
      else let (name, counts) = (case cut (CHR ''|'') line of
                  None \<Rightarrow> (line, None) | Some (a, b) \<Rightarrow> (a, Some b)) in
        if HasPrefix name sccompPrefix then None
        else Some \<lparr>tName = name,
          tWindows = (case counts of
              None \<Rightarrow> 1
            | Some b \<Rightarrow> let n = foldl count_digit 0 b in if 0 < sint n then n else 1)\<rparr>)"

definition tmux_parseOutput :: "string \<Rightarrow> tmux_session list" where
  "tmux_parseOutput out = List.map_filter tmux_parse_line (split_on (CHR 0x0A) (TrimSpace out))"

definition tmux_List :: "string option \<Rightarrow> tmux_session list" where
  "tmux_List out = (case out of None \<Rightarrow> [] | Some o' \<Rightarrow> tmux_parseOutput o')"

definition ExactTarget :: "string \<Rightarrow> string" where
  "ExactTarget name = ''='' @ name"

definition LinkedSessionName :: "string \<Rightarrow> string" where
  "LinkedSessionName name = sccompPrefix @ name"

definition tmux_AttachArgs :: "string \<Rightarrow> string \<times> string list" where
  "tmux_AttachArgs name = (''tmux'', [''attach-session'', ''-t'', ExactTarget name])"

definition LinkedSessionArgs :: "string \<Rightarrow> string \<times> string list" where
  "LinkedSessionArgs name =
     (''tmux'', [''new-session'', ''-A'', ''-t'', ExactTarget name, ''-s'', LinkedSessionName name])"

text \<open>The arguments of the command \<^verbatim>\<open>KillLinkedSession\<close> runs.\<close>

definition KillLinkedSession_args :: "string \<Rightarrow> string \<times> string list" where
  "KillLinkedSession_args name =
     (''tmux'', [''kill-session'', ''-t'', ExactTarget (LinkedSessionName name)])"

definition isTmuxSessionChange :: "string \<Rightarrow> bool" where
  "isTmuxSessionChange line0 =
     (let line = TrimSpace line0 in
      line = ''%sessions-changed'' \<or>
      HasPrefix line ''%session-changed '' \<or>
      HasPrefix line ''%session-renamed '')"

section \<open>GNU Screen\<close>

record screen_session =
  FullName :: string
  sName :: string
  Status :: string

definition screen_candidates :: "string \<Rightarrow> string list" where
  "screen_candidates user =
     [''/run/screen/S-'' @ user, ''/var/run/screen/S-'' @ user, ''/tmp/screens/S-'' @ user]"

text \<open>\<open>username\<close> is \<open>None\<close> when \<^verbatim>\<open>user.Current\<close> fails; \<open>exists\<close> is \<^verbatim>\<open>os.Stat\<close> succeeding.\<close>

definition screen_SocketDir :: "string \<Rightarrow> string option \<Rightarrow> (string \<Rightarrow> bool) \<Rightarrow> string" where
  "screen_SocketDir screendir username stat_ok =
     (if screendir \<noteq> [] then screendir
      else case username of
          None \<Rightarrow> []
        | Some u \<Rightarrow>
            (case find stat_ok (screen_candidates u) of
               Some d \<Rightarrow> d
             | None \<Rightarrow> ''/run/screen/S-'' @ u))"

definition screen_parse_line :: "string \<Rightarrow> screen_session option" where
  "screen_parse_line line =
     (let trimmed = TrimSpace line in
      if trimmed = [] \<or> \<not> Contains trimmed ''.'' then None
      else case Fields trimmed of
          fullName # f1 # _ \<Rightarrow>
            let status = Trim f1 ''()'' in
            if status \<noteq> ''Attached'' \<and> status \<noteq> ''Detached'' then None
            else Some \<lparr>FullName = fullName,
                       sName = (case cut (CHR ''.'') fullName of Some (_, n) \<Rightarrow> n | None \<Rightarrow> fullName),
                       Status = status\<rparr>
        | _ \<Rightarrow> None)"

fun screen_collect :: "string list \<Rightarrow> string list \<Rightarrow> screen_session list" where
  "screen_collect seen [] = []"
| "screen_collect seen (line # lines) =
     (case screen_parse_line line of
        None \<Rightarrow> screen_collect seen lines
      | Some s \<Rightarrow>
          if sName s \<in> set seen then screen_collect seen lines
          else s # screen_collect (sName s # seen) lines)"

definition parseScreenOutput :: "string \<Rightarrow> screen_session list" where
  "parseScreenOutput out = screen_collect [] (split_on (CHR 0x0A) out)"

definition screen_List :: "string \<Rightarrow> screen_session list" where
  "screen_List out = parseScreenOutput out"

definition screen_AttachArgs :: "string \<Rightarrow> string \<times> string list" where
  "screen_AttachArgs fullName = (''screen'', [''-x'', fullName])"

section \<open>Screen sockets\<close>

lemma screen_collect_unseen:
  "s \<in> set (screen_collect seen lines) \<Longrightarrow> sName s \<notin> set seen"
  by (induction seen lines rule: screen_collect.induct) (auto split: option.splits if_splits)

lemma screen_collect_distinct: "distinct (map sName (screen_collect seen lines))"
proof (induction seen lines rule: screen_collect.induct)
  case (2 seen line lines)
  then show ?case
    by (auto split: option.splits dest: screen_collect_unseen)
qed simp

lemma screen_collect_source:
  "s \<in> set (screen_collect seen lines) \<Longrightarrow> Some s \<in> screen_parse_line ` set lines"
  by (induction seen lines rule: screen_collect.induct) (auto split: option.splits if_splits)

text \<open>The session kept for a display name is the one of its first line.\<close>

definition first_line_of :: "screen_session \<Rightarrow> string list \<Rightarrow> bool" where
  "first_line_of s lines \<longleftrightarrow>
     (\<exists>pre line post. lines = pre @ line # post \<and> screen_parse_line line = Some s \<and>
        (\<forall>l \<in> set pre. \<forall>s'. screen_parse_line l = Some s' \<longrightarrow> sName s' \<noteq> sName s))"

lemma first_line_of_here: "screen_parse_line line = Some s \<Longrightarrow> first_line_of s (line # lines)"
  unfolding first_line_of_def by (rule exI [of _ "[]"]) auto

lemma first_line_of_later:
  assumes "first_line_of s lines"
    and "\<And>s'. screen_parse_line line = Some s' \<Longrightarrow> sName s' \<noteq> sName s"
  shows "first_line_of s (line # lines)"
proof -
  obtain pre l post where "lines = pre @ l # post" "screen_parse_line l = Some s"
    "\<forall>l \<in> set pre. \<forall>s'. screen_parse_line l = Some s' \<longrightarrow> sName s' \<noteq> sName s"
    using assms(1) unfolding first_line_of_def by blast
  then show ?thesis
    unfolding first_line_of_def using assms(2) by (intro exI [of _ "line # pre"]) auto
qed

lemma screen_collect_first:
  "s \<in> set (screen_collect seen lines) \<Longrightarrow> first_line_of s lines"
proof (induction lines arbitrary: seen)
  case (Cons line lines)
  show ?case
  proof (cases "screen_parse_line line")
    case None
    with Cons show ?thesis by (auto intro: first_line_of_later)
  next
    case (Some t)
    show ?thesis
    proof (cases "t = s")
      case True
      with Some show ?thesis by (simp add: first_line_of_here)
    next
      case False
      define seen' where "seen' = (if sName t \<in> set seen then seen else sName t # seen)"
      have s: "s \<in> set (screen_collect seen' lines)"
        using Cons.prems Some False by (auto simp: seen'_def)
      have "sName t \<noteq> sName s"
        using screen_collect_unseen [OF s] by (auto simp: seen'_def split: if_splits)
      then show ?thesis using Cons.IH [OF s] Some by (auto intro: first_line_of_later)
    qed
  qed
qed simp

section \<open>tmux output\<close>

definition tmux_line :: "string \<times> nat \<Rightarrow> string" where
  "tmux_line s = fst s @ CHR ''|'' # show_nat (snd s)"

definition tmux_output :: "(string \<times> nat) list \<Rightarrow> string" where
  "tmux_output ss = concat (map (\<lambda>s. tmux_line s @ [CHR 0x0A]) ss)"

definition visible_char :: "char \<Rightarrow> bool" where
  "visible_char c \<longleftrightarrow> 0x21 \<le> byte_code c \<and> byte_code c \<le> 0x7e"

text \<open>
  Names the output format can carry: not empty, without the separator or a newline, starting with a
  visible ASCII character.
\<close>

definition tmux_name_ok :: "string \<Rightarrow> bool" where
  "tmux_name_ok name \<longleftrightarrow>
     name \<noteq> [] \<and> visible_char (hd name) \<and> CHR ''|'' \<notin> set name \<and> CHR 0x0A \<notin> set name"

lemma count_show_nat: "foldl count_digit 0 (show_nat n) = of_nat n"
proof (induction n rule: show_nat.induct)
  case (1 n)
  show ?case
  proof (cases "n < 10")
    case True
    then show ?thesis by (simp add: show_nat.simps [of n] count_digit_def)
  next
    case False
    have "(of_nat n :: 64 word) = of_nat (n div 10 * 10 + n mod 10)" by simp
    also have "\<dots> = of_nat (n div 10) * 10 + of_nat (n mod 10)" by (simp only: of_nat_add of_nat_mult) simp
    finally show ?thesis using False 1 by (simp add: show_nat.simps [of n] count_digit_def)
  qed
qed

lemma count_show_nat_pos:
  assumes "0 < w" "w < 2 ^ 63"
  shows "0 < sint (of_nat w :: 64 word)"
proof -
  have "int w < 2 ^ 63" using assms(2) by (metis of_nat_less_numeral_power_cancel_iff)
  then have "signed_take_bit 63 (int w) = int w" by (intro signed_take_bit_int_eq_self) auto
  with assms show ?thesis by (simp add: signed_of_nat)
qed

lemma space_at_visible:
  assumes "\<forall>e \<in> set encs. e \<noteq> [] \<and> \<not> visible_char (hd e)" "s = [] \<or> visible_char (hd s)"
  shows "space_at encs s = None"
proof -
  have "\<not> HasPrefix s e" if "e \<in> set encs" for e
    using assms that by (cases e; cases s) auto
  then show ?thesis by (auto simp: space_at_def find_None_iff)
qed

lemma spaces_invisible:
  "\<forall>e \<in> set space_encodings. e \<noteq> [] \<and> \<not> visible_char (hd e)"
  "\<forall>e \<in> set (map rev space_encodings). e \<noteq> [] \<and> \<not> visible_char (hd e)"
  by (simp_all add: space_encodings_def visible_char_def)

lemma trim_left_visible:
  "\<forall>e \<in> set encs. e \<noteq> [] \<and> \<not> visible_char (hd e) \<Longrightarrow> visible_char (hd s) \<Longrightarrow>
   trim_left_space encs s = s"
  by (subst trim_left_space.simps) (simp add: space_at_visible)

lemma trim_right_newline:
  assumes "visible_char (hd s)"
  shows "trim_left_space (map rev space_encodings) (CHR 0x0A # s) = s"
proof -
  have "space_at (map rev space_encodings) (CHR 0x0A # s) = Some 1"
    by (simp add: space_at_def space_encodings_def)
  then show ?thesis
    by (subst trim_left_space.simps) (simp add: trim_left_visible [OF spaces_invisible(2) assms])
qed

lemma TrimSpace_line:
  assumes "s \<noteq> []" "visible_char (hd s)" "visible_char (last s)"
  shows "TrimSpace (s @ [CHR 0x0A]) = s"
proof -
  have "hd (s @ [CHR 0x0A]) = hd s" using assms by simp
  then have "trim_left_space space_encodings (s @ [CHR 0x0A]) = s @ [CHR 0x0A]"
    using assms by (intro trim_left_visible [OF spaces_invisible(1)]) simp
  moreover have "trim_left_space (map rev space_encodings) (CHR 0x0A # rev s) = rev s"
    using assms by (intro trim_right_newline) (simp add: hd_rev)
  ultimately show ?thesis by (simp add: TrimSpace_def)
qed

lemma tmux_line_ne [simp]: "tmux_line s \<noteq> []"
  by (simp add: tmux_line_def)

lemma tmux_line_last: "visible_char (last (tmux_line s))"
  using show_nat_digits [of "last (show_nat (snd s))" "snd s"]
  by (simp add: tmux_line_def visible_char_def)

lemma tmux_line_no_newline:
  assumes "tmux_name_ok (fst s)" shows "CHR 0x0A \<notin> set (tmux_line s)"
proof
  assume "CHR 0x0A \<in> set (tmux_line s)"
  then have "CHR 0x0A \<in> set (show_nat (snd s))"
    using assms by (auto simp: tmux_line_def tmux_name_ok_def)
  from show_nat_digits [OF this] show False by simp
qed

lemma tmux_parse_printed:
  assumes "tmux_name_ok (fst s)" "0 < snd s" "snd s < 2 ^ 63"
  shows "tmux_parse_line (tmux_line s) =
    (if HasPrefix (fst s) sccompPrefix then None
     else Some \<lparr>tName = fst s, tWindows = of_nat (snd s)\<rparr>)"
  using assms count_show_nat_pos [of "snd s"]
  by (simp add: tmux_parse_line_def tmux_line_def tmux_name_ok_def cut_append count_show_nat Let_def)

lemma tmux_output_split:
  assumes "\<forall>s \<in> set (s0 # ss). tmux_name_ok (fst s)"
  shows "split_on (CHR 0x0A) (butlast (tmux_output (s0 # ss))) = map tmux_line (s0 # ss)"
  using assms
proof (induction ss arbitrary: s0)
  case Nil
  then show ?case
    by (simp add: tmux_output_def butlast_append split_on_no_sep tmux_line_no_newline)
next
  case (Cons s ss)
  have ne: "tmux_output (s # ss) \<noteq> []" by (simp add: tmux_output_def)
  have nl: "CHR 0x0A \<notin> set (tmux_line s0)" "CHR 0x0A \<notin> set (tmux_line s)"
    using Cons.prems by (simp_all add: tmux_line_no_newline)
  have "butlast (tmux_output (s0 # s # ss)) = tmux_line s0 @ CHR 0x0A # butlast (tmux_output (s # ss))"
    using ne by (simp add: tmux_output_def butlast_append)
  then show ?case
    using Cons.IH [of s] Cons.prems nl by (simp add: split_on_append split_on_no_sep)
qed

lemma tmux_output_trim:
  assumes "ss \<noteq> []" "\<forall>s \<in> set ss. tmux_name_ok (fst s)"
  shows "TrimSpace (tmux_output ss) = butlast (tmux_output ss)"
proof -
  obtain s0 ss' where ss: "ss = s0 # ss'" using assms by (cases ss) auto
  have out: "tmux_output ss = butlast (tmux_output ss) @ [CHR 0x0A]"
    using assms(1) by (cases ss rule: rev_cases) (simp_all add: tmux_output_def butlast_append)
  have "butlast (tmux_output ss) \<noteq> []" using ss by (simp add: tmux_output_def butlast_append)
  moreover have "visible_char (hd (butlast (tmux_output ss)))"
    using assms ss by (simp add: tmux_output_def butlast_append tmux_line_def tmux_name_ok_def)
  moreover have "visible_char (last (butlast (tmux_output ss)))"
    using assms(1) tmux_line_last
    by (cases ss rule: rev_cases) (simp_all add: tmux_output_def butlast_append)
  ultimately show ?thesis using TrimSpace_line [of "butlast (tmux_output ss)"] out by simp
qed

section \<open>Properties\<close>

text \<open>
  What \<^verbatim>\<open>parseScreenOutput\<close> reports: no two sessions share a display name, every session comes from
  the first line of the output that carries its name, so its socket stays the same while later lines
  change, and its status is \<^verbatim>\<open>Attached\<close> or \<^verbatim>\<open>Detached\<close>.
\<close>

theorem screen_names_unique:
  shows "distinct (map sName (parseScreenOutput out)) \<and>
    (\<forall>s. s \<in> set (parseScreenOutput out) \<longrightarrow>
       first_line_of s (split_on (CHR 0x0A) out) \<and> Status s \<in> {''Attached'', ''Detached''})"
proof -
  have "Status s \<in> {''Attached'', ''Detached''}" if "Some s \<in> screen_parse_line ` A" for s A
    using that by (auto simp: screen_parse_line_def Let_def split: if_splits list.splits)
  then show ?thesis
    unfolding parseScreenOutput_def
    using screen_collect_distinct screen_collect_first screen_collect_source by blast
qed

theorem screen_names_unique_witness:
  "first_line_of \<lparr>FullName = ''1.a'', sName = ''a'', Status = ''Attached''\<rparr>
     (split_on (CHR 0x0A) (''1.a (Attached)'' @ [CHR 0x0A] @ ''2.a (Detached)''))"
proof -
  have "\<lparr>FullName = ''1.a'', sName = ''a'', Status = ''Attached''\<rparr>
    \<in> set (parseScreenOutput (''1.a (Attached)'' @ [CHR 0x0A] @ ''2.a (Detached)''))"
    by code_simp
  then show ?thesis using screen_names_unique by blast
qed



text \<open>
  Whatever tmux prints, no session the agent publishes is one of its own linked sessions, and every
  window count is positive as a signed 64-bit integer, also when the digits overflow it.
\<close>

theorem tmux_list_sound:
  shows "s \<in> set (tmux_List out) \<longrightarrow> \<not> HasPrefix (tName s) sccompPrefix \<and> 0 < sint (tWindows s)"
proof -
  have "\<not> HasPrefix (tName s) sccompPrefix \<and> 0 < sint (tWindows s)"
    if "tmux_parse_line l = Some s" for l
    using that by (auto simp: tmux_parse_line_def Let_def split: if_splits option.splits)
  then show ?thesis
    by (auto simp: tmux_List_def tmux_parseOutput_def List.map_filter_def split: option.splits)
qed

theorem tmux_list_sound_witness:
  "0 < sint (tWindows \<lparr>tName = ''a'', tWindows = 1\<rparr>)"
proof -
  have "\<lparr>tName = ''a'', tWindows = 1\<rparr> \<in> set (tmux_List (Some ''a|18446744073709551616''))"
    by code_simp
  then show ?thesis using tmux_list_sound by blast
qed

end
