(* ===== verification/Session_Registry.thy ===== *)
theory Session_Registry
  imports Terminal Multiplexers Go_Encoding
begin

text \<open>
  The table of running sessions, \<^verbatim>\<open>src/internal/sessions/registry.go\<close> and \<^verbatim>\<open>spawn.go\<close>.

  Terminals are heap objects compared by identity: \<open>terms\<close> is the heap and a terminal is its index.
  The maps are association lists in the order a Go iteration visits them.  \<open>cleanups\<close> are the
  \<^verbatim>\<open>forgetWhenDone\<close> goroutines that have been started and have not yet run their critical section.
  Every critical section under \<^verbatim>\<open>Registry.mu\<close> is one definition, so that other goroutines can be
  interleaved between the two sections of \<^verbatim>\<open>Create\<close> and \<^verbatim>\<open>CreateWithID\<close>; \<open>reg_op\<close> below lists them all.
  Starting a process and reading the clock or the random source are arguments.
\<close>

section \<open>Data\<close>

type_synonym tid = nat
type_synonym session_mode = string

definition ModeFull :: session_mode where "ModeFull = ''full''"
definition ModeReadonly :: session_mode where "ModeReadonly = ''readonly''"
definition ModeApproved :: session_mode where "ModeApproved = ''approved-only''"

record info =
  iID :: string
  iCmd :: string
  iCreated :: int
  iMode :: session_mode

record reg_entry =
  eInfo :: info
  eSession :: tid
  eSource :: string

record 'cb registry =
  terms :: "'cb terminal list"
  entries :: "(string \<times> reg_entry) list"
  sourceToID :: "(string \<times> string) list"
  cleanups :: "(string \<times> tid) list"

definition registry_New :: "'cb registry" where
  "registry_New = \<lparr>terms = [], entries = [], sourceToID = [], cleanups = []\<rparr>"

definition term_at :: "'cb registry \<Rightarrow> tid \<Rightarrow> 'cb terminal" where
  "term_at r t = terms r ! t"

definition set_term :: "'cb registry \<Rightarrow> tid \<Rightarrow> 'cb terminal \<Rightarrow> 'cb registry" where
  "set_term r t x = r\<lparr>terms := (terms r)[t := x]\<rparr>"

section \<open>Operations\<close>

definition reg_alive :: "'cb registry \<Rightarrow> tid \<Rightarrow> bool" where
  "reg_alive r t \<longleftrightarrow> \<not> term_Done (term_at r t)"

definition close_term :: "'cb registry \<Rightarrow> tid \<Rightarrow> 'cb registry" where
  "close_term r t = set_term r t (term_Close (term_at r t))"

text \<open>The deletion of an entry and of its source key, shared by cleanup and \<^verbatim>\<open>Remove\<close>.\<close>

definition drop_entry :: "'cb registry \<Rightarrow> string \<Rightarrow> reg_entry \<Rightarrow> 'cb registry" where
  "drop_entry r sid e =
     (let r1 = r\<lparr>entries := AList.delete sid (entries r)\<rparr> in
      if eSource e \<noteq> [] \<and> map_of (sourceToID r) (eSource e) = Some sid
      then r1\<lparr>sourceToID := AList.delete (eSource e) (sourceToID r)\<rparr> else r1)"

text \<open>The critical section of \<^verbatim>\<open>forgetWhenDone\<close>, which runs once the terminal is done.\<close>

definition forgetWhenDone :: "'cb registry \<Rightarrow> string \<Rightarrow> tid \<Rightarrow> 'cb registry" where
  "forgetWhenDone r sid t =
     (case map_of (entries r) sid of
        None \<Rightarrow> r
      | Some e \<Rightarrow> if eSession e \<noteq> t then r else drop_entry r sid e)"

definition reg_Get :: "'cb registry \<Rightarrow> string \<Rightarrow> tid option" where
  "reg_Get r sid =
     (case map_of (entries r) sid of
        None \<Rightarrow> None
      | Some e \<Rightarrow> if reg_alive r (eSession e) then Some (eSession e) else None)"

definition reg_List :: "'cb registry \<Rightarrow> info list" where
  "reg_List r = map (\<lambda>(_, e). eInfo e) (entries r)"

definition reg_Snapshot :: "'cb registry \<Rightarrow> string \<Rightarrow> bytes" where
  "reg_Snapshot r sid =
     (case map_of (entries r) sid of None \<Rightarrow> [] | Some e \<Rightarrow> term_Snapshot (term_at r (eSession e)))"

text \<open>A terminal that is not in the heap yet is allocated first.\<close>

definition new_term :: "'cb registry \<Rightarrow> 'cb terminal \<Rightarrow> 'cb registry \<times> tid" where
  "new_term r x = (r\<lparr>terms := terms r @ [x]\<rparr>, length (terms r))"

definition reg_put :: "'cb registry \<Rightarrow> string \<Rightarrow> reg_entry \<Rightarrow> 'cb registry" where
  "reg_put r sid e =
     r\<lparr>entries := AList.update sid e (entries r),
       sourceToID := (if eSource e \<noteq> [] then AList.update (eSource e) sid (sourceToID r) else sourceToID r),
       cleanups := cleanups r @ [(sid, eSession e)]\<rparr>"

definition reg_Add :: "'cb registry \<Rightarrow> int \<Rightarrow> string \<Rightarrow> string \<Rightarrow> tid \<Rightarrow> 'cb registry \<times> info" where
  "reg_Add r now sid cmd t =
     (let i = \<lparr>iID = sid, iCmd = cmd, iCreated = now, iMode = []\<rparr>;
          old = map_of (entries r) sid;
          r1 = reg_put r sid \<lparr>eInfo = i, eSession = t, eSource = []\<rparr>;
          r2 = (case old of
                  Some e \<Rightarrow> if eSession e \<noteq> t then close_term r1 (eSession e) else r1
                | None \<Rightarrow> r1)
      in (r2, i))"

definition reg_Remove :: "'cb registry \<Rightarrow> string \<Rightarrow> 'cb registry" where
  "reg_Remove r sid =
     (case map_of (entries r) sid of
        None \<Rightarrow> r
      | Some e \<Rightarrow> close_term (drop_entry r sid e) (eSession e))"

section \<open>Spawning\<close>

definition newID :: "bytes \<Rightarrow> string" where
  "newID rnd = hex_encode rnd"

fun arg_after :: "string \<Rightarrow> string list \<Rightarrow> string option" where
  "arg_after flag [] = None"
| "arg_after flag [a] = None"
| "arg_after flag (a # b # rest) = (if a = flag then Some b else arg_after flag (b # rest))"

definition sourceKey :: "string \<Rightarrow> string list \<Rightarrow> string" where
  "sourceKey cmd args =
     (let base = (if CHR ''/'' \<in> set cmd then after_last (CHR ''/'') cmd else cmd) in
      if base = ''tmux'' then
        (if 3 \<le> length args \<and> args ! 0 = ''attach-session'' \<and> args ! 1 = ''-t''
         then ''tmux:'' @ TrimPrefix (args ! 2) ''=''
         else if 0 < length args \<and> args ! 0 = ''new-session''
         then (case arg_after ''-s'' args of Some name \<Rightarrow> ''tmux:'' @ name | None \<Rightarrow> [])
         else [])
      else if base = ''screen'' then
        (if 2 \<le> length args \<and> args ! 0 = ''-x'' then ''screen:'' @ args ! 1 else [])
      else [])"

definition liveSourceLocked :: "'cb registry \<Rightarrow> string \<Rightarrow> reg_entry option" where
  "liveSourceLocked r src =
     (case map_of (sourceToID r) src of
        None \<Rightarrow> None
      | Some sid \<Rightarrow>
          (case map_of (entries r) sid of
             None \<Rightarrow> None
           | Some e \<Rightarrow> if reg_alive r (eSession e) then Some e else None))"

text \<open>The first critical section of \<^verbatim>\<open>CreateWithID\<close>: a live session of the same source gets \<open>sid\<close> as an alias.\<close>

definition reg_alias :: "'cb registry \<Rightarrow> string \<Rightarrow> reg_entry \<Rightarrow> 'cb registry" where
  "reg_alias r sid e =
     reg_put r sid
       \<lparr>eInfo = \<lparr>iID = sid, iCmd = iCmd (eInfo e), iCreated = iCreated (eInfo e), iMode = []\<rparr>,
        eSession = eSession e, eSource = []\<rparr>"

text \<open>Starting a process and the second critical section, shared by both operations.\<close>

definition reg_spawn ::
    "'cb registry \<Rightarrow> bool \<Rightarrow> int \<Rightarrow> string \<Rightarrow> string \<Rightarrow> string \<Rightarrow> 16 word \<Rightarrow> 16 word \<Rightarrow>
     'cb registry \<times> (info \<times> tid) option" where
  "reg_spawn r start_ok now sid cmd src cols rows =
     (case pty_New start_ok cmd cols rows of
        None \<Rightarrow> (r, None)
      | Some s \<Rightarrow>
          let (r1, t) = new_term r (PtyTerm s);
              i = \<lparr>iID = sid, iCmd = cmd, iCreated = now, iMode = []\<rparr>
          in (reg_put r1 sid \<lparr>eInfo = i, eSession = t, eSource = src\<rparr>, Some (i, t)))"

definition reg_Create ::
    "'cb registry \<Rightarrow> bool \<Rightarrow> int \<Rightarrow> bytes \<Rightarrow> string \<Rightarrow> string list \<Rightarrow> 16 word \<Rightarrow> 16 word \<Rightarrow>
     'cb registry \<times> (info \<times> tid) option" where
  "reg_Create r start_ok now rnd cmd args cols rows =
     (let src = sourceKey cmd args in
      case (if src \<noteq> [] then liveSourceLocked r src else None) of
        Some e \<Rightarrow> (r, Some (eInfo e, eSession e))
      | None \<Rightarrow> reg_spawn r start_ok now (newID rnd) cmd src cols rows)"

definition reg_CreateWithID ::
    "'cb registry \<Rightarrow> bool \<Rightarrow> int \<Rightarrow> string \<Rightarrow> string \<Rightarrow> string list \<Rightarrow> 16 word \<Rightarrow> 16 word \<Rightarrow>
     'cb registry \<times> (info \<times> tid) option" where
  "reg_CreateWithID r start_ok now sid cmd args cols rows =
     (let src = sourceKey cmd args in
      case (if src \<noteq> [] then liveSourceLocked r src else None) of
        Some e \<Rightarrow> (reg_alias r sid e, Some (eInfo e, eSession e))
      | None \<Rightarrow> reg_spawn r start_ok now sid cmd src cols rows)"

section \<open>Critical sections as steps\<close>

text \<open>
  All that can happen to the registry: a terminal is allocated (\<open>RNew\<close>) and registered (\<open>RPut\<close>, the
  locked part of \<^verbatim>\<open>Add\<close>, \<^verbatim>\<open>Create\<close> and \<^verbatim>\<open>CreateWithID\<close>, including the start of the cleanup goroutine),
  an entry is removed (\<open>RDrop\<close>, the locked part of \<^verbatim>\<open>Remove\<close>), a terminal works or ends (\<open>RTerm\<close>: a
  terminal that was done stays done), and one cleanup goroutine whose terminal is done runs.
\<close>

datatype 'cb reg_op =
    RNew "'cb terminal"
  | RPut string info tid string
  | RDrop string
  | RTerm tid "'cb terminal"
  | RCleanup nat

definition run_cleanup :: "'cb registry \<Rightarrow> string \<times> tid \<Rightarrow> 'cb registry" where
  "run_cleanup r c = (if reg_alive r (snd c) then r else forgetWhenDone r (fst c) (snd c))"

fun reg_step :: "'cb registry \<Rightarrow> 'cb reg_op \<Rightarrow> 'cb registry" where
  "reg_step r (RNew x) = fst (new_term r x)"
| "reg_step r (RPut sid i t src) =
     (if t < length (terms r) then reg_put r sid \<lparr>eInfo = i, eSession = t, eSource = src\<rparr> else r)"
| "reg_step r (RDrop sid) =
     (case map_of (entries r) sid of None \<Rightarrow> r | Some e \<Rightarrow> drop_entry r sid e)"
| "reg_step r (RTerm t x) =
     (if t < length (terms r) \<and> (term_Done (term_at r t) \<longrightarrow> term_Done x) then set_term r t x else r)"
| "reg_step r (RCleanup k) =
     (if k < length (cleanups r) \<and> \<not> reg_alive r (snd (cleanups r ! k))
      then (run_cleanup r (cleanups r ! k))
        \<lparr>cleanups := take k (cleanups r) @ drop (Suc k) (cleanups r)\<rparr>
      else r)"

text \<open>The operations are sequences of such steps.\<close>

lemma set_term_beyond: "\<not> t < length (terms r) \<Longrightarrow> set_term r t x = r"
  by (cases r) (simp add: set_term_def list_update_beyond)

lemma set_update_cases: "x \<in> set (AList.update k v xs) \<Longrightarrow> x = (k, v) \<or> x \<in> set xs"
  by (induction xs) (auto split: if_splits)

lemma reg_Add_steps:
  assumes "t < length (terms r)"
  shows "\<exists>ops. fst (reg_Add r now sid cmd t) = foldl reg_step r ops"
proof (cases "\<exists>e. map_of (entries r) sid = Some e \<and> eSession e \<noteq> t")
  case False
  then show ?thesis
    using assms
    by (intro exI [of _ "[RPut sid \<lparr>iID = sid, iCmd = cmd, iCreated = now, iMode = []\<rparr> t []]"])
      (auto simp: reg_Add_def Let_def split: option.split)
next
  case True
  then obtain e where e: "map_of (entries r) sid = Some e" "eSession e \<noteq> t" by blast
  define i where "i = \<lparr>iID = sid, iCmd = cmd, iCreated = now, iMode = []\<rparr>"
  show ?thesis
    using assms e
    by (intro exI [of _ "[RPut sid i t [], RTerm (eSession e) (term_Close (term_at r (eSession e)))]"])
      (auto simp: reg_Add_def Let_def i_def close_term_def term_at_def set_term_beyond reg_put_def)
qed

lemma drop_entry_terms [simp]: "terms (drop_entry r sid e) = terms r"
  "cleanups (drop_entry r sid e) = cleanups r"
  "entries (drop_entry r sid e) = AList.delete sid (entries r)"
  by (simp_all add: drop_entry_def Let_def)

lemma reg_Remove_steps: "\<exists>ops. reg_Remove r sid = foldl reg_step r ops"
proof (cases "map_of (entries r) sid")
  case None
  then show ?thesis by (intro exI [of _ "[]"]) (simp add: reg_Remove_def)
next
  case (Some e)
  then show ?thesis
    by (intro exI [of _ "[RDrop sid, RTerm (eSession e) (term_Close (term_at r (eSession e)))]"])
      (auto simp: reg_Remove_def close_term_def term_at_def set_term_beyond)
qed

section \<open>Invariant\<close>

definition entry_ok :: "'cb registry \<Rightarrow> string \<Rightarrow> reg_entry \<Rightarrow> bool" where
  "entry_ok r sid e \<longleftrightarrow> eSession e < length (terms r) \<and> (sid, eSession e) \<in> set (cleanups r)"

definition reg_inv :: "'cb registry \<Rightarrow> bool" where
  "reg_inv r \<longleftrightarrow> distinct (map fst (entries r)) \<and>
     (\<forall>(sid, e) \<in> set (entries r). entry_ok r sid e)"

lemma reg_inv_New [simp]: "reg_inv registry_New"
  by (simp add: reg_inv_def registry_New_def)

lemma delete_filter: "AList.delete k xs = filter (\<lambda>(k', _). k' \<noteq> k) xs"
  by (auto simp: AList.delete_eq intro: filter_cong)

lemma forget_entries:
  assumes "distinct (map fst (entries r))"
  shows "entries (forgetWhenDone r sid t) =
    filter (\<lambda>(s, e). \<not> (s = sid \<and> eSession e = t)) (entries r)"
proof -
  have "e' = e" if "map_of (entries r) sid = Some e" "(sid, e') \<in> set (entries r)" for e e'
    using assms that by (metis map_of_eq_Some_iff option.inject)
  moreover have "(sid, e') \<notin> set (entries r)" if "map_of (entries r) sid = None" for e'
    using that by (force simp: map_of_eq_None_iff)
  ultimately show ?thesis
    by (auto simp: forgetWhenDone_def delete_filter split: option.split
        intro!: filter_cong filter_True [symmetric])
qed

lemma forget_terms [simp]:
  "terms (forgetWhenDone r sid t) = terms r" "cleanups (forgetWhenDone r sid t) = cleanups r"
  by (auto simp: forgetWhenDone_def split: option.split)

lemma run_cleanup_terms [simp]:
  "terms (run_cleanup r c) = terms r" "cleanups (run_cleanup r c) = cleanups r"
  by (auto simp: run_cleanup_def)

lemma run_cleanup_alive [simp]: "reg_alive (run_cleanup r c) = reg_alive r"
  by (auto simp: reg_alive_def term_at_def)

lemma distinct_filter_fst: "distinct (map fst xs) \<Longrightarrow> distinct (map fst (filter P xs))"
  by (induction xs) auto

lemma run_cleanup_entries:
  assumes "distinct (map fst (entries r))"
  shows "entries (run_cleanup r c) =
    filter (\<lambda>(s, e). reg_alive r (eSession e) \<or> (s, eSession e) \<noteq> c) (entries r)"
  using assms
  by (cases c) (auto simp: run_cleanup_def forget_entries intro!: filter_cong filter_True [symmetric])

lemma reg_step_inv: "reg_inv r \<Longrightarrow> reg_inv (reg_step r op)"
proof (cases op)
  case (RPut sid i t src)
  moreover assume "reg_inv r"
  ultimately show ?thesis
    by (fastforce simp: reg_inv_def reg_put_def entry_ok_def AList.distinct_update
        dest: set_update_cases)
next
  case (RDrop sid)
  moreover assume "reg_inv r"
  ultimately show ?thesis
    by (auto simp: reg_inv_def entry_ok_def delete_filter distinct_filter_fst split: option.split)
next
  case (RCleanup k)
  assume inv: "reg_inv r"
  show ?thesis
  proof (cases "k < length (cleanups r) \<and> \<not> reg_alive r (snd (cleanups r ! k))")
    case True
    let ?c = "cleanups r ! k" and ?cs = "take k (cleanups r) @ drop (Suc k) (cleanups r)"
    have cs: "set (cleanups r) = insert ?c (set ?cs)"
      using arg_cong [OF id_take_nth_drop, of k "cleanups r" set] True by simp
    have "entry_ok (reg_step r op) s e"
      if "(s, e) \<in> set (entries r)" "reg_alive r (eSession e) \<or> (s, eSession e) \<noteq> ?c" for s e
    proof -
      have "(s, eSession e) \<noteq> ?c" using that(2) True by (metis snd_conv)
      moreover have "entry_ok r s e" using inv that(1) by (auto simp: reg_inv_def)
      ultimately show ?thesis using True RCleanup cs by (simp add: entry_ok_def)
    qed
    then show ?thesis
      using inv True RCleanup
      by (auto simp: reg_inv_def run_cleanup_entries distinct_filter_fst)
  qed (use inv RCleanup in auto)
qed (auto simp: reg_inv_def entry_ok_def new_term_def set_term_def)

interpretation registry_machine: invariant_machine reg_step reg_inv
  by unfold_locales (rule reg_step_inv)

section \<open>Cleanups\<close>

text \<open>The registry once every started cleanup goroutine whose terminal is done has run.\<close>

definition run_cleanups :: "'cb registry \<Rightarrow> 'cb registry" where
  "run_cleanups r = foldl run_cleanup r (cleanups r)"

lemma fold_cleanup_entries:
  assumes "distinct (map fst (entries r))"
  shows "entries (foldl run_cleanup r cs) =
    filter (\<lambda>(s, e). reg_alive r (eSession e) \<or> (s, eSession e) \<notin> set cs) (entries r)"
  using assms
proof (induction cs arbitrary: r)
  case (Cons c cs)
  have "distinct (map fst (entries (run_cleanup r c)))"
    using Cons.prems by (simp add: run_cleanup_entries distinct_filter_fst)
  from Cons.IH [OF this] show ?case
    using Cons.prems by (auto simp: run_cleanup_entries intro!: filter_cong)
qed (simp add: case_prod_beta)

lemma cleanup_exact:
  assumes "reg_inv r"
  shows "entries (run_cleanups r) = filter (\<lambda>(sid, e). reg_alive r (eSession e)) (entries r)"
proof -
  have "distinct (map fst (entries r))" using assms by (simp add: reg_inv_def)
  moreover have "(sid, eSession e) \<in> set (cleanups r)" if "(sid, e) \<in> set (entries r)" for sid e
    using assms that by (auto simp: reg_inv_def entry_ok_def)
  ultimately show ?thesis
    unfolding run_cleanups_def by (auto simp: fold_cleanup_entries intro!: filter_cong)
qed

text \<open>
  Whatever interleaving of registrations, removals, terminal exits and cleanup goroutines has
  happened, the outstanding cleanups remove exactly the entries of ended terminals.  In particular no
  ended session is left in the table, and the late cleanup of an old session never takes the entry of a
  newer one registered under the same id.
\<close>

lemma reg_cleanup_exact:
  "entries (run_cleanups (foldl reg_step registry_New ops)) =
     filter (\<lambda>(sid, e). reg_alive (foldl reg_step registry_New ops) (eSession e))
       (entries (foldl reg_step registry_New ops))"
  by (intro cleanup_exact registry_machine.run_inv) simp

section \<open>Source keys\<close>

lemma TrimPrefix_ExactTarget [simp]: "TrimPrefix (ExactTarget name) ''='' = name"
  by (simp add: ExactTarget_def TrimPrefix_def HasPrefix_def)

lemma sourceKey_linked:
  "(case LinkedSessionArgs name of (cmd, args) \<Rightarrow> sourceKey cmd args) = ''tmux:scomp-'' @ name"
  by (simp add: LinkedSessionArgs_def sourceKey_def LinkedSessionName_def sccompPrefix_def ExactTarget_def)

lemma sourceKey_attach:
  "(case tmux_AttachArgs name of (cmd, args) \<Rightarrow> sourceKey cmd args) = ''tmux:'' @ name"
  by (simp add: tmux_AttachArgs_def sourceKey_def)

lemma sourceKey_screen:
  "(case screen_AttachArgs fullName of (cmd, args) \<Rightarrow> sourceKey cmd args) = ''screen:'' @ fullName"
  by (simp add: screen_AttachArgs_def sourceKey_def)

lemma base_name_path: "CHR ''/'' \<notin> set cmd \<Longrightarrow>
  sourceKey (dir @ CHR ''/'' # cmd) args = sourceKey cmd args"
  by (simp add: sourceKey_def after_last_append)

section \<open>Deduplication\<close>

text \<open>
  The agent activates sessions from one goroutine, through \<^verbatim>\<open>CreateWithID\<close>, and always runs the same
  command for the same id.  \<open>src_of\<close> is the source key of the command of an id; the list beside the
  registry records the source key each terminal was started for.
\<close>

datatype 'cb dedup_op =
    DActivate string bool int string "string list" "16 word" "16 word"
  | DRemove string
  | DTerm tid "'cb terminal"
  | DCleanup nat

type_synonym 'cb dedup_state = "'cb registry \<times> string list"

fun dedup_step :: "'cb dedup_state \<Rightarrow> 'cb dedup_op \<Rightarrow> 'cb dedup_state" where
  "dedup_step (r, started) (DActivate sid ok now cmd args cols rows) =
     (let r' = fst (reg_CreateWithID r ok now sid cmd args cols rows)
      in (r', if length (terms r) < length (terms r') then started @ [sourceKey cmd args] else started))"
| "dedup_step (r, started) (DRemove sid) = (reg_Remove r sid, started)"
| "dedup_step (r, started) (DTerm t x) = (reg_step r (RTerm t x), started)"
| "dedup_step (r, started) (DCleanup k) = (reg_step r (RCleanup k), started)"

fun same_command :: "(string \<Rightarrow> string) \<Rightarrow> 'cb dedup_op \<Rightarrow> bool" where
  "same_command src_of (DActivate sid _ _ cmd args _ _) \<longleftrightarrow> sourceKey cmd args = src_of sid"
| "same_command src_of _ \<longleftrightarrow> True"

definition found_at :: "'cb registry \<Rightarrow> string \<Rightarrow> tid \<Rightarrow> bool" where
  "found_at r src t \<longleftrightarrow>
     (\<exists>sid e. map_of (sourceToID r) src = Some sid \<and> map_of (entries r) sid = Some e \<and> eSession e = t)"

definition dedup_inv :: "(string \<Rightarrow> string) \<Rightarrow> 'cb dedup_state \<Rightarrow> bool" where
  "dedup_inv src_of s \<longleftrightarrow> (case s of (r, started) \<Rightarrow>
     length started = length (terms r) \<and>
     (\<forall>src sid. map_of (sourceToID r) src = Some sid \<longrightarrow> src = src_of sid \<and> src \<noteq> []) \<and>
     (\<forall>sid e. map_of (entries r) sid = Some e \<longrightarrow>
        eSession e < length (terms r) \<and> started ! eSession e = src_of sid \<and> eSource e \<in> {src_of sid, []}) \<and>
     (\<forall>t < length (terms r). started ! t \<noteq> [] \<longrightarrow> reg_alive r t \<longrightarrow> found_at r (started ! t) t))"

lemma dedup_invI:
  assumes "length g = length (terms r)"
    and "\<And>t. \<lbrakk>t < length (terms r); g ! t \<noteq> []; reg_alive r t\<rbrakk> \<Longrightarrow> found_at r (g ! t) t"
    and "\<And>sid e. map_of (entries r) sid = Some e \<Longrightarrow>
      eSession e < length (terms r) \<and> g ! eSession e = src_of sid \<and> eSource e \<in> {src_of sid, []}"
    and "\<And>src sid. map_of (sourceToID r) src = Some sid \<Longrightarrow> src = src_of sid \<and> src \<noteq> []"
  shows "dedup_inv src_of (r, g)"
  unfolding dedup_inv_def prod.case using assms by blast

lemma live_source_found:
  "liveSourceLocked r src = Some e \<Longrightarrow> found_at r src (eSession e) \<and> reg_alive r (eSession e)"
  by (auto simp: liveSourceLocked_def found_at_def split: option.splits if_splits)

lemma dedup_inv_found:
  assumes inv: "dedup_inv src_of (r, g)" and "found_at r src t"
  shows "t < length (terms r) \<and> g ! t = src"
proof -
  obtain sid e where *: "map_of (sourceToID r) src = Some sid" "map_of (entries r) sid = Some e"
    "eSession e = t" using assms(2) by (auto simp: found_at_def)
  have "src = src_of sid" using inv *(1) unfolding dedup_inv_def by blast
  moreover have "t < length (terms r)" "g ! t = src_of sid"
    using inv *(2,3) unfolding dedup_inv_def by blast+
  ultimately show ?thesis by simp
qed

lemma found_live: "found_at r src t \<Longrightarrow> reg_alive r t \<Longrightarrow> \<exists>e. liveSourceLocked r src = Some e \<and> eSession e = t"
  by (auto simp: liveSourceLocked_def found_at_def)

lemma found_at_unique: "found_at r src t \<Longrightarrow> found_at r src t' \<Longrightarrow> t = t'"
  by (auto simp: found_at_def)

lemma dedup_inv_drop:
  assumes "dedup_inv src_of (r, g)" "map_of (entries r) sid = Some e" "\<not> reg_alive r (eSession e)"
  shows "dedup_inv src_of (drop_entry r sid e, g)"
proof -
  have "found_at (drop_entry r sid e) src t" if "found_at r src t" "reg_alive r t" for src t
    using that assms unfolding found_at_def
    by (fastforce simp: drop_entry_def Let_def AList.delete_conv)
  with assms show ?thesis
    unfolding dedup_inv_def
    by (auto simp: reg_alive_def term_at_def AList.delete_conv drop_entry_def Let_def
        split: if_splits)
qed

lemma dedup_inv_term:
  assumes "dedup_inv src_of (r, g)" "term_Done (term_at r t) \<longrightarrow> term_Done x"
  shows "dedup_inv src_of (set_term r t x, g)"
proof -
  have "found_at (set_term r t x) src u = found_at r src u" for src u
    by (simp add: found_at_def set_term_def)
  moreover have "reg_alive (set_term r t x) u \<Longrightarrow> u < length (terms r) \<Longrightarrow> reg_alive r u" for u
    using assms(2) by (cases "u = t") (auto simp: reg_alive_def set_term_def term_at_def)
  ultimately show ?thesis
    using assms(1) unfolding dedup_inv_def by (auto simp: set_term_def)
qed

lemma dedup_inv_alias:
  assumes inv: "dedup_inv src_of (r, g)" and live: "liveSourceLocked r (src_of sid) = Some e"
  shows "dedup_inv src_of (reg_alias r sid e, g)"
proof -
  obtain sid0 where sid0: "map_of (sourceToID r) (src_of sid) = Some sid0"
      "map_of (entries r) sid0 = Some e" "src_of sid0 = src_of sid"
    using live inv
    by (auto simp: liveSourceLocked_def dedup_inv_def split: option.splits if_splits)
  have "found_at (reg_alias r sid e) src t" if "found_at r src t" for src t
  proof (cases "map_of (sourceToID r) src = Some sid")
    case True
    then have "src = src_of sid" using inv by (auto simp: dedup_inv_def)
    with True that sid0 show ?thesis
      by (auto simp: found_at_def reg_alias_def reg_put_def AList.update_conv')
  next
    case False
    with that show ?thesis
      by (auto simp: found_at_def reg_alias_def reg_put_def AList.update_conv')
  qed
  with inv sid0 show ?thesis
    unfolding dedup_inv_def
    by (auto simp: reg_alias_def reg_put_def AList.update_conv' reg_alive_def term_at_def split: if_splits)
qed

lemma reg_put_terms [simp]: "terms (reg_put r sid e) = terms r" "terms (reg_alias r sid e') = terms r"
  by (simp_all add: reg_put_def reg_alias_def)

lemma found_at_put:
  assumes inv: "dedup_inv src_of (r, g)" and "found_at r src t" "src \<noteq> src_of sid"
  shows "found_at (reg_put (r\<lparr>terms := ts\<rparr>) sid \<lparr>eInfo = i, eSession = u, eSource = src_of sid\<rparr>) src t"
proof -
  obtain sid1 e where "map_of (sourceToID r) src = Some sid1" "map_of (entries r) sid1 = Some e"
    "eSession e = t" using assms(2) by (auto simp: found_at_def)
  moreover from this have "sid1 \<noteq> sid" using inv assms(3) by (auto simp: dedup_inv_def)
  ultimately show ?thesis
    using assms(3) by (auto simp: found_at_def reg_put_def AList.update_conv')
qed

lemma dedup_inv_put_new:
  assumes inv: "dedup_inv src_of (r, g)"
    and none: "src_of sid \<noteq> [] \<longrightarrow> liveSourceLocked r (src_of sid) = None"
  shows "dedup_inv src_of
    (reg_put (r\<lparr>terms := terms r @ [x]\<rparr>) sid
       \<lparr>eInfo = i, eSession = length (terms r), eSource = src_of sid\<rparr>, g @ [src_of sid])"
    (is "dedup_inv src_of (?r, ?g)")
proof -
  have len: "length g = length (terms r)" using inv by (simp add: dedup_inv_def)
  have "found_at ?r (?g ! t) t"
    if t: "t < length (terms ?r)" "?g ! t \<noteq> []" "reg_alive ?r t" for t
  proof (cases "t < length (terms r)")
    case True
    then have alive: "reg_alive r t" "g ! t \<noteq> []"
      using t len by (auto simp: reg_alive_def term_at_def reg_put_def nth_append)
    then have "found_at r (g ! t) t" using inv True by (auto simp: dedup_inv_def)
    moreover from this have "g ! t \<noteq> src_of sid" using found_live [OF _ alive(1)] none alive(2) by fastforce
    ultimately show ?thesis using found_at_put [OF inv] True len by (simp add: nth_append)
  next
    case False
    with t len show ?thesis
      by (auto simp: reg_put_def found_at_def AList.update_conv' nth_append)
  qed
  moreover have "length ?g = length (terms ?r)" using len by simp
  moreover have "eSession e < length (terms ?r) \<and> ?g ! eSession e = src_of s \<and> eSource e \<in> {src_of s, []}"
    if e: "map_of (entries ?r) s = Some e" for s e
  proof (cases "s = sid")
    case True
    with e len show ?thesis by (auto simp: reg_put_def AList.update_conv' nth_append)
  next
    case False
    then have "map_of (entries r) s = Some e" using e by (simp add: reg_put_def AList.update_conv')
    then have "eSession e < length (terms r)" "g ! eSession e = src_of s" "eSource e \<in> {src_of s, []}"
      using inv by (auto simp: dedup_inv_def)
    with len show ?thesis by (simp add: reg_put_def nth_append)
  qed
  moreover have "src = src_of s \<and> src \<noteq> []" if "map_of (sourceToID ?r) src = Some s" for src s
  proof (cases "src_of sid \<noteq> [] \<and> src = src_of sid")
    case True
    with that show ?thesis by (simp add: reg_put_def AList.update_conv')
  next
    case False
    then have "map_of (sourceToID r) src = Some s"
      using that by (simp add: reg_put_def AList.update_conv' split: if_splits)
    with inv show ?thesis unfolding dedup_inv_def by blast
  qed
  ultimately show ?thesis by (intro dedup_invI)
qed

lemma reg_CreateWithID_cases:
  fixes r :: "'cb registry"
  assumes inv: "dedup_inv src_of (r, g)" and "sourceKey cmd args = src_of sid"
  obtains (shared) e where "src_of sid \<noteq> []" "liveSourceLocked r (src_of sid) = Some e"
      "reg_CreateWithID r ok now sid cmd args cols rows = (reg_alias r sid e, Some (eInfo e, eSession e))"
    | (failed) "reg_CreateWithID r ok now sid cmd args cols rows = (r, None)"
    | (started) x i where "src_of sid \<noteq> [] \<longrightarrow> liveSourceLocked r (src_of sid) = None"
      "\<not> term_Done x"
      "reg_CreateWithID r ok now sid cmd args cols rows =
        (reg_put (r\<lparr>terms := terms r @ [x]\<rparr>) sid
          \<lparr>eInfo = i, eSession = length (terms r), eSource = src_of sid\<rparr>, Some (i, length (terms r)))"
proof (cases "if src_of sid \<noteq> [] then liveSourceLocked r (src_of sid) else None")
  case (Some e)
  with assms show ?thesis by (intro shared) (auto simp: reg_CreateWithID_def split: if_splits)
next
  case None
  then have none: "src_of sid \<noteq> [] \<longrightarrow> liveSourceLocked r (src_of sid) = None" by (auto split: if_splits)
  show ?thesis
  proof (cases "pty_New ok cmd cols rows :: 'cb pty_session option")
    case pty: None
    with None assms show ?thesis by (intro failed) (auto simp: reg_CreateWithID_def reg_spawn_def)
  next
    case pty: (Some x)
    show ?thesis
      by (rule started [OF none, where x = "PtyTerm x"
            and i = "\<lparr>iID = sid, iCmd = cmd, iCreated = now, iMode = []\<rparr>"])
        (use None assms pty in \<open>auto simp: reg_CreateWithID_def reg_spawn_def pty_New_def new_term_def
            Let_def split: if_splits\<close>)
  qed
qed

lemma drop_close_commute:
  "close_term (drop_entry r sid e) t = drop_entry (close_term r t) sid e"
  by (simp add: close_term_def set_term_def drop_entry_def Let_def term_at_def)

lemma dedup_inv_Remove:
  assumes "dedup_inv src_of (r, g)" shows "dedup_inv src_of (reg_Remove r sid, g)"
proof (cases "map_of (entries r) sid")
  case (Some e)
  let ?r = "close_term r (eSession e)"
  have "dedup_inv src_of (?r, g)" using assms by (auto simp: close_term_def intro: dedup_inv_term)
  moreover have "map_of (entries ?r) sid = Some e" using Some by (simp add: close_term_def set_term_def)
  moreover have "\<not> reg_alive ?r (eSession e)"
    using assms Some by (auto simp: dedup_inv_def close_term_def set_term_def reg_alive_def term_at_def)
  ultimately show ?thesis
    using Some dedup_inv_drop by (simp add: reg_Remove_def drop_close_commute)
qed (use assms in \<open>simp add: reg_Remove_def\<close>)

lemma dedup_inv_step:
  assumes inv: "dedup_inv src_of s" and "same_command src_of op"
  shows "dedup_inv src_of (dedup_step s op)"
proof -
  obtain r g where s: "s = (r, g)" by force
  note inv' = inv [unfolded s]
  show ?thesis
  proof (cases op)
    case (DActivate sid ok now cmd args cols rows)
    then have key: "sourceKey cmd args = src_of sid" using assms(2) by simp
    show ?thesis
      by (cases rule: reg_CreateWithID_cases [OF inv' key, of ok now cols rows])
        (simp_all add: s DActivate key inv' dedup_inv_alias dedup_inv_put_new)
  next
    case (DTerm t x)
    then show ?thesis using inv' by (simp add: s dedup_inv_term)
  next
    case (DCleanup k)
    have "dedup_inv src_of (run_cleanup r c, g)" for c
      using dedup_inv_drop [OF inv'] inv'
      by (auto simp: run_cleanup_def forgetWhenDone_def split: option.split)
    then have "dedup_inv src_of ((run_cleanup r c)\<lparr>cleanups := cs\<rparr>, g)" for c cs
      by (simp add: dedup_inv_def found_at_def reg_alive_def term_at_def)
    then show ?thesis using inv' by (simp add: s DCleanup)
  next
    case (DRemove sid)
    then show ?thesis using inv' by (simp add: s dedup_inv_Remove)
  qed
qed

lemma dedup_inv_run:
  "list_all (same_command src_of) ops \<Longrightarrow> dedup_inv src_of s \<Longrightarrow> dedup_inv src_of (foldl dedup_step s ops)"
  by (induction ops arbitrary: s) (simp_all add: dedup_inv_step)

lemma dedup_inv_New [simp]: "dedup_inv src_of (registry_New, [])"
  by (simp add: dedup_inv_def registry_New_def)

section \<open>Properties\<close>

text \<open>
  One process per multiplexer session: in every history of activations, removals, terminal exits and
  cleanups in which an id always runs the same command, two running terminals started for the same
  source key are the same terminal.
\<close>

theorem reg_one_process_per_source:
  assumes "list_all (same_command src_of) ops"
    and "foldl dedup_step (registry_New, []) ops = (r, started)"
    and "t < length (terms r)" "t' < length (terms r)" "reg_alive r t" "reg_alive r t'"
    and "started ! t = started ! t'" "started ! t \<noteq> []"
  shows "t = t'"
proof -
  have inv: "dedup_inv src_of (r, started)"
    using dedup_inv_run [OF assms(1), of "(registry_New, [])"] assms(2) by simp
  then have "found_at r (started ! t) t" "found_at r (started ! t') t'"
    using assms(3-8) by (auto simp: dedup_inv_def)
  with assms(7) show ?thesis by (auto intro: found_at_unique)
qed

definition demo_ops :: "'cb dedup_op list" where
  "demo_ops =
     [DActivate ''a'' True 0 ''tmux'' [''attach-session'', ''-t'', ''=p''] 80 24,
      DActivate ''b'' True 1 ''tmux'' [''attach-session'', ''-t'', ''=p''] 80 24]"

lemma demo_same_command: "list_all (same_command (\<lambda>_. ''tmux:p'')) demo_ops"
  by (simp add: demo_ops_def sourceKey_def TrimPrefix_def HasPrefix_def)

lemmas demo_simps = demo_ops_def sourceKey_def TrimPrefix_def HasPrefix_def reg_CreateWithID_def
  reg_spawn_def pty_New_def new_term_def reg_put_def registry_New_def reg_alias_def
  liveSourceLocked_def reg_alive_def term_at_def Let_def

theorem reg_one_process_per_source_witness:
  "\<exists>r :: unit registry. foldl dedup_step (registry_New, []) demo_ops = (r, [''tmux:p'']) \<and>
     (\<forall>t t'. t < length (terms r) \<and> t' < length (terms r) \<and> reg_alive r t \<and> reg_alive r t' \<longrightarrow> t = t')"
proof -
  obtain r :: "unit registry"
    where r: "foldl dedup_step (registry_New, []) demo_ops = (r, [''tmux:p''])" "length (terms r) = 1"
    by (simp add: demo_simps)
  then have "t = t'" if "t < length (terms r)" "t' < length (terms r)" "reg_alive r t" "reg_alive r t'" for t t'
    using reg_one_process_per_source [OF demo_same_command r(1) that] that by simp
  with r show ?thesis by blast
qed



text \<open>
  Source keys identify sessions: the commands that attach to tmux and Screen sessions get equal keys
  exactly for the same session (a linked tmux session being the one with the agent's prefix), whatever
  directory the program is called from.
\<close>

theorem sourceKey_identifies:
  "(CHR ''/'' \<notin> set cmd \<longrightarrow> sourceKey (dir @ CHR ''/'' # cmd) args = sourceKey cmd args) \<and>
   (case_prod sourceKey (LinkedSessionArgs a) = case_prod sourceKey (LinkedSessionArgs b) \<longleftrightarrow> a = b) \<and>
   (case_prod sourceKey (tmux_AttachArgs a) = case_prod sourceKey (LinkedSessionArgs b) \<longleftrightarrow>
      a = LinkedSessionName b) \<and>
   (case_prod sourceKey (screen_AttachArgs a) = case_prod sourceKey (screen_AttachArgs b) \<longleftrightarrow> a = b) \<and>
   case_prod sourceKey (screen_AttachArgs a) \<noteq> case_prod sourceKey (LinkedSessionArgs b)"
  by (simp add: base_name_path sourceKey_linked sourceKey_attach sourceKey_screen
      LinkedSessionName_def sccompPrefix_def)

theorem sourceKey_identifies_witness:
  "sourceKey ''/usr/bin/tmux'' [''attach-session'', ''-t'', ''=prod''] = ''tmux:prod''"
  using sourceKey_identifies [of "''tmux''" "''/usr/bin''" "[''attach-session'', ''-t'', ''=prod'']"]
  by (simp add: sourceKey_def TrimPrefix_def HasPrefix_def)

text \<open>
  Why the hypothesis on commands is there: \<^verbatim>\<open>Add\<close> replaces an entry without dropping its source key, so
  a later activation of that source is given the terminal that took the id over.
\<close>

lemma reg_Add_leaves_source:
  fixes x :: "'cb terminal"
  assumes "\<not> term_Done x"
  defines "args \<equiv> [''attach-session'', ''-t'', ''=p'']"
  defines "r1 \<equiv> fst (reg_CreateWithID registry_New True 0 ''a'' ''tmux'' args 80 24)"
  defines "r2 \<equiv> fst (reg_Add (fst (new_term r1 x)) 1 ''a'' ''shell'' 1)"
  shows "term_at r2 1 = x \<and>
    map_option snd (snd (reg_CreateWithID r2 True 2 ''b'' ''tmux'' args 80 24)) = Some 1"
  using assms(1)
  by (simp add: args_def r1_def r2_def demo_simps reg_Add_def close_term_def set_term_def)

end
