(* ===== verification/Relay_Protocol.thy ===== *)
theory Relay_Protocol
  imports Go_Encoding Go_Strings Session_Registry
begin

text \<open>
  The messages between agent and relay, \<^verbatim>\<open>src/protocol/protocol.go\<close>, and the functions of
  \<^verbatim>\<open>src/cmd/scomp/main.go\<close> that build or judge single messages: the handshake, the snapshot batch and
  the input policy.  Messages are kept as records: \<^verbatim>\<open>json.Marshal\<close> and \<^verbatim>\<open>Unmarshal\<close> only carry them
  over the wire.  Ed25519 signing is an argument.
\<close>

section \<open>Messages\<close>

record session_info =
  siID :: string
  siCmd :: string
  siCreated :: int
  siMode :: session_mode
  siActive :: bool
  siCols :: "16 word"
  siRows :: "16 word"

definition SnapshotChunkBytes :: nat where
  "SnapshotChunkBytes = 48 * 2 ^ 10"

record agent_msg =
  mType :: string
  mUID :: string
  mVersion :: string
  mHostname :: string
  mPubKey :: string
  mSig :: string
  mSessionID :: string
  mClientID :: string
  mData :: string
  mSeq :: "32 word"
  mTotal :: nat
  mInfo :: "session_info option"
  mPairID :: string
  mPIN :: string

text \<open>A composite literal leaves the fields it does not name at their zero values.\<close>

definition msg_of :: "string \<Rightarrow> agent_msg" where
  "msg_of ty =
     \<lparr>mType = ty, mUID = [], mVersion = [], mHostname = [], mPubKey = [], mSig = [], mSessionID = [],
      mClientID = [], mData = [], mSeq = 0, mTotal = 0, mInfo = None, mPairID = [], mPIN = []\<rparr>"

record server_msg =
  rType :: string
  rSessionID :: string
  rClientID :: string
  rData :: string
  rCols :: "16 word"
  rRows :: "16 word"
  rPairID :: string
  rNonce :: string

section \<open>Start-up\<close>

definition parseSessionMode :: "string \<Rightarrow> session_mode option" where
  "parseSessionMode value =
     (if value = ''full'' then Some ModeFull
      else if value = ''readonly'' then Some ModeReadonly
      else if value = ''approved-only'' then Some ModeApproved
      else None)"

definition agentHostname :: "string \<Rightarrow> string \<Rightarrow> bool \<Rightarrow> string" where
  "agentHostname os_hostname flagValue fake =
     (if flagValue \<noteq> [] then flagValue else if fake then ''review-host'' else os_hostname)"

definition wsToHTTP :: "string \<Rightarrow> string" where
  "wsToHTTP wsURL0 =
     (let wsURL = TrimRight wsURL0 ''/'' in
      if HasPrefix wsURL ''wss://'' then ''https://'' @ drop 6 wsURL
      else if HasPrefix wsURL ''ws://'' then ''http://'' @ drop 5 wsURL
      else wsURL)"

section \<open>Handshake\<close>

definition newAgentHello :: "string \<Rightarrow> string \<Rightarrow> string \<Rightarrow> string \<Rightarrow> agent_msg" where
  "newAgentHello version uid hostname publicKey =
     (msg_of ''hello'')\<lparr>mUID := uid, mVersion := version, mHostname := hostname, mPubKey := publicKey\<rparr>"

datatype challenge_error = ReadFailed | ExpectedChallenge string | BadNonce

text \<open>\<open>reply\<close> is the first message of the relay, \<open>None\<close> when reading or decoding it failed.\<close>

definition answerChallenge ::
    "('k \<Rightarrow> bytes \<Rightarrow> bytes) \<Rightarrow> 'k \<Rightarrow> server_msg option \<Rightarrow> challenge_error + agent_msg" where
  "answerChallenge sign key reply =
     (case reply of
        None \<Rightarrow> Inl ReadFailed
      | Some msg \<Rightarrow>
          if rType msg \<noteq> ''challenge'' \<or> rNonce msg = [] then Inl (ExpectedChallenge (rType msg))
          else case hex_decode (rNonce msg) of
              None \<Rightarrow> Inl BadNonce
            | Some nonce \<Rightarrow> Inr ((msg_of ''auth'')\<lparr>mSig := hex_encode (sign key nonce)\<rparr>))"

section \<open>Snapshot batches\<close>

definition snapshot_start :: "string \<Rightarrow> string \<Rightarrow> nat \<Rightarrow> agent_msg" where
  "snapshot_start sid cid n =
     (msg_of ''snapshot_start'')\<lparr>mSessionID := sid, mClientID := cid, mTotal := n\<rparr>"

definition snapshot_chunk :: "string \<Rightarrow> string \<Rightarrow> 32 word \<Rightarrow> bytes \<Rightarrow> agent_msg" where
  "snapshot_chunk sid cid seq chunk =
     (msg_of ''snapshot_chunk'')\<lparr>mSessionID := sid, mClientID := cid, mSeq := seq, mData := b64_encode chunk\<rparr>"

definition snapshot_end :: "string \<Rightarrow> string \<Rightarrow> 32 word \<Rightarrow> agent_msg" where
  "snapshot_end sid cid seq =
     (msg_of ''snapshot_end'')\<lparr>mSessionID := sid, mClientID := cid, mSeq := seq\<rparr>"

text \<open>
  \<open>enqueue\<close> is the callback: it changes the state of whoever owns the queue and says whether to go on.
  The loop returns the sequence number it reached, \<open>None\<close> when it was stopped.
\<close>

function send_chunks ::
    "('s \<Rightarrow> agent_msg \<Rightarrow> 's \<times> bool) \<Rightarrow> string \<Rightarrow> string \<Rightarrow> 's \<Rightarrow> 32 word \<Rightarrow> bytes \<Rightarrow> 's \<times> 32 word option" where
  "send_chunks enqueue sid cid s seq data =
     (if data = [] then (s, Some seq)
      else let (s', ok) = enqueue s (snapshot_chunk sid cid (seq + 1) (take SnapshotChunkBytes data)) in
        if ok then send_chunks enqueue sid cid s' (seq + 1) (drop SnapshotChunkBytes data)
        else (s', None))"
  by pat_completeness auto
termination
  by (relation "measure (\<lambda>(_, _, _, _, _, d). length d)") (auto simp: SnapshotChunkBytes_def)

declare send_chunks.simps [simp del]

definition sendSnapshot ::
    "('s \<Rightarrow> agent_msg \<Rightarrow> 's \<times> bool) \<Rightarrow> 's \<Rightarrow> string \<Rightarrow> string \<Rightarrow> bytes \<Rightarrow> 's" where
  "sendSnapshot enqueue s sid cid data =
     (let (s1, ok) = enqueue s (snapshot_start sid cid (length data)) in
      if \<not> ok then s1
      else case send_chunks enqueue sid cid s1 0 data of
          (s2, None) \<Rightarrow> s2
        | (s2, Some seq) \<Rightarrow> fst (enqueue s2 (snapshot_end sid cid seq)))"

section \<open>Input policy\<close>

definition approvedSequences :: "bytes list" where
  "approvedSequences =
     [[CHR ''y'', CHR 0x0D], [CHR ''y'', CHR 0x0A], [CHR ''n'', CHR 0x0D], [CHR ''n'', CHR 0x0A],
      [CHR 0x03], [CHR 0x0D], [CHR 0x09], [CHR 0x1B]]"

definition isApproved :: "bytes \<Rightarrow> bool" where
  "isApproved data \<longleftrightarrow>
     list_ex (\<lambda>sequence. length data = length sequence \<and> list_all2 (=) data sequence) approvedSequences"

definition inputAllowed :: "session_mode \<Rightarrow> bytes \<Rightarrow> bool" where
  "inputAllowed mode data =
     (if mode = ModeFull then True else if mode = ModeApproved then isApproved data else False)"

definition resizeAllowed :: "session_mode \<Rightarrow> bool" where
  "resizeAllowed mode \<longleftrightarrow> mode = ModeFull \<or> mode = ModeApproved"

lemma isApproved_iff: "isApproved data \<longleftrightarrow> data \<in> set approvedSequences"
  by (auto simp: isApproved_def list_ex_iff list.rel_eq)

lemma mode_neq [simp]: "ModeFull \<noteq> ModeReadonly" "ModeApproved \<noteq> ModeReadonly" "ModeFull \<noteq> ModeApproved"
  "ModeReadonly \<noteq> ModeFull" "ModeReadonly \<noteq> ModeApproved" "ModeApproved \<noteq> ModeFull"
  "ModeFull \<noteq> []" "ModeApproved \<noteq> []" "[] \<noteq> ModeFull" "[] \<noteq> ModeApproved"
  by (simp_all add: ModeFull_def ModeReadonly_def ModeApproved_def)

section \<open>The receiving side\<close>

text \<open>
  What the protocol comment promises the relay: a start with the byte count, chunks numbered from one
  with 1 to \<open>SnapshotChunkBytes\<close> bytes each, and an end with the last number.  The replay is accepted
  only when all of it arrived.
\<close>

fun replay_chunks :: "32 word \<Rightarrow> bytes \<Rightarrow> agent_msg list \<Rightarrow> bytes option" where
  "replay_chunks seq acc [] = None"
| "replay_chunks seq acc (m # ms) =
     (if mType m = ''snapshot_end'' then (if mSeq m = seq \<and> ms = [] then Some acc else None)
      else if mType m = ''snapshot_chunk'' \<and> mSeq m = seq + 1 then
        (case b64_decode (mData m) of
           None \<Rightarrow> None
         | Some d \<Rightarrow>
             if 1 \<le> length d \<and> length d \<le> SnapshotChunkBytes then replay_chunks (seq + 1) (acc @ d) ms
             else None)
      else None)"

fun replay :: "agent_msg list \<Rightarrow> bytes option" where
  "replay [] = None"
| "replay (m # ms) =
     (if mType m \<noteq> ''snapshot_start'' then None
      else case replay_chunks 0 [] ms of
          None \<Rightarrow> None
        | Some d \<Rightarrow> if length d = mTotal m then Some d else None)"

text \<open>The whole batch, as a list.\<close>

function chunk_msgs :: "string \<Rightarrow> string \<Rightarrow> 32 word \<Rightarrow> bytes \<Rightarrow> agent_msg list" where
  "chunk_msgs sid cid seq data =
     (if data = [] then [snapshot_end sid cid seq]
      else snapshot_chunk sid cid (seq + 1) (take SnapshotChunkBytes data) #
        chunk_msgs sid cid (seq + 1) (drop SnapshotChunkBytes data))"
  by pat_completeness auto
termination
  by (relation "measure (\<lambda>(_, _, _, d). length d)") (auto simp: SnapshotChunkBytes_def)

declare chunk_msgs.simps [simp del]

definition snapshot_msgs :: "string \<Rightarrow> string \<Rightarrow> bytes \<Rightarrow> agent_msg list" where
  "snapshot_msgs sid cid data = snapshot_start sid cid (length data) # chunk_msgs sid cid 0 data"

text \<open>A queue that takes \<open>k\<close> more messages and then fails, keeping what it took.\<close>

definition take_upto :: "agent_msg list \<times> nat \<Rightarrow> agent_msg \<Rightarrow> (agent_msg list \<times> nat) \<times> bool" where
  "take_upto q m = (case q of (ms, k) \<Rightarrow> if k = 0 then (q, False) else ((ms @ [m], k - 1), True))"

lemma msg_of_types [simp]:
  "mType (snapshot_start sid cid n) = ''snapshot_start''"
  "mType (snapshot_chunk sid cid sq d) = ''snapshot_chunk''"
  "mType (snapshot_end sid cid sq) = ''snapshot_end''"
  "mSessionID (snapshot_start sid cid n) = sid"
  "mSessionID (snapshot_chunk sid cid sq d) = sid"
  "mSessionID (snapshot_end sid cid sq) = sid"
  by (simp_all add: snapshot_start_def snapshot_chunk_def snapshot_end_def msg_of_def)

lemma msg_of_fields [simp]:
  "mTotal (snapshot_start sid cid n) = n"
  "mSeq (snapshot_chunk sid cid sq d) = sq" "mData (snapshot_chunk sid cid sq d) = b64_encode d"
  "mSeq (snapshot_end sid cid sq) = sq"
  by (simp_all add: snapshot_start_def snapshot_chunk_def snapshot_end_def msg_of_def)

lemma chunk_msgs_session: "m \<in> set (chunk_msgs sid cid sq d) \<Longrightarrow> mSessionID m = sid"
proof (induction sid cid sq d rule: chunk_msgs.induct)
  case (1 sid cid sq d)
  then show ?case by (subst (asm) (2) chunk_msgs.simps) (auto split: if_splits)
qed

lemma snapshot_msgs_session: "m \<in> set (snapshot_msgs sid cid d) \<Longrightarrow> mSessionID m = sid"
  using chunk_msgs_session by (auto simp: snapshot_msgs_def)

lemma take_upto_simps [simp]:
  "take_upto (ms, 0) m = ((ms, 0), False)" "take_upto (ms, Suc k) m = ((ms @ [m], k), True)"
  by (simp_all add: take_upto_def)

lemma chunk_unfold:
  "send_chunks enq sid cid s sq [] = (s, Some sq)"
  "d \<noteq> [] \<Longrightarrow> send_chunks enq sid cid s sq d =
     (let (s', ok) = enq s (snapshot_chunk sid cid (sq + 1) (take SnapshotChunkBytes d)) in
      if ok then send_chunks enq sid cid s' (sq + 1) (drop SnapshotChunkBytes d) else (s', None))"
  "chunk_msgs sid cid sq [] = [snapshot_end sid cid sq]"
  "d \<noteq> [] \<Longrightarrow> chunk_msgs sid cid sq d =
     snapshot_chunk sid cid (sq + 1) (take SnapshotChunkBytes d) #
     chunk_msgs sid cid (sq + 1) (drop SnapshotChunkBytes d)"
  by (subst send_chunks.simps chunk_msgs.simps; simp)+

lemma send_chunks_upto:
  "(case send_chunks take_upto sid cid (ms, k) sq d of
      (s2, None) \<Rightarrow> s2 | (s2, Some q) \<Rightarrow> fst (take_upto s2 (snapshot_end sid cid q))) =
   (ms @ take k (chunk_msgs sid cid sq d), k - length (chunk_msgs sid cid sq d))"
proof (induction sid cid sq d arbitrary: ms k rule: chunk_msgs.induct)
  case (1 sid cid sq d)
  show ?case
  proof (cases "d = []")
    case True
    then show ?thesis by (cases k) (simp_all add: chunk_unfold)
  next
    case False
    with 1 [OF False] show ?thesis by (cases k) (simp_all add: chunk_unfold)
  qed
qed

lemma sendSnapshot_upto:
  "fst (sendSnapshot take_upto ([], k) sid cid d) = take k (snapshot_msgs sid cid d)"
proof (cases k)
  case (Suc k')
  show ?thesis
    using send_chunks_upto [of sid cid "[snapshot_start sid cid (length d)]" k' 0 d]
    by (simp add: sendSnapshot_def Suc snapshot_msgs_def)
qed (simp add: sendSnapshot_def)

lemma replay_chunk_msgs:
  "replay_chunks sq acc (take k (chunk_msgs sid cid sq d)) =
     (if length (chunk_msgs sid cid sq d) \<le> k then Some (acc @ d) else None)"
proof (induction sid cid sq d arbitrary: acc k rule: chunk_msgs.induct)
  case (1 sid cid sq d)
  show ?case
  proof (cases k)
    case 0
    then show ?thesis by (cases "d = []") (simp_all add: chunk_unfold)
  next
    case (Suc k')
    show ?thesis
    proof (cases "d = []")
      case True
      with Suc show ?thesis by (simp add: chunk_unfold)
    next
      case False
      then have "1 \<le> length (take SnapshotChunkBytes d)" "length (take SnapshotChunkBytes d) \<le> SnapshotChunkBytes"
        by (cases d; simp add: SnapshotChunkBytes_def)+
      with Suc 1 [OF False] False show ?thesis
        by (simp add: chunk_unfold b64_roundtrip)
    qed
  qed
qed

section \<open>Properties\<close>

text \<open>
  C15. Snapshot replay: however many messages \<open>k\<close> the queue takes before it fails, the relay accepts the
  replay exactly when the whole batch arrived, and then it holds exactly the snapshot's bytes; a batch cut
  short is never accepted as a shorter history.
\<close>

theorem snapshot_replay_all_or_nothing:
  "replay (fst (sendSnapshot take_upto ([], k) sid cid data)) =
     (if length (snapshot_msgs sid cid data) \<le> k then Some data else None)"
proof (cases k)
  case 0
  then show ?thesis by (simp add: sendSnapshot_upto snapshot_msgs_def)
next
  case (Suc k')
  then show ?thesis
    by (simp add: sendSnapshot_upto snapshot_msgs_def replay_chunk_msgs)
qed

text \<open>
  The handshake answers only a challenge: a signature leaves the agent exactly when the first message
  is a \<^verbatim>\<open>challenge\<close> with a non-empty hex nonce, and then the relay can decode it to the signature of that
  very nonce under the agent's key.
\<close>

theorem challenge_signs_nonce:
  "(case answerChallenge sign key reply of
      Inr m \<Rightarrow> \<exists>msg nonce. reply = Some msg \<and> rType msg = ''challenge'' \<and> rNonce msg \<noteq> [] \<and>
        hex_decode (rNonce msg) = Some nonce \<and>
        m = (msg_of ''auth'')\<lparr>mSig := mSig m\<rparr> \<and> hex_decode (mSig m) = Some (sign key nonce)
    | Inl e \<Rightarrow> \<not> (\<exists>msg. reply = Some msg \<and> rType msg = ''challenge'' \<and> rNonce msg \<noteq> [] \<and>
        hex_decode (rNonce msg) \<noteq> None))"
  by (auto simp: answerChallenge_def hex_roundtrip split: option.splits)

end
