(* ===== verification/Agent_Loop.thy ===== *)
theory Agent_Loop
  imports Relay_Protocol
begin

text \<open>
  The life of one relay connection: \<^verbatim>\<open>runAgent\<close> and \<^verbatim>\<open>handleServerMsg\<close> of \<^verbatim>\<open>src/cmd/scomp/main.go\<close>, and
  the session source types of \<^verbatim>\<open>src/cmd/scomp/source.go\<close>.

  The state holds the registry, the maps the main loop owns, the forwarder goroutines, the outbound
  queue \<^verbatim>\<open>sendCh\<close> and what the writer goroutine has put on the wire.  One event is one turn of one
  goroutine: the main loop handles one message, change or ended session; a forwarder takes an event off
  its channel, queues one message, or stops; the writer sends one message; a terminal prints or ends; a
  cleanup runs.  Every interleaving of the goroutines is a list of events.  A step that would block
  gives \<open>None\<close>.

  Queued messages carry the number of the forwarder that queued them (\<open>None\<close> for the main loop), and a
  forwarder carries the events it has taken: history for the proofs that no step reads.  After
  \<^verbatim>\<open>closeConnection\<close> Go chooses at random between queueing a message that nobody will read and giving
  up; the model gives up.
\<close>

section \<open>State\<close>

text \<open>The closure \<^verbatim>\<open>activate\<close> of a lazy session is one of the three the sources build.\<close>

datatype activation = ActTmux string | ActScreen string | ActFake program

record lazy_session =
  lID :: string
  lCmd :: string
  lCreated :: int
  lMode :: session_mode
  lActivate :: activation

record session_change =
  chAdd :: "lazy_session option"
  chRemoveID :: string

record forwarder =
  fID :: string
  fTerm :: tid
  fOut :: "agent_msg list"
  fExited :: bool
  fNotify :: bool
  fTaken :: "event list"

type_synonym fid = nat

record agent =
  aReg :: "string registry"
  aChs :: event_chans
  aModes :: "(string \<times> session_mode) list"
  aLazy :: "(string \<times> lazy_session) list"
  aAvail :: "(string \<times> lazy_session) list"
  aFwMap :: "(string \<times> fid) list"
  aFws :: "forwarder list"
  aSend :: "(fid option \<times> agent_msg) chan"
  aWire :: "(fid option \<times> agent_msg) list"
  aDone :: bool
  aErr :: "string option"
  aEnded :: "fid chan"
  aActivated :: "string list"
  aPair :: "string list"

text \<open>
  What the outside decides during one handler: whether the process starts and system calls succeed, the
  time, and the sessions whose process ends before their forwarder is started.
\<close>

record env =
  sys_ok :: bool
  now :: int
  dies :: "string list"

section \<open>Connection\<close>

definition tooSlow :: string where "tooSlow = ''PTY output subscriber too slow''"
definition queueFull :: string where "queueFull = ''outbound queue full''"

definition closeConnection :: "agent \<Rightarrow> string \<Rightarrow> agent" where
  "closeConnection w err = (if aDone w then w else w\<lparr>aErr := Some err, aDone := True\<rparr>)"

definition sendOK :: "agent \<Rightarrow> agent_msg \<Rightarrow> agent \<times> bool" where
  "sendOK w m =
     (if aDone w then (w, False)
      else case chan_try_send (aSend w) (None, m) of
          Some c \<Rightarrow> (w\<lparr>aSend := c\<rparr>, True)
        | None \<Rightarrow> (closeConnection w queueFull, False))"

definition send_msg :: "agent \<Rightarrow> agent_msg \<Rightarrow> agent" where
  "send_msg w m =
     (case chan_try_send (aSend w) (None, m) of
        Some c \<Rightarrow> if aDone w then w else w\<lparr>aSend := c\<rparr>
      | None \<Rightarrow> if aDone w then w else closeConnection w queueFull)"

text \<open>\<^verbatim>\<open>sendWait\<close> of forwarder \<open>f\<close>: \<open>None\<close> while it blocks.\<close>

definition sendWait :: "agent \<Rightarrow> fid \<Rightarrow> agent_msg \<Rightarrow> (agent \<times> bool) option" where
  "sendWait w f m =
     (if aDone w then Some (w, False)
      else map_option (\<lambda>c. (w\<lparr>aSend := c\<rparr>, True)) (chan_try_send (aSend w) (Some f, m)))"

definition sendSessionAdd ::
    "agent \<Rightarrow> lazy_session \<Rightarrow> bool \<Rightarrow> 16 word \<Rightarrow> 16 word \<Rightarrow> agent" where
  "sendSessionAdd w ls active cols rows =
     send_msg w ((msg_of ''session_add'')\<lparr>mSessionID := lID ls,
       mInfo := Some \<lparr>siID = lID ls, siCmd = lCmd ls, siCreated = lCreated ls, siMode = lMode ls,
                      siActive = active, siCols = cols, siRows = rows\<rparr>\<rparr>)"

definition sendSessionRemove :: "agent \<Rightarrow> string \<Rightarrow> agent" where
  "sendSessionRemove w sid = send_msg w ((msg_of ''session_remove'')\<lparr>mSessionID := sid\<rparr>)"

section \<open>Forwarders\<close>

definition startForwarder :: "agent \<Rightarrow> string \<Rightarrow> agent" where
  "startForwarder w sid =
     (case reg_Get (aReg w) sid of
        None \<Rightarrow> w
      | Some t \<Rightarrow>
          let f = length (aFws w) in
          w\<lparr>aChs := (aChs w)(f := chan_make 256),
            aReg := set_term (aReg w) t (term_Subscribe (term_at (aReg w) t) f (Some tooSlow)),
            aFws := aFws w @ [\<lparr>fID = sid, fTerm = t, fOut = [], fExited = False, fNotify = False, fTaken = []\<rparr>],
            aFwMap := AList.update sid f (aFwMap w)\<rparr>)"

definition output_msg :: "string \<Rightarrow> bytes \<Rightarrow> agent_msg" where
  "output_msg sid d = (msg_of ''output'')\<lparr>mSessionID := sid, mData := b64_encode d\<rparr>"

text \<open>The messages a forwarder queues, one after the other, for an event.\<close>

definition event_msgs :: "string \<Rightarrow> event \<Rightarrow> agent_msg list" where
  "event_msgs sid ev =
     (if Snapshot ev then sendSnapshot (\<lambda>q m. (q @ [m], True)) [] sid (ClientID ev) (Data ev)
      else [output_msg sid (Data ev)])"

definition set_fw :: "agent \<Rightarrow> fid \<Rightarrow> forwarder \<Rightarrow> agent" where
  "set_fw w f fw = w\<lparr>aFws := (aFws w)[f := fw]\<rparr>"

text \<open>The goroutine at its \<^verbatim>\<open>select\<close>: it takes an event ...\<close>

definition fw_take :: "agent \<Rightarrow> fid \<Rightarrow> agent option" where
  "fw_take w f =
     (let fw = aFws w ! f in
      if f < length (aFws w) \<and> \<not> fExited fw \<and> fOut fw = [] then
        (case chan_try_recv (aChs w f) of
           None \<Rightarrow> None
         | Some (ev, c) \<Rightarrow>
             Some (set_fw (w\<lparr>aChs := (aChs w)(f := c)\<rparr>) f
               (fw\<lparr>fOut := event_msgs (fID fw) ev, fTaken := fTaken fw @ [ev]\<rparr>)))
      else None)"

text \<open>... queues the next message of that event, giving up on the event when the connection is gone ...\<close>

definition fw_send :: "agent \<Rightarrow> fid \<Rightarrow> agent option" where
  "fw_send w f =
     (let fw = aFws w ! f in
      if f < length (aFws w) \<and> \<not> fExited fw then
        (case fOut fw of
           [] \<Rightarrow> None
         | m # ms \<Rightarrow>
             (case sendWait w f m of
                None \<Rightarrow> None
              | Some (w', ok) \<Rightarrow> Some (set_fw w' f (fw\<lparr>fOut := if ok then ms else []\<rparr>))))
      else None)"

text \<open>... or returns, because the connection is gone or the terminal has ended.\<close>

definition fw_stop :: "agent \<Rightarrow> fid \<Rightarrow> agent option" where
  "fw_stop w f =
     (let fw = aFws w ! f; ended = term_Done (term_at (aReg w) (fTerm fw)) in
      if f < length (aFws w) \<and> \<not> fExited fw \<and> fOut fw = [] \<and> (aDone w \<or> ended)
      then Some (set_fw
        (w\<lparr>aReg := set_term (aReg w) (fTerm fw) (term_Unsubscribe (term_at (aReg w) (fTerm fw)) f)\<rparr>) f
        (fw\<lparr>fExited := True, fNotify := ended\<rparr>))
      else None)"

definition fw_notify :: "agent \<Rightarrow> fid \<Rightarrow> agent option" where
  "fw_notify w f =
     (let fw = aFws w ! f in
      if f < length (aFws w) \<and> fNotify fw then
        (if aDone w then Some (set_fw w f (fw\<lparr>fNotify := False\<rparr>))
         else map_option (\<lambda>c. set_fw (w\<lparr>aEnded := c\<rparr>) f (fw\<lparr>fNotify := False\<rparr>)) (chan_try_send (aEnded w) f))
      else None)"

section \<open>The main loop\<close>

text \<open>The callback of an empty snapshot sent by the main loop never stops the batch.\<close>

definition send_empty_snapshot :: "agent \<Rightarrow> string \<Rightarrow> string \<Rightarrow> agent" where
  "send_empty_snapshot w sid clientID = sendSnapshot (\<lambda>w m. (send_msg w m, True)) w sid clientID []"

definition requestSnapshot :: "agent \<Rightarrow> string \<Rightarrow> string \<Rightarrow> agent" where
  "requestSnapshot w sid clientID =
     (case (reg_Get (aReg w) sid, map_of (aFwMap w) sid) of
        (Some t, Some f) \<Rightarrow>
          let (chs, ok) = term_RequestSnapshot (term_at (aReg w) t) f clientID (aChs w) in
          if ok then w\<lparr>aChs := chs\<rparr> else closeConnection w tooSlow
      | _ \<Rightarrow> send_empty_snapshot w sid clientID)"

definition restoreLazySession ::
    "string \<Rightarrow> (string \<times> lazy_session) list \<Rightarrow> (string \<times> lazy_session) list \<Rightarrow>
     (string \<times> lazy_session) list \<times> lazy_session option" where
  "restoreLazySession sid available lazyMap =
     (case map_of available sid of
        None \<Rightarrow> (lazyMap, None)
      | Some ls \<Rightarrow> (AList.update sid ls lazyMap, Some ls))"

definition finishSession :: "agent \<Rightarrow> fid \<Rightarrow> agent option" where
  "finishSession w f =
     (let fw = aFws w ! f; sid = fID fw in
      if map_of (aFwMap w) sid \<noteq> Some f then Some w
      else if fExited fw then
        (let w1 = w\<lparr>aFwMap := AList.delete sid (aFwMap w), aModes := AList.delete sid (aModes w)\<rparr>;
             w2 = sendSessionRemove w1 sid
         in case restoreLazySession sid (aAvail w2) (aLazy w2) of
              (lm, Some ls) \<Rightarrow> Some (sendSessionAdd (w2\<lparr>aLazy := lm\<rparr>) ls False 0 0)
            | (lm, None) \<Rightarrow> Some w2)
      else if aDone w then Some w
      else None)"

definition finishIfEnded :: "agent \<Rightarrow> string \<Rightarrow> agent option" where
  "finishIfEnded w sid =
     (case map_of (aFwMap w) sid of
        None \<Rightarrow> Some w
      | Some f \<Rightarrow> (case reg_Get (aReg w) sid of Some _ \<Rightarrow> Some w | None \<Rightarrow> finishSession w f))"

definition lazy_activate :: "env \<Rightarrow> agent \<Rightarrow> lazy_session \<Rightarrow> 16 word \<Rightarrow> 16 word \<Rightarrow> agent \<times> bool" where
  "lazy_activate e w ls cols rows =
     (case lActivate ls of
        ActTmux name \<Rightarrow>
          let (cmd, args) = LinkedSessionArgs name;
              (r, res) = reg_CreateWithID (aReg w) (sys_ok e) (now e) (lID ls) cmd args cols rows
          in if res \<noteq> None then (w\<lparr>aReg := r, aActivated := aActivated w @ [name]\<rparr>, True)
             else (w\<lparr>aReg := r\<rparr>, False)
      | ActScreen fullName \<Rightarrow>
          let (cmd, args) = screen_AttachArgs fullName;
              (r, res) = reg_CreateWithID (aReg w) (sys_ok e) (now e) (lID ls) cmd args cols rows
          in (w\<lparr>aReg := r\<rparr>, res \<noteq> None)
      | ActFake p \<Rightarrow>
          let (r, t) = new_term (aReg w) (FakeTerm (fake_NewSession cols rows))
          in (w\<lparr>aReg := fst (reg_Add r (now e) (lID ls) (program_name p) t)\<rparr>, True))"

text \<open>A process that ends right away, before the next look-up of its session.\<close>

definition early_end :: "env \<Rightarrow> agent \<Rightarrow> string \<Rightarrow> agent" where
  "early_end e w sid =
     (case reg_Get (aReg w) sid of
        Some t \<Rightarrow> if sid \<in> set (dies e) then w\<lparr>aReg := set_term (aReg w) t (term_end (term_at (aReg w) t))\<rparr> else w
      | None \<Rightarrow> w)"

definition rejectAttach :: "agent \<Rightarrow> lazy_session \<Rightarrow> string \<Rightarrow> agent" where
  "rejectAttach w ls clientID =
     sendSessionAdd (sendSessionRemove (send_empty_snapshot w (lID ls) clientID) (lID ls)) ls False 0 0"

definition mode_of :: "agent \<Rightarrow> string \<Rightarrow> session_mode" where
  "mode_of w sid = (case map_of (aModes w) sid of Some m \<Rightarrow> m | None \<Rightarrow> [])"

definition handle_input :: "env \<Rightarrow> agent \<Rightarrow> server_msg \<Rightarrow> agent" where
  "handle_input e w msg =
     (case reg_Get (aReg w) (rSessionID msg) of
        None \<Rightarrow> w
      | Some t \<Rightarrow>
          (case b64_decode (rData msg) of
             None \<Rightarrow> w
           | Some data \<Rightarrow>
               if \<not> inputAllowed (mode_of w (rSessionID msg)) data then w
               else w\<lparr>aReg := set_term (aReg w) t (fst (term_Write (sys_ok e) (term_at (aReg w) t) data))\<rparr>))"

definition handle_resize :: "env \<Rightarrow> agent \<Rightarrow> server_msg \<Rightarrow> agent" where
  "handle_resize e w msg =
     (case reg_Get (aReg w) (rSessionID msg) of
        None \<Rightarrow> w
      | Some t \<Rightarrow>
          if \<not> resizeAllowed (mode_of w (rSessionID msg)) then w
          else w\<lparr>aReg := set_term (aReg w) t
                   (fst (term_Resize (sys_ok e) (term_at (aReg w) t) (rCols msg) (rRows msg)))\<rparr>)"

text \<open>The part of \<^verbatim>\<open>client_attach\<close> that activates a lazy session; the flag is whether it goes on.\<close>

definition attach_activate :: "env \<Rightarrow> agent \<Rightarrow> server_msg \<Rightarrow> agent \<times> bool" where
  "attach_activate e w msg =
     (case map_of (aLazy w) (rSessionID msg) of
        None \<Rightarrow> (w, True)
      | Some ls \<Rightarrow>
          if reg_Get (aReg w) (lID ls) \<noteq> None then (w\<lparr>aLazy := AList.delete (lID ls) (aLazy w)\<rparr>, True)
          else
            let cols = (if rCols msg = 0 then 80 else rCols msg);
                rows = (if rRows msg = 0 then 24 else rRows msg);
                (w1, ok) = lazy_activate e w ls cols rows
            in if \<not> ok then (rejectAttach w1 ls (rClientID msg), False)
               else
                 let w2 = early_end e w1 (lID ls);
                     w3 = startForwarder (w2\<lparr>aModes := AList.update (lID ls) (lMode ls) (aModes w2)\<rparr>) (lID ls);
                     w4 = sendSessionAdd w3 ls True cols rows
                 in (w4\<lparr>aLazy := AList.delete (lID ls) (aLazy w4)\<rparr>, True))"

definition handle_attach :: "env \<Rightarrow> agent \<Rightarrow> server_msg \<Rightarrow> agent option" where
  "handle_attach e w msg =
     (case finishIfEnded w (rSessionID msg) of
        None \<Rightarrow> None
      | Some w1 \<Rightarrow>
          let (w2, go_on) = attach_activate e w1 msg in
          Some (if go_on then requestSnapshot w2 (rSessionID msg) (rClientID msg) else w2))"

definition handleServerMsg :: "env \<Rightarrow> agent \<Rightarrow> server_msg \<Rightarrow> agent option" where
  "handleServerMsg e w msg =
     (if rType msg = ''input'' then Some (handle_input e w msg)
      else if rType msg = ''resize'' then Some (handle_resize e w msg)
      else if rType msg = ''client_attach'' then handle_attach e w msg
      else if rType msg = ''pair_request'' then Some (w\<lparr>aPair := aPair w @ [rPairID msg]\<rparr>)
      else Some w)"

definition handle_change :: "agent \<Rightarrow> session_change \<Rightarrow> agent" where
  "handle_change w change =
     (if chRemoveID change \<noteq> [] then
        (let sid = chRemoveID change in
         sendSessionRemove
           (w\<lparr>aLazy := AList.delete sid (aLazy w), aAvail := AList.delete sid (aAvail w),
              aModes := AList.delete sid (aModes w)\<rparr>) sid)
      else case chAdd change of
          None \<Rightarrow> w
        | Some ls \<Rightarrow>
            sendSessionAdd
              (w\<lparr>aAvail := AList.update (lID ls) ls (aAvail w), aLazy := AList.update (lID ls) ls (aLazy w)\<rparr>)
              ls False 0 0)"

text \<open>A new connection: the sessions of the source are advertised, running ones with their forwarder.\<close>

definition agent_New :: "string registry \<Rightarrow> agent" where
  "agent_New r =
     \<lparr>aReg = r, aChs = (\<lambda>_. chan_make 0), aModes = [], aLazy = [], aAvail = [], aFwMap = [], aFws = [],
      aSend = chan_make 512, aWire = [], aDone = False, aErr = None, aEnded = chan_make 64,
      aActivated = [], aPair = []\<rparr>"

definition advertise :: "env \<Rightarrow> agent \<Rightarrow> lazy_session \<Rightarrow> agent" where
  "advertise e w0 ls =
     (let w = w0\<lparr>aAvail := AList.update (lID ls) ls (aAvail w0)\<rparr> in
      if reg_Get (aReg w) (lID ls) \<noteq> None then
        (let w1 = early_end e w (lID ls);
             w2 = startForwarder (w1\<lparr>aModes := AList.update (lID ls) (lMode ls) (aModes w1)\<rparr>) (lID ls)
         in sendSessionAdd w2 ls True 0 0)
      else
        (let w1 = sendSessionAdd w ls False 0 0
         in w1\<lparr>aLazy := AList.update (lID ls) ls (aLazy w1)\<rparr>))"

definition agent_connect :: "env \<Rightarrow> string registry \<Rightarrow> lazy_session list \<Rightarrow> agent" where
  "agent_connect e r lazy = foldl (advertise e) (agent_New r) lazy"

text \<open>
  The reader goroutine over the results of successive reads (\<open>None\<close> is a read error): undecodable
  messages are skipped, the rest are delivered in order, and an error closes the connection.
\<close>

fun readServerMessages :: "('raw \<Rightarrow> server_msg option) \<Rightarrow> 'raw option list \<Rightarrow> server_msg list \<times> bool" where
  "readServerMessages unmarshal [] = ([], False)"
| "readServerMessages unmarshal (None # _) = ([], True)"
| "readServerMessages unmarshal (Some raw # rest) =
     (let (ms, closed) = readServerMessages unmarshal rest in
      case unmarshal raw of Some m \<Rightarrow> (m # ms, closed) | None \<Rightarrow> (ms, closed))"

section \<open>Steps\<close>

datatype writer_wake = WakeSend bool | WakePing bool

datatype agent_event =
    EvServer env server_msg
  | EvChange session_change
  | EvEnded
  | EvTake fid
  | EvQueue fid
  | EvStop fid
  | EvNotify fid
  | EvWrite writer_wake
  | EvConnError string
  | EvOutput tid bytes bool
  | EvTermEnd tid
  | EvCleanup nat
  | EvRemove string

text \<open>
  The writer sends the next message or, when its ticker fires, a ping; the flag is whether the write succeeds within its
  deadline.  A message whose write fails is lost with the connection.
\<close>

definition writer_step :: "agent \<Rightarrow> writer_wake \<Rightarrow> agent option" where
  "writer_step w wake =
     (if aDone w then None
      else case wake of
          WakeSend ok \<Rightarrow>
            (case chan_try_recv (aSend w) of
               None \<Rightarrow> None
             | Some (x, c) \<Rightarrow>
                 Some (if ok then w\<lparr>aSend := c, aWire := aWire w @ [x]\<rparr>
                       else closeConnection (w\<lparr>aSend := c\<rparr>) ''write''))
        | WakePing ok \<Rightarrow> Some (if ok then w else closeConnection w ''ping''))"

definition output_step :: "agent \<Rightarrow> tid \<Rightarrow> bytes \<Rightarrow> bool \<Rightarrow> agent option" where
  "output_step w t d reset =
     (if t < length (terms (aReg w)) then
        (let (x, chs, fired) = term_emit (term_at (aReg w) t) d reset (aChs w)
         in Some (foldl closeConnection (w\<lparr>aReg := set_term (aReg w) t x, aChs := chs\<rparr>) fired))
      else None)"

fun agent_step :: "agent \<Rightarrow> agent_event \<Rightarrow> agent option" where
  "agent_step w (EvServer e msg) = handleServerMsg e w msg"
| "agent_step w (EvChange c) = Some (handle_change w c)"
| "agent_step w EvEnded =
     (case chan_try_recv (aEnded w) of None \<Rightarrow> None | Some (f, c) \<Rightarrow> finishSession (w\<lparr>aEnded := c\<rparr>) f)"
| "agent_step w (EvTake f) = fw_take w f"
| "agent_step w (EvQueue f) = fw_send w f"
| "agent_step w (EvStop f) = fw_stop w f"
| "agent_step w (EvNotify f) = fw_notify w f"
| "agent_step w (EvWrite wake) = writer_step w wake"
| "agent_step w (EvConnError err) = Some (closeConnection w err)"
| "agent_step w (EvOutput t d reset) = output_step w t d reset"
| "agent_step w (EvTermEnd t) =
     (if t < length (terms (aReg w)) then Some (w\<lparr>aReg := set_term (aReg w) t (term_end (term_at (aReg w) t))\<rparr>) else None)"
| "agent_step w (EvCleanup k) = Some (w\<lparr>aReg := reg_step (aReg w) (RCleanup k)\<rparr>)"
| "agent_step w (EvRemove sid) = Some (w\<lparr>aReg := reg_Remove (aReg w) sid\<rparr>)"

text \<open>A step that is not enabled changes nothing; the goroutine waits and others go on.\<close>

definition agent_turn :: "agent \<Rightarrow> agent_event \<Rightarrow> agent" where
  "agent_turn w ev = (case agent_step w ev of Some w' \<Rightarrow> w' | None \<Rightarrow> w)"

lemma writer_stepD:
  "writer_step w wake = Some w' \<Longrightarrow> \<not> aDone w \<and>
     (w' = w \<or> (\<exists>err. w' = closeConnection w err) \<or> (\<exists>c err. w' = closeConnection (w\<lparr>aSend := c\<rparr>) err) \<or>
      (\<exists>x c. chan_try_recv (aSend w) = Some (x, c) \<and> w' = w\<lparr>aSend := c, aWire := aWire w @ [x]\<rparr>))"
  by (auto simp: writer_step_def split: if_splits writer_wake.splits option.splits) blast

section \<open>A concrete connection\<close>

text \<open>One tmux session in mode \<open>m\<close>, a client attaching to it, then typing.\<close>

definition demo_env :: env where
  "demo_env = \<lparr>sys_ok = True, now = 0, dies = []\<rparr>"

definition demo_lazy :: "session_mode \<Rightarrow> lazy_session" where
  "demo_lazy m = \<lparr>lID = ''s'', lCmd = ''tmux:prod'', lCreated = 0, lMode = m, lActivate = ActTmux ''prod''\<rparr>"

definition demo_msg :: "string \<Rightarrow> string \<Rightarrow> server_msg" where
  "demo_msg ty d =
     \<lparr>rType = ty, rSessionID = ''s'', rClientID = ''c'', rData = d, rCols = 0, rRows = 0, rPairID = [], rNonce = []\<rparr>"

definition demo_connect :: "session_mode \<Rightarrow> agent" where
  "demo_connect m = agent_connect demo_env registry_New [demo_lazy m]"

definition demo_attached :: "session_mode \<Rightarrow> agent" where
  "demo_attached m = agent_turn (demo_connect m) (EvServer demo_env (demo_msg ''client_attach'' []))"

definition demo_pty :: "string pty_session" where
  "demo_pty = the (pty_New True ''tmux'' 80 24)"

definition demo_reg :: "string registry" where
  "demo_reg =
     \<lparr>terms = [term_Subscribe (PtyTerm demo_pty) 0 (Some tooSlow)],
      entries = [(''s'', \<lparr>eInfo = \<lparr>iID = ''s'', iCmd = ''tmux'', iCreated = 0, iMode = []\<rparr>,
                          eSession = 0, eSource = ''tmux:scomp-prod''\<rparr>)],
      sourceToID = [(''tmux:scomp-prod'', ''s'')], cleanups = [(''s'', 0)]\<rparr>"

lemma demo_pty: "pty_New True ''tmux'' 80 24 = Some demo_pty" "\<not> pty_done demo_pty"
  by (simp_all add: demo_pty_def pty_New_def)

lemma demo_screen: "ring_Snapshot (ring (term_stream (term_Subscribe (PtyTerm demo_pty) ch cb))) = []"
  by (simp add: term_Subscribe_def stream_Subscribe_def demo_pty_def pty_New_def stream_New_def)

lemma demo_source:
  "sourceKey ''tmux'' [''new-session'', ''-A'', ''-t'', ExactTarget ''prod'', ''-s'', LinkedSessionName ''prod''] =
   ''tmux:scomp-prod''"
  by (simp add: sourceKey_def ExactTarget_def LinkedSessionName_def sccompPrefix_def)

lemma demo_create:
  "reg_CreateWithID registry_New True 0 ''s'' ''tmux''
     [''new-session'', ''-A'', ''-t'', ExactTarget ''prod'', ''-s'', LinkedSessionName ''prod''] 80 24 =
   (demo_reg\<lparr>terms := [PtyTerm demo_pty]\<rparr>, Some (\<lparr>iID = ''s'', iCmd = ''tmux'', iCreated = 0, iMode = []\<rparr>, 0))"
  unfolding reg_CreateWithID_def demo_source
  by (simp add: liveSourceLocked_def reg_spawn_def new_term_def reg_put_def registry_New_def Let_def demo_pty
      demo_reg_def)

lemma demo_connect_eq:
  "demo_connect m =
   \<lparr>aReg = registry_New, aChs = \<lambda>_. chan_make 0, aModes = [], aLazy = [(''s'', demo_lazy m)],
    aAvail = [(''s'', demo_lazy m)], aFwMap = [], aFws = [],
    aSend = \<lparr>cap = 512, queue = queue (aSend (demo_connect m))\<rparr>, aWire = [], aDone = False, aErr = None,
    aEnded = chan_make 64, aActivated = [], aPair = []\<rparr>"
  "map fst (queue (aSend (demo_connect m))) = [None]"
  by (simp_all add: demo_connect_def agent_connect_def agent_New_def advertise_def registry_New_def reg_Get_def
    sendSessionAdd_def send_msg_def chan_try_send_def chan_make_def demo_lazy_def)

lemma demo_attached_eq:
  "\<exists>q. demo_attached m =
   \<lparr>aReg = demo_reg, aChs = (\<lambda>_. chan_make 0)(0 := \<lparr>cap = 256, queue = [snapshot_event [] ''c'']\<rparr>), aModes = [(''s'', m)],
    aLazy = [], aAvail = [(''s'', demo_lazy m)], aFwMap = [(''s'', 0)],
    aFws = [\<lparr>fID = ''s'', fTerm = 0, fOut = [], fExited = False, fNotify = False, fTaken = []\<rparr>],
    aSend = \<lparr>cap = 512, queue = q\<rparr>, aWire = [], aDone = False, aErr = None, aEnded = chan_make 64,
    aActivated = [''prod''], aPair = []\<rparr> \<and> map fst q = [None, None]"
proof -
  let ?m = "demo_msg ''client_attach'' []"
  let ?q = "queue (aSend (demo_connect m)) @ [(None, (msg_of ''session_add'')\<lparr>mSessionID := ''s'', mInfo := Some
    \<lparr>siID = ''s'', siCmd = ''tmux:prod'', siCreated = 0, siMode = m, siActive = True, siCols = 80, siRows = 24\<rparr>\<rparr>)]"
  let ?w = "\<lparr>aReg = demo_reg, aChs = (\<lambda>_. chan_make 0)(0 := chan_make 256), aModes = [(''s'', m)],
    aLazy = [], aAvail = [(''s'', demo_lazy m)], aFwMap = [(''s'', 0)],
    aFws = [\<lparr>fID = ''s'', fTerm = 0, fOut = [], fExited = False, fNotify = False, fTaken = []\<rparr>],
    aSend = \<lparr>cap = 512, queue = ?q\<rparr>, aWire = [], aDone = False, aErr = None, aEnded = chan_make 64,
    aActivated = [''prod''], aPair = []\<rparr>"
  have "attach_activate demo_env (demo_connect m) ?m = (?w, True)"
    using arg_cong [OF demo_connect_eq(2) [of m], of length]
    by (subst demo_connect_eq)
      (simp add: attach_activate_def demo_env_def demo_msg_def demo_lazy_def lazy_activate_def
        LinkedSessionArgs_def demo_create early_end_def startForwarder_def reg_Get_def reg_alive_def term_at_def
        set_term_def sendSessionAdd_def send_msg_def chan_try_send_def demo_pty Let_def demo_reg_def
        registry_New_def [THEN arg_cong, of entries])
  moreover have "finishIfEnded (demo_connect m) ''s'' = Some (demo_connect m)"
    by (subst demo_connect_eq, subst (2) demo_connect_eq) (simp add: finishIfEnded_def)
  ultimately have "demo_attached m = requestSnapshot ?w ''s'' ''c''"
    by (simp add: demo_attached_def agent_turn_def handleServerMsg_def handle_attach_def demo_msg_def)
  also have "\<dots> = ?w\<lparr>aChs := (\<lambda>_. chan_make 0)(0 := \<lparr>cap = 256, queue = [snapshot_event [] ''c'']\<rparr>)\<rparr>"
    by (simp add: demo_screen requestSnapshot_def reg_Get_def reg_alive_def term_at_def demo_reg_def demo_pty
        term_RequestSnapshot_def stream_RequestSnapshot_def term_Snapshot_def stream_Snapshot_def
        chan_try_send_def chan_make_def)
  finally have "demo_attached m = ?w\<lparr>aChs := (\<lambda>_. chan_make 0)(0 := \<lparr>cap = 256, queue = [snapshot_event [] ''c'']\<rparr>)\<rparr>" .
  moreover have "map fst ?q = [None, None]" using demo_connect_eq(2) [of m] by simp
  ultimately show ?thesis by (intro exI [of _ ?q] conjI) (simp_all only: agent.update_convs)
qed

lemma demo_attached_facts:
  "terms (aReg (demo_attached m)) \<noteq> []" "aModes (demo_attached m) = [(''s'', m)]"
  "aLazy (demo_attached m) = []" "aAvail (demo_attached m) = [(''s'', demo_lazy m)]"
  "length (aFws (demo_attached m)) = 1" "\<not> aDone (demo_attached m)"
  "\<not> fExited (aFws (demo_attached m) ! 0)" "fOut (aFws (demo_attached m) ! 0) = []"
  "fTaken (aFws (demo_attached m) ! 0) = []" "fTerm (aFws (demo_attached m) ! 0) = 0"
  "length (queue (aChs (demo_attached m) 0)) = 1" "map_of (aFwMap (demo_attached m)) ''s'' = Some 0"
  "reg_Get (aReg (demo_attached m)) ''s'' = Some 0"
  using demo_attached_eq [of m]
  by (auto simp: demo_reg_def reg_Get_def reg_alive_def term_at_def demo_pty)

end
