(* ===== verification/Agent_Input.thy ===== *)
theory Agent_Input
  imports Agent_Loop
begin

text \<open>
  What the relay can do to a terminal.  A locale takes a class of session modes and what may change in a
  terminal under these modes, and shows it for every run of the agent; the two interpretations are the
  read-only policy and the approved-only policy.
\<close>

section \<open>The remotely controlled part of a terminal\<close>

fun written_of :: "'cb terminal \<Rightarrow> bytes list" where
  "written_of (PtyTerm s) = ptmx_written s"
| "written_of (FakeTerm s) = []"

fun remote_view ::
    "'cb terminal \<Rightarrow> (bytes list \<times> 16 word \<times> 16 word) + (key chan \<times> unit chan \<times> Decoder \<times> nat \<times> nat)" where
  "remote_view (PtyTerm s) = Inl (ptmx_written s, winsize s)"
| "remote_view (FakeTerm s) = Inr (fkeys s, resized s, dec s, fcols s, frows s)"

lemma remote_view_written: "remote_view t = remote_view t' \<Longrightarrow> written_of t = written_of t'"
  by (cases t; cases t') auto

lemma remote_view_simps [simp]:
  "remote_view (term_Close t) = remote_view t"
  "remote_view (term_end t) = remote_view t"
  "remote_view (term_with_stream t str) = remote_view t"
  "remote_view (term_Subscribe t ch cb) = remote_view t"
  "remote_view (term_Unsubscribe t ch) = remote_view t"
  "remote_view (fst (term_emit t d r chs)) = remote_view t"
  by (cases t; simp add: pty_Close_def fake_Close_def term_Subscribe_def term_Unsubscribe_def
      pty_emit_def fake_emit_def Let_def case_prod_beta)+

text \<open>Old terminals changed only as \<open>K\<close> allows, new ones as \<open>K\<close> allows from a terminal without input.\<close>

definition reg_frame :: "(string terminal \<Rightarrow> string terminal \<Rightarrow> bool) \<Rightarrow> string registry \<Rightarrow> string registry \<Rightarrow> bool" where
  "reg_frame K r r' \<longleftrightarrow> length (terms r) \<le> length (terms r') \<and>
     (\<forall>t < length (terms r). K (term_at r t) (term_at r' t)) \<and>
     (\<forall>t < length (terms r'). length (terms r) \<le> t \<longrightarrow> (\<exists>x. written_of x = [] \<and> K x (term_at r' t)))"

definition all_values :: "('v \<Rightarrow> bool) \<Rightarrow> ('k \<times> 'v) list \<Rightarrow> bool" where
  "all_values Q xs \<longleftrightarrow> list_all (\<lambda>x. Q (snd x)) xs"

definition modes_in :: "(session_mode \<Rightarrow> bool) \<Rightarrow> agent \<Rightarrow> bool" where
  "modes_in P w \<longleftrightarrow> all_values P (aModes w) \<and> all_values (\<lambda>ls. P (lMode ls)) (aLazy w) \<and>
     all_values (\<lambda>ls. P (lMode ls)) (aAvail w)"

fun event_modes_in :: "(session_mode \<Rightarrow> bool) \<Rightarrow> agent_event \<Rightarrow> bool" where
  "event_modes_in P (EvChange c) \<longleftrightarrow> (case chAdd c of Some ls \<Rightarrow> P (lMode ls) | None \<Rightarrow> True)"
| "event_modes_in P _ \<longleftrightarrow> True"

section \<open>What the helpers leave alone\<close>

lemma closeConnection_frame [simp]:
  "aReg (closeConnection w e) = aReg w" "aModes (closeConnection w e) = aModes w"
  "aLazy (closeConnection w e) = aLazy w" "aAvail (closeConnection w e) = aAvail w"
  "aFwMap (closeConnection w e) = aFwMap w" "aFws (closeConnection w e) = aFws w"
  "aChs (closeConnection w e) = aChs w" "aSend (closeConnection w e) = aSend w"
  "aWire (closeConnection w e) = aWire w" "aDone (closeConnection w e)"
  "aEnded (closeConnection w e) = aEnded w"
  by (simp_all add: closeConnection_def)

lemma send_msg_frame [simp]:
  "aReg (send_msg w m) = aReg w" "aModes (send_msg w m) = aModes w"
  "aLazy (send_msg w m) = aLazy w" "aAvail (send_msg w m) = aAvail w"
  "aFwMap (send_msg w m) = aFwMap w" "aFws (send_msg w m) = aFws w"
  "aChs (send_msg w m) = aChs w" "aWire (send_msg w m) = aWire w" "aEnded (send_msg w m) = aEnded w"
  by (simp_all add: send_msg_def split: option.split)

lemma session_msgs_frame [simp]:
  "aReg (sendSessionAdd w ls a c r) = aReg w" "aModes (sendSessionAdd w ls a c r) = aModes w"
  "aLazy (sendSessionAdd w ls a c r) = aLazy w" "aAvail (sendSessionAdd w ls a c r) = aAvail w"
  "aFwMap (sendSessionAdd w ls a c r) = aFwMap w" "aFws (sendSessionAdd w ls a c r) = aFws w"
  "aChs (sendSessionAdd w ls a c r) = aChs w" "aWire (sendSessionAdd w ls a c r) = aWire w"
  "aReg (sendSessionRemove w s) = aReg w" "aModes (sendSessionRemove w s) = aModes w"
  "aLazy (sendSessionRemove w s) = aLazy w" "aAvail (sendSessionRemove w s) = aAvail w"
  "aFwMap (sendSessionRemove w s) = aFwMap w" "aFws (sendSessionRemove w s) = aFws w"
  "aChs (sendSessionRemove w s) = aChs w" "aWire (sendSessionRemove w s) = aWire w"
  by (simp_all add: sendSessionAdd_def sendSessionRemove_def)

lemma empty_snapshot_sends:
  "send_empty_snapshot w sid c =
     send_msg (send_msg w (snapshot_start sid c 0)) (snapshot_end sid c 0)"
  by (simp add: send_empty_snapshot_def sendSnapshot_def chunk_unfold)

lemma empty_snapshot_frame [simp]:
  "aReg (send_empty_snapshot w s c) = aReg w" "aModes (send_empty_snapshot w s c) = aModes w"
  "aLazy (send_empty_snapshot w s c) = aLazy w" "aAvail (send_empty_snapshot w s c) = aAvail w"
  "aFwMap (send_empty_snapshot w s c) = aFwMap w" "aFws (send_empty_snapshot w s c) = aFws w"
  "aChs (send_empty_snapshot w s c) = aChs w" "aWire (send_empty_snapshot w s c) = aWire w"
  by (simp_all add: empty_snapshot_sends)

lemma rejectAttach_frame [simp]:
  "aReg (rejectAttach w ls c) = aReg w" "aModes (rejectAttach w ls c) = aModes w"
  "aLazy (rejectAttach w ls c) = aLazy w" "aAvail (rejectAttach w ls c) = aAvail w"
  "aFwMap (rejectAttach w ls c) = aFwMap w" "aFws (rejectAttach w ls c) = aFws w"
  "aChs (rejectAttach w ls c) = aChs w" "aWire (rejectAttach w ls c) = aWire w"
  by (simp_all add: rejectAttach_def)

lemma requestSnapshot_frame [simp]:
  "aReg (requestSnapshot w s c) = aReg w" "aModes (requestSnapshot w s c) = aModes w"
  "aLazy (requestSnapshot w s c) = aLazy w" "aAvail (requestSnapshot w s c) = aAvail w"
  "aFwMap (requestSnapshot w s c) = aFwMap w" "aFws (requestSnapshot w s c) = aFws w"
  "aWire (requestSnapshot w s c) = aWire w"
  by (simp_all add: requestSnapshot_def Let_def case_prod_beta split: option.split)

lemma fold_close_frame [simp]:
  "aReg (foldl closeConnection w es) = aReg w" "aModes (foldl closeConnection w es) = aModes w"
  "aLazy (foldl closeConnection w es) = aLazy w" "aAvail (foldl closeConnection w es) = aAvail w"
  "aFwMap (foldl closeConnection w es) = aFwMap w" "aFws (foldl closeConnection w es) = aFws w"
  "aChs (foldl closeConnection w es) = aChs w" "aSend (foldl closeConnection w es) = aSend w"
  "aWire (foldl closeConnection w es) = aWire w"
  by (induction es arbitrary: w) simp_all

lemma startForwarder_frame [simp]:
  "aModes (startForwarder w s) = aModes w" "aLazy (startForwarder w s) = aLazy w"
  "aAvail (startForwarder w s) = aAvail w" "aWire (startForwarder w s) = aWire w"
  "aSend (startForwarder w s) = aSend w" "aDone (startForwarder w s) = aDone w"
  by (simp_all add: startForwarder_def Let_def split: option.split)

lemma early_end_frame [simp]:
  "aModes (early_end e w s) = aModes w" "aLazy (early_end e w s) = aLazy w"
  "aAvail (early_end e w s) = aAvail w" "aWire (early_end e w s) = aWire w"
  "aFwMap (early_end e w s) = aFwMap w" "aFws (early_end e w s) = aFws w"
  "aChs (early_end e w s) = aChs w" "aSend (early_end e w s) = aSend w" "aDone (early_end e w s) = aDone w"
  by (simp_all add: early_end_def split: option.split)

lemma lazy_activate_frame [simp]:
  "aModes (fst (lazy_activate e w ls c r)) = aModes w" "aLazy (fst (lazy_activate e w ls c r)) = aLazy w"
  "aAvail (fst (lazy_activate e w ls c r)) = aAvail w" "aWire (fst (lazy_activate e w ls c r)) = aWire w"
  "aFwMap (fst (lazy_activate e w ls c r)) = aFwMap w" "aFws (fst (lazy_activate e w ls c r)) = aFws w"
  "aChs (fst (lazy_activate e w ls c r)) = aChs w" "aSend (fst (lazy_activate e w ls c r)) = aSend w"
  "aDone (fst (lazy_activate e w ls c r)) = aDone w"
  by (simp_all add: lazy_activate_def Let_def case_prod_beta split: activation.split)

lemma all_values_delete [simp]: "all_values Q xs \<Longrightarrow> all_values Q (AList.delete s xs)"
  by (auto simp: all_values_def delete_filter list_all_iff)

lemma all_values_update [simp]: "all_values Q xs \<Longrightarrow> Q u \<Longrightarrow> all_values Q (AList.update s u xs)"
  by (auto simp: all_values_def list_all_iff dest!: set_update_cases)

lemma all_values_map_of: "map_of xs k = Some v \<Longrightarrow> all_values Q xs \<Longrightarrow> Q v"
  by (auto simp: all_values_def list_all_iff dest!: map_of_SomeD)

section \<open>Modes stay in their class\<close>

lemma attach_activate_modes:
  assumes "modes_in P w" shows "modes_in P (fst (attach_activate e w msg))"
proof (cases "map_of (aLazy w) (rSessionID msg)")
  case (Some ls)
  then have "P (lMode ls)" using assms by (auto simp: modes_in_def dest: all_values_map_of)
  with Some assms show ?thesis
    by (simp add: attach_activate_def modes_in_def Let_def case_prod_beta)
qed (use assms in \<open>simp add: attach_activate_def\<close>)

lemma finishSession_modes:
  assumes "modes_in P w" "finishSession w f = Some w'" shows "modes_in P w'"
  using assms
  by (auto simp: finishSession_def Let_def restoreLazySession_def modes_in_def
      split: if_splits option.splits dest: all_values_map_of)

lemma handle_modes:
  assumes "modes_in P w" "handleServerMsg e w msg = Some w'" shows "modes_in P w'"
proof (cases "rType msg = ''client_attach''")
  case True
  then obtain w1 where w1: "finishIfEnded w (rSessionID msg) = Some w1"
    and w': "w' = (let (w2, go_on) = attach_activate e w1 msg in
      if go_on then requestSnapshot w2 (rSessionID msg) (rClientID msg) else w2)"
    using assms by (auto simp: handleServerMsg_def handle_attach_def Let_def split: option.splits prod.splits)
  have "modes_in P w1"
    using w1 assms(1) finishSession_modes by (auto simp: finishIfEnded_def split: option.splits)
  from attach_activate_modes [OF this, of e msg] show ?thesis
    by (auto simp: w' Let_def case_prod_beta modes_in_def)
next
  case False
  have "aModes (handle_input e w msg) = aModes w" "aLazy (handle_input e w msg) = aLazy w"
    "aAvail (handle_input e w msg) = aAvail w" "aModes (handle_resize e w msg) = aModes w"
    "aLazy (handle_resize e w msg) = aLazy w" "aAvail (handle_resize e w msg) = aAvail w"
    by (simp_all add: handle_input_def handle_resize_def split: option.split)
  with False assms show ?thesis
    by (auto simp: handleServerMsg_def modes_in_def split: if_splits)
qed

lemma step_modes:
  assumes "modes_in P w" "event_modes_in P ev" "agent_step w ev = Some w'"
  shows "modes_in P w'"
proof (cases ev)
  case (EvServer e msg)
  with assms handle_modes show ?thesis by simp
next
  case (EvChange c)
  with assms show ?thesis
    by (auto simp: handle_change_def Let_def modes_in_def split: option.splits if_splits)
next
  case EvEnded
  with assms show ?thesis
    by (auto split: option.splits simp: modes_in_def [of P w] intro!: finishSession_modes [of P _ _ w'])
      (simp add: modes_in_def)
qed (use assms in \<open>auto simp: modes_in_def fw_take_def fw_send_def fw_stop_def fw_notify_def
    sendWait_def set_fw_def output_step_def Let_def case_prod_beta
    split: if_splits option.splits list.splits dest!: writer_stepD\<close>)

section \<open>Policies\<close>

locale input_policy =
  fixes P :: "session_mode \<Rightarrow> bool"
    and K :: "string terminal \<Rightarrow> string terminal \<Rightarrow> bool"
  assumes same_view: "remote_view t = remote_view t' \<Longrightarrow> K t t'"
    and K_trans: "K t t' \<Longrightarrow> K t' t'' \<Longrightarrow> K t t''"
    and write_K: "P m \<Longrightarrow> inputAllowed m d \<Longrightarrow> K t (fst (term_Write ok t d))"
    and resize_K: "P m \<Longrightarrow> resizeAllowed m \<Longrightarrow> K t (fst (term_Resize ok t c r))"
begin

lemma frame_same: "terms r' = terms r \<Longrightarrow> reg_frame K r r'"
  by (simp add: reg_frame_def term_at_def same_view)

lemma frame_trans:
  assumes "reg_frame K r r'" "reg_frame K r' r''" shows "reg_frame K r r''"
proof -
  have "\<exists>x. written_of x = [] \<and> K x (term_at r'' t)"
    if t: "t < length (terms r'')" "length (terms r) \<le> t" for t
  proof (cases "t < length (terms r')")
    case True
    then obtain x where "written_of x = []" "K x (term_at r' t)" using assms(1) t(2) by (auto simp: reg_frame_def)
    moreover have "K (term_at r' t) (term_at r'' t)" using assms(2) True by (simp add: reg_frame_def)
    ultimately show ?thesis using K_trans by blast
  next
    case False
    then show ?thesis using assms(2) t(1) by (simp add: reg_frame_def)
  qed
  moreover have "K (term_at r t) (term_at r'' t)" if "t < length (terms r)" for t
    using assms that K_trans unfolding reg_frame_def by (meson less_le_trans)
  ultimately show ?thesis using assms by (auto simp: reg_frame_def)
qed

lemma frame_set_term: "K (term_at r t) x \<Longrightarrow> reg_frame K r (set_term r t x)"
proof -
  have "K (terms r ! u) ((terms r)[t := x] ! u)" if "K (terms r ! t) x" "u < length (terms r)" for u
    using that by (cases "u = t") (auto simp: same_view)
  then show "K (term_at r t) x \<Longrightarrow> ?thesis" by (simp add: reg_frame_def set_term_def term_at_def)
qed

lemma frame_new: "terms r' = terms r @ [x] \<Longrightarrow> written_of x = [] \<Longrightarrow> reg_frame K r r'"
  using same_view [of x x] by (auto simp: reg_frame_def term_at_def nth_append same_view)

lemma frame_close: "reg_frame K r (close_term r t)"
  unfolding close_term_def by (rule frame_set_term) (simp add: same_view)

lemma frame_Remove: "reg_frame K r (reg_Remove r sid)"
  by (auto simp: reg_Remove_def frame_same split: option.split
      intro: frame_trans [OF frame_same frame_close])

lemma frame_cleanup: "reg_frame K r (reg_step r (RCleanup k))"
  by (simp add: frame_same)

lemma frame_CreateWithID: "reg_frame K r (fst (reg_CreateWithID r ok n sid cmd args c rs))"
  by (auto simp: reg_CreateWithID_def reg_spawn_def pty_New_def new_term_def reg_alias_def reg_put_def Let_def
      frame_same split: option.split intro: frame_new)

lemma frame_Add_new:
  "written_of x = [] \<Longrightarrow> reg_frame K r (fst (reg_Add (fst (new_term r x)) n sid cmd t))"
  by (auto simp: reg_Add_def Let_def new_term_def reg_put_def split: option.split
      intro: frame_new frame_trans [OF frame_new frame_close])

lemma frame_activate: "reg_frame K (aReg w) (aReg (fst (lazy_activate e w ls c r)))"
  using frame_Add_new [of "FakeTerm (fake_NewSession c r)" "aReg w"]
  by (simp add: lazy_activate_def Let_def case_prod_beta frame_CreateWithID new_term_def split: activation.split)

lemma frame_start: "reg_frame K (aReg w) (aReg (startForwarder w sid))"
  by (auto simp: startForwarder_def Let_def frame_same same_view split: option.split intro: frame_set_term)

lemma frame_early: "reg_frame K (aReg w) (aReg (early_end e w sid))"
  by (auto simp: early_end_def frame_same same_view split: option.split intro: frame_set_term)

lemma frame_attach: "reg_frame K (aReg w) (aReg (fst (attach_activate e w msg)))"
proof -
  have "reg_frame K (aReg w)
      (aReg (startForwarder ((early_end e (fst (lazy_activate e w ls c r)) s)\<lparr>aModes := ms\<rparr>) s))" for ls c r s ms
    using frame_start [of "(early_end e (fst (lazy_activate e w ls c r)) s)\<lparr>aModes := ms\<rparr>" s]
      frame_trans [OF frame_trans [OF frame_activate frame_early]] by simp
  then show ?thesis
    by (auto simp: attach_activate_def Let_def case_prod_beta frame_same frame_activate split: option.split)
qed

lemma finishSession_reg: "finishSession w f = Some w' \<Longrightarrow> aReg w' = aReg w"
  by (auto simp: finishSession_def Let_def restoreLazySession_def split: if_splits option.splits)

lemma frame_handle_attach: "handle_attach e w msg = Some w' \<Longrightarrow> reg_frame K (aReg w) (aReg w')"
  using frame_attach
  by (auto simp: handle_attach_def finishIfEnded_def Let_def case_prod_beta split: option.splits dest!: finishSession_reg)
    metis+

lemma allowed_mode:
  assumes "modes_in P w"
  shows "P (mode_of w sid) \<or> mode_of w sid = []"
  using assms by (auto simp: mode_of_def modes_in_def split: option.split dest: all_values_map_of)

lemma frame_handle:
  assumes "modes_in P w" "handleServerMsg e w msg = Some w'"
  shows "reg_frame K (aReg w) (aReg w')"
proof -
  have "\<not> inputAllowed [] d" "\<not> resizeAllowed []" for d by (simp_all add: inputAllowed_def resizeAllowed_def)
  then have "reg_frame K (aReg w) (aReg (handle_input e w msg))" "reg_frame K (aReg w) (aReg (handle_resize e w msg))"
    using allowed_mode [OF assms(1), of "rSessionID msg"]
    by (auto simp: handle_input_def handle_resize_def frame_same split: option.split
        intro!: frame_set_term intro: write_K resize_K)
  with assms(2) frame_handle_attach show ?thesis
    by (auto simp: handleServerMsg_def frame_same split: if_splits)
qed

lemma frame_step:
  assumes "modes_in P w" "agent_step w ev = Some w'"
  shows "reg_frame K (aReg w) (aReg w')"
proof (cases ev)
  case (EvServer e msg)
  with assms frame_handle show ?thesis by simp
next
  case EvEnded
  with assms show ?thesis by (auto split: option.splits dest!: finishSession_reg simp: frame_same)
next
  case (EvCleanup k)
  with assms frame_cleanup show ?thesis by (auto simp del: reg_step.simps)
next
  case (EvStop f)
  with assms show ?thesis
    by (auto simp: fw_stop_def set_fw_def Let_def same_view split: if_splits intro!: frame_set_term)
next
  case (EvOutput t d r)
  with assms show ?thesis
    by (auto simp: output_step_def Let_def case_prod_beta same_view split: if_splits intro!: frame_set_term)
next
  case (EvTermEnd t)
  with assms show ?thesis by (auto simp: same_view split: if_splits intro!: frame_set_term)
qed (use assms in \<open>auto simp: frame_same frame_Remove handle_change_def fw_take_def fw_send_def fw_notify_def
    sendWait_def set_fw_def Let_def case_prod_beta
    split: if_splits option.splits list.splits dest!: writer_stepD\<close>)

text \<open>Whatever the relay sends and however the goroutines interleave.\<close>

lemma frame_run:
  assumes "modes_in P w" "list_all (event_modes_in P) evs"
  shows "reg_frame K (aReg w) (aReg (foldl agent_turn w evs))"
  using assms
proof (induction evs arbitrary: w)
  case (Cons ev evs)
  show ?case
  proof (cases "agent_step w ev")
    case (Some w')
    then have "modes_in P w'" "reg_frame K (aReg w) (aReg w')"
      using Cons.prems step_modes frame_step by auto
    with Some Cons.IH [of w'] Cons.prems show ?thesis by (auto simp: agent_turn_def intro: frame_trans)
  qed (use Cons in \<open>simp add: agent_turn_def\<close>)
qed (simp add: frame_same)

end

section \<open>The two policies\<close>

text \<open>Neither read-only nor any unknown mode: nothing a terminal is given changes.\<close>

interpretation readonly_policy:
  input_policy "\<lambda>m. m \<noteq> ModeFull \<and> m \<noteq> ModeApproved" "\<lambda>t t'. remote_view t' = remote_view t"
  by unfold_locales (auto simp: inputAllowed_def resizeAllowed_def)

definition only_approved :: "'cb terminal \<Rightarrow> 'cb terminal \<Rightarrow> bool" where
  "only_approved t t' \<longleftrightarrow>
     (\<exists>ds. written_of t' = written_of t @ ds \<and> set ds \<subseteq> set approvedSequences)"

lemma approved_untouched: "isApproved d \<Longrightarrow> transformInput tr d = d"
  by (auto simp: isApproved_iff approvedSequences_def transformInput_def)

lemma only_approved_write: "isApproved d \<Longrightarrow> only_approved t (fst (term_Write ok t d))"
  by (cases t)
    (auto simp: only_approved_def pty_Write_def Let_def approved_untouched isApproved_iff case_prod_beta)

lemma only_approved_resize: "only_approved t (fst (term_Resize ok t c r))"
  by (cases t) (auto simp: only_approved_def pty_Resize_def case_prod_beta)

lemma only_approved_trans: "only_approved t t' \<Longrightarrow> only_approved t' t'' \<Longrightarrow> only_approved t t''"
  unfolding only_approved_def by (metis append.assoc le_sup_iff set_append)

lemma only_approved_same: "remote_view t = remote_view t' \<Longrightarrow> only_approved t t'"
  using remote_view_written [of t t'] by (simp add: only_approved_def)

interpretation approved_policy: input_policy "\<lambda>m. m \<noteq> ModeFull" only_approved
  using only_approved_write
  by unfold_locales
    (auto simp: inputAllowed_def only_approved_resize only_approved_same split: if_splits
      intro: only_approved_trans)

section \<open>Properties\<close>

text \<open>
  C5. A connection without a full or approved-only session is read-only: whatever messages the relay
  sends, and however the goroutines interleave, no terminal gets a byte of input or a new window size.
  Missing and unknown modes count as read-only.
\<close>

theorem agent_readonly:
  assumes "modes_in (\<lambda>m. m \<noteq> ModeFull \<and> m \<noteq> ModeApproved) w"
    and "list_all (event_modes_in (\<lambda>m. m \<noteq> ModeFull \<and> m \<noteq> ModeApproved)) evs"
    and "t < length (terms (aReg w))"
  shows "remote_view (term_at (aReg (foldl agent_turn w evs)) t) = remote_view (term_at (aReg w) t)"
  using readonly_policy.frame_run [OF assms(1,2)] assms(3) by (simp add: reg_frame_def)

lemma demo_modes_in: "P m \<Longrightarrow> modes_in P (demo_attached m)"
  by (simp add: modes_in_def all_values_def demo_attached_facts demo_lazy_def)

theorem agent_readonly_witness:
  "remote_view (term_at (aReg (foldl agent_turn (demo_attached ModeReadonly)
       [EvServer demo_env (demo_msg ''input'' ''eQ0=''), EvServer demo_env (demo_msg ''resize'' [])])) 0) =
   remote_view (term_at (aReg (demo_attached ModeReadonly)) 0)"
  by (rule agent_readonly) (simp_all add: demo_modes_in demo_attached_facts)

text \<open>
  C6. Approved-only sessions: if no session is in full mode, everything the relay ever makes the agent
  write to a terminal, also to one started meanwhile, is one of the approved sequences, byte for byte.
\<close>

theorem agent_approved_only:
  assumes "modes_in (\<lambda>m. m \<noteq> ModeFull) w"
    and "list_all (event_modes_in (\<lambda>m. m \<noteq> ModeFull)) evs"
    and "t < length (terms (aReg (foldl agent_turn w evs)))"
  shows "\<exists>ds. set ds \<subseteq> set approvedSequences \<and>
    written_of (term_at (aReg (foldl agent_turn w evs)) t) =
      (if t < length (terms (aReg w)) then written_of (term_at (aReg w) t) else []) @ ds"
  using approved_policy.frame_run [OF assms(1,2)] assms(3)
  by (cases "t < length (terms (aReg w))") (fastforce simp: reg_frame_def only_approved_def)+

theorem agent_approved_only_witness:
  "\<exists>ds. set ds \<subseteq> set approvedSequences \<and>
    written_of (term_at (aReg (foldl agent_turn (demo_attached ModeApproved)
       [EvServer demo_env (demo_msg ''input'' ''eQ0='')])) 0) =
    written_of (term_at (aReg (demo_attached ModeApproved)) 0) @ ds"
proof -
  have "length (terms (aReg (handle_input e w m))) = length (terms (aReg w))" for e w m
    by (simp add: handle_input_def set_term_def split: option.split)
  then have "0 < length (terms (aReg (foldl agent_turn (demo_attached ModeApproved)
      [EvServer demo_env (demo_msg ''input'' ''eQ0='')])))"
    using demo_attached_facts by (simp add: agent_turn_def handleServerMsg_def demo_msg_def)
  with agent_approved_only [OF _ _ this] show ?thesis
    by (simp add: demo_modes_in demo_attached_facts)
qed

text \<open>
  C7. Attaching never disturbs a running session: whatever the modes and the window size in the request,
  \<^verbatim>\<open>client_attach\<close> leaves the input and the window size of every existing terminal alone.
\<close>

theorem attach_never_resizes:
  assumes "rType msg = ''client_attach''" "handleServerMsg e w msg = Some w'" "t < length (terms (aReg w))"
  shows "remote_view (term_at (aReg w') t) = remote_view (term_at (aReg w) t)"
  using readonly_policy.frame_handle_attach [of e w msg w'] assms
  by (simp add: handleServerMsg_def reg_frame_def)

theorem attach_never_resizes_witness:
  "\<exists>w'. handleServerMsg demo_env (demo_attached ModeFull) (demo_msg ''client_attach'' []) = Some w' \<and>
     remote_view (term_at (aReg w') 0) = remote_view (term_at (aReg (demo_attached ModeFull)) 0)"
proof -
  have "finishIfEnded (demo_attached ModeFull) ''s'' = Some (demo_attached ModeFull)"
    by (simp add: finishIfEnded_def demo_attached_facts)
  then obtain w' where w': "handleServerMsg demo_env (demo_attached ModeFull) (demo_msg ''client_attach'' []) = Some w'"
    by (simp add: handleServerMsg_def handle_attach_def demo_msg_def Let_def case_prod_beta)
  with attach_never_resizes [OF _ w', of 0] show ?thesis
    by (simp add: demo_msg_def demo_attached_facts)
qed

end
