(* ===== verification/Agent_Forward.thy ===== *)
theory Agent_Forward
  imports Agent_Input
begin

text \<open>
  What reaches the relay: the messages of a forwarder through \<^verbatim>\<open>sendCh\<close> to the wire.
\<close>

section \<open>From a forwarder to the wire\<close>

definition from_fw :: "fid \<Rightarrow> (fid option \<times> agent_msg) list \<Rightarrow> agent_msg list" where
  "from_fw f xs = map snd (filter (\<lambda>x. fst x = Some f) xs)"

lemma from_fw_simps [simp]:
  "from_fw f [] = []" "from_fw f (xs @ ys) = from_fw f xs @ from_fw f ys"
  "from_fw f [(None, m)] = []" "from_fw f [(Some f, m)] = [m]" "g \<noteq> f \<Longrightarrow> from_fw f [(Some g, m)] = []"
  by (simp_all add: from_fw_def)

text \<open>Everything handed to the writer that it has sent or may still send: it stops when the connection is lost.\<close>

definition outbound :: "agent \<Rightarrow> (fid option \<times> agent_msg) list" where
  "outbound w = aWire w @ (if aDone w then [] else queue (aSend w))"

lemma outbound_update [simp]:
  "outbound (w\<lparr>aLazy := x\<rparr>) = outbound w" "outbound (w\<lparr>aModes := ms\<rparr>) = outbound w"
  "outbound (w\<lparr>aFwMap := fm\<rparr>) = outbound w" "outbound (w\<lparr>aAvail := x\<rparr>) = outbound w"
  "outbound (w\<lparr>aEnded := ch\<rparr>) = outbound w" "outbound (w\<lparr>aReg := r\<rparr>) = outbound w"
  "outbound (w\<lparr>aChs := chs\<rparr>) = outbound w" "outbound (w\<lparr>aFws := fws\<rparr>) = outbound w"
  by (simp_all add: outbound_def)

definition owed_msgs :: "forwarder \<Rightarrow> agent_msg list" where
  "owed_msgs fw = concat (map (event_msgs (fID fw)) (fTaken fw))"

definition wire_inv :: "agent \<Rightarrow> bool" where
  "wire_inv w \<longleftrightarrow>
     (\<forall>x \<in> set (outbound w). \<forall>f. fst x = Some f \<longrightarrow> f < length (aFws w)) \<and>
     (\<forall>f < length (aFws w).
        prefix (from_fw f (outbound w)) (owed_msgs (aFws w ! f)) \<and>
        (\<not> aDone w \<longrightarrow> from_fw f (outbound w) @ fOut (aFws w ! f) = owed_msgs (aFws w ! f)))"

lemma sendSnapshot_all:
  "sendSnapshot (\<lambda>q m. (q @ [m], True)) q sid cid d = q @ snapshot_msgs sid cid d"
proof -
  have "(case send_chunks (\<lambda>q m. (q @ [m], True)) sid cid q sq d of
      (s2, None) \<Rightarrow> s2 | (s2, Some x) \<Rightarrow> s2 @ [snapshot_end sid cid x]) = q @ chunk_msgs sid cid sq d" for q sq
  proof (induction sid cid sq d arbitrary: q rule: chunk_msgs.induct)
    case (1 sid cid sq d)
    then show ?case by (cases "d = []") (simp_all add: chunk_unfold)
  qed
  from this [of "q @ [snapshot_start sid cid (length d)]" 0] show ?thesis
    by (simp add: sendSnapshot_def snapshot_msgs_def split: prod.splits option.splits)
qed

text \<open>The main loop adds messages of its own, or closes the connection, which drops what the writer has not sent.\<close>

definition main_sends :: "agent \<Rightarrow> agent \<Rightarrow> bool" where
  "main_sends w w' \<longleftrightarrow> aFws w' = aFws w \<and> (aDone w \<longrightarrow> aDone w') \<and>
     (\<forall>x \<in> set (outbound w'). x \<in> set (outbound w) \<or> fst x = None) \<and>
     (\<forall>f. prefix (from_fw f (outbound w')) (from_fw f (outbound w)) \<and>
        (\<not> aDone w' \<longrightarrow> from_fw f (outbound w') = from_fw f (outbound w)))"

lemma main_sends_refl: "aFws w' = aFws w \<Longrightarrow> aDone w' = aDone w \<Longrightarrow> outbound w' = outbound w \<Longrightarrow> main_sends w w'"
  by (auto simp: main_sends_def)

lemma main_sends_trans: "main_sends w w' \<Longrightarrow> main_sends w' w'' \<Longrightarrow> main_sends w w''"
  unfolding main_sends_def by (metis prefix_order.trans)

lemma main_sends_send: "main_sends w (send_msg w m)"
  unfolding main_sends_def
  by (cases "aDone w") (auto simp: send_msg_def closeConnection_def chan_try_send_def outbound_def split: option.split)

lemma from_fw_None [simp]: "from_fw f (map (Pair None) ms) = []"
  by (auto simp: from_fw_def filter_empty_conv)

lemma wire_inv_main: "wire_inv w \<Longrightarrow> main_sends w w' \<Longrightarrow> wire_inv w'"
  unfolding wire_inv_def main_sends_def by (metis option.distinct(1) prefix_order.trans)

lemma main_sends_sessions:
  "main_sends w (sendSessionAdd w ls a c r)" "main_sends w (sendSessionRemove w s)"
  "main_sends w (send_empty_snapshot w s cl)"
  by (auto simp: sendSessionAdd_def sendSessionRemove_def empty_snapshot_sends
      intro: main_sends_send main_sends_trans)

lemma main_sends_reject: "main_sends w (rejectAttach w ls c)"
  unfolding rejectAttach_def using main_sends_sessions main_sends_trans by metis

lemma main_sends_close: "main_sends w (closeConnection w e)"
  by (auto simp: main_sends_def closeConnection_def outbound_def)

lemma main_sends_request: "main_sends w (requestSnapshot w s c)"
  by (auto simp: requestSnapshot_def Let_def case_prod_beta main_sends_sessions main_sends_close outbound_def
      split: option.split intro: main_sends_refl)

lemma main_sends_update:
  "main_sends w w' \<Longrightarrow> main_sends w (w'\<lparr>aLazy := x\<rparr>)" "main_sends w w' \<Longrightarrow> main_sends w (w'\<lparr>aModes := ms\<rparr>)"
  "main_sends (w\<lparr>aLazy := x\<rparr>) w' \<longleftrightarrow> main_sends w w'" "main_sends (w\<lparr>aModes := ms\<rparr>) w' \<longleftrightarrow> main_sends w w'"
  "main_sends (w\<lparr>aFwMap := fm\<rparr>) w' \<longleftrightarrow> main_sends w w'" "main_sends (w\<lparr>aAvail := x\<rparr>) w' \<longleftrightarrow> main_sends w w'"
  "main_sends (w\<lparr>aEnded := c\<rparr>) w' \<longleftrightarrow> main_sends w w'" "main_sends (w\<lparr>aReg := rg, aChs := chs\<rparr>) w' \<longleftrightarrow> main_sends w w'"
  by (simp_all add: main_sends_def)

lemma main_sends_remove_add:
  "main_sends w (sendSessionAdd ((sendSessionRemove w s)\<lparr>aLazy := x\<rparr>) ls a c r)"
  using main_sends_sessions(1) [of "(sendSessionRemove w s)\<lparr>aLazy := x\<rparr>" ls a c r]
    main_sends_sessions(2) [of w s] main_sends_trans by (simp only: main_sends_update)

lemma main_sends_finish: "finishSession w f = Some w' \<Longrightarrow> main_sends w w'"
  using main_sends_sessions(2) [of "w\<lparr>aFwMap := fm, aModes := ms\<rparr>" for fm ms]
    main_sends_remove_add [of "w\<lparr>aFwMap := fm, aModes := ms\<rparr>" for fm ms]
  by (auto simp: finishSession_def Let_def restoreLazySession_def main_sends_update main_sends_refl
      split: if_splits option.splits)

lemma wire_inv_start:
  assumes "wire_inv w" shows "wire_inv (startForwarder w sid)"
proof (cases "reg_Get (aReg w) sid")
  case (Some t)
  have new: "from_fw (length (aFws w)) (outbound w) = []"
    using assms by (fastforce simp: wire_inv_def from_fw_def filter_empty_conv)
  have out: "outbound (startForwarder w sid) = outbound w" by (simp add: outbound_def)
  show ?thesis
    using assms new unfolding wire_inv_def out
    by (fastforce simp: startForwarder_def Some Let_def nth_append owed_msgs_def less_Suc_eq)
qed (use assms in \<open>simp add: startForwarder_def\<close>)

lemma main_sends_activate: "main_sends w (early_end e (fst (lazy_activate e' w ls c r)) s)"
  "main_sends w (fst (lazy_activate e' w ls c r))"
  by (auto intro!: main_sends_refl simp: outbound_def)

lemma wire_inv_attach:
  assumes "wire_inv w" shows "wire_inv (fst (attach_activate e w msg))"
proof -
  let ?w2 = "\<lambda>ls c r. (early_end e (fst (lazy_activate e w ls c r)) (lID ls))"
  have start: "wire_inv (startForwarder ((?w2 ls c r)\<lparr>aModes := ms\<rparr>) sid)" for ls c r ms sid
    by (rule wire_inv_start, rule wire_inv_main [OF assms])
      (simp add: main_sends_update main_sends_activate)
  have go: "wire_inv ((sendSessionAdd (startForwarder ((?w2 ls c r)\<lparr>aModes := ms\<rparr>) sid) ls a c' r')\<lparr>aLazy := x\<rparr>)"
    for ls c r ms sid a c' r' x
    by (rule wire_inv_main [OF start [of ms ls c r sid]]) (simp add: main_sends_update main_sends_sessions)
  have "wire_inv (rejectAttach (fst (lazy_activate e w ls c r)) ls cl)" for ls c r cl
    using wire_inv_main [OF assms] main_sends_activate(2) main_sends_reject main_sends_trans by blast
  moreover have "wire_inv (w\<lparr>aLazy := x\<rparr>)" for x
    by (rule wire_inv_main [OF assms]) (simp add: main_sends_refl outbound_def)
  ultimately show ?thesis
    using assms go by (simp add: attach_activate_def Let_def case_prod_beta split: option.split)
qed

lemma wire_inv_handle:
  assumes "wire_inv w" "handleServerMsg e w msg = Some w'" shows "wire_inv w'"
proof (cases "rType msg = ''client_attach''")
  case True
  then obtain w1 where w1: "finishIfEnded w (rSessionID msg) = Some w1"
    and w': "w' = (let (w2, go_on) = attach_activate e w1 msg in
      if go_on then requestSnapshot w2 (rSessionID msg) (rClientID msg) else w2)"
    using assms by (auto simp: handleServerMsg_def handle_attach_def Let_def split: option.splits prod.splits)
  have "main_sends w w1"
    using w1 main_sends_finish by (auto simp: finishIfEnded_def main_sends_refl split: option.splits)
  then have "wire_inv (fst (attach_activate e w1 msg))" by (rule wire_inv_attach [OF wire_inv_main [OF assms(1)]])
  then show ?thesis
    using wire_inv_main main_sends_request by (auto simp: w' Let_def case_prod_beta)
next
  case False
  have "main_sends w w'"
    using False assms(2)
    by (auto simp: handleServerMsg_def handle_input_def handle_resize_def outbound_def main_sends_refl
        split: if_splits option.splits)
  then show ?thesis by (rule wire_inv_main [OF assms(1)])
qed

lemma wire_inv_take:
  assumes "wire_inv w" "fw_take w f = Some w'" shows "wire_inv w'"
proof -
  obtain ev c where f: "f < length (aFws w)" "fOut (aFws w ! f) = []"
    and w': "w' = set_fw (w\<lparr>aChs := (aChs w)(f := c)\<rparr>) f
      ((aFws w ! f)\<lparr>fOut := event_msgs (fID (aFws w ! f)) ev, fTaken := fTaken (aFws w ! f) @ [ev]\<rparr>)"
    using assms(2) by (auto simp: fw_take_def Let_def split: if_splits option.splits)
  show ?thesis
    using assms(1) f unfolding wire_inv_def
    by (auto simp: w' set_fw_def outbound_def owed_msgs_def nth_list_update intro: prefix_prefix)
qed

lemma wire_inv_queue:
  assumes inv: "wire_inv w" and "fw_send w f = Some w'" shows "wire_inv w'"
proof -
  let ?fw = "aFws w ! f"
  obtain m ms where f: "f < length (aFws w)" "fOut ?fw = m # ms"
    using assms(2) by (auto simp: fw_send_def Let_def split: if_splits list.splits)
  show ?thesis
  proof (cases "aDone w")
    case True
    then have "w' = set_fw w f (?fw\<lparr>fOut := []\<rparr>)"
      using assms(2) f by (auto simp: fw_send_def sendWait_def Let_def split: if_splits)
    with inv True f show ?thesis
      unfolding wire_inv_def by (auto simp: set_fw_def outbound_def owed_msgs_def nth_list_update)
  next
    case False
    then have w': "w' = set_fw (w\<lparr>aSend := (aSend w)\<lparr>queue := queue (aSend w) @ [(Some f, m)]\<rparr>\<rparr>) f (?fw\<lparr>fOut := ms\<rparr>)"
      using assms(2) f
      by (auto simp: fw_send_def sendWait_def chan_try_send_def Let_def split: if_splits)
    then have out: "outbound w' = outbound w @ [(Some f, m)]" by (simp add: outbound_def set_fw_def False)
    have eq: "from_fw f (outbound w) @ m # ms = owed_msgs ?fw" using inv f False by (auto simp: wire_inv_def)
    then have "prefix (from_fw f (outbound w) @ [m]) (owed_msgs ?fw)" by (metis append_Cons append_Nil append_assoc prefixI)
    with inv eq f False show ?thesis
      unfolding wire_inv_def out
      by (auto simp: w' set_fw_def owed_msgs_def nth_list_update split: if_splits)
  qed
qed

lemma wire_inv_same_fw:
  assumes inv: "wire_inv w" and "outbound w' = outbound w" "aDone w' = aDone w"
    and fws: "aFws w' = (aFws w)[f := fw]"
    and fw: "fID fw = fID (aFws w ! f)" "fTaken fw = fTaken (aFws w ! f)" "fOut fw = fOut (aFws w ! f)"
  shows "wire_inv w'"
proof -
  have "owed_msgs (aFws w' ! g) = owed_msgs (aFws w ! g) \<and> fOut (aFws w' ! g) = fOut (aFws w ! g)"
    if "g < length (aFws w)" for g
    using that by (cases "g = f") (auto simp: fws fw owed_msgs_def)
  with inv show ?thesis by (simp add: wire_inv_def assms(2,3) fws)
qed

text \<open>The turns that neither belong to a forwarder nor start one.\<close>

lemma main_sends_change: "main_sends w (handle_change w c)"
  using main_sends_sessions(1) [of "w\<lparr>aAvail := x, aLazy := y\<rparr>" for x y]
    main_sends_sessions(2) [of "w\<lparr>aLazy := x, aAvail := y, aModes := z\<rparr>" for x y z]
  by (auto simp: handle_change_def Let_def main_sends_update main_sends_refl split: option.split)

lemma main_sends_writer: "writer_step w wake = Some w' \<Longrightarrow> main_sends w w'"
  by (auto simp: main_sends_close main_sends_refl dest!: writer_stepD)
    (auto simp: main_sends_def chan_try_recv_def outbound_def split: list.splits)

lemma main_sends_output: "output_step w t d r = Some w' \<Longrightarrow> main_sends w w'"
proof -
  have "main_sends w (foldl closeConnection w es)" for w es
    by (induction es arbitrary: w) (auto intro: main_sends_refl main_sends_trans main_sends_close)
  then show "output_step w t d r = Some w' \<Longrightarrow> main_sends w w'"
    by (auto simp: output_step_def Let_def case_prod_beta split: if_splits) (metis main_sends_update(8))
qed

lemma main_sends_ended: "agent_step w EvEnded = Some w' \<Longrightarrow> main_sends w w'"
  by (auto split: option.splits dest!: main_sends_finish simp: main_sends_update)

lemma main_sends_outside:
  "agent_step w (EvTermEnd t) = Some w' \<Longrightarrow> main_sends w w'"
  "agent_step w (EvCleanup k) = Some w' \<Longrightarrow> main_sends w w'"
  "agent_step w (EvRemove sid) = Some w' \<Longrightarrow> main_sends w w'"
  by (auto simp: outbound_def main_sends_refl simp del: reg_step.simps split: if_splits)

lemmas main_turns = main_sends_change main_sends_writer main_sends_output main_sends_ended main_sends_outside main_sends_close

lemma wire_inv_leave:
  "wire_inv w \<Longrightarrow> fw_stop w f = Some w' \<Longrightarrow> wire_inv w'" "wire_inv w \<Longrightarrow> fw_notify w f = Some w' \<Longrightarrow> wire_inv w'"
  by (auto simp: fw_stop_def fw_notify_def set_fw_def Let_def outbound_def split: if_splits intro!: wire_inv_same_fw [of w])

lemma wire_inv_step:
  assumes "wire_inv w" "agent_step w ev = Some w'" shows "wire_inv w'"
proof (cases ev)
  case (EvServer e msg)
  with assms wire_inv_handle show ?thesis by simp
next
  case (EvTake f)
  with assms wire_inv_take show ?thesis by simp
next
  case (EvQueue f)
  with assms wire_inv_queue show ?thesis by simp
next
  case (EvStop f)
  with assms wire_inv_leave(1) show ?thesis by simp
next
  case (EvNotify f)
  with assms wire_inv_leave(2) show ?thesis by simp
qed (use assms main_turns in \<open>auto simp del: reg_step.simps intro: wire_inv_main\<close>)

lemma wire_inv_turn: "wire_inv w \<Longrightarrow> wire_inv (agent_turn w ev)"
  by (auto simp: agent_turn_def split: option.split intro: wire_inv_step)

interpretation wire_machine: invariant_machine agent_turn wire_inv
  by unfold_locales (rule wire_inv_turn)

lemma wire_inv_advertise:
  assumes "wire_inv w" shows "wire_inv (advertise e w ls)"
proof -
  let ?w = "w\<lparr>aAvail := AList.update (lID ls) ls (aAvail w)\<rparr>"
  have w1: "wire_inv ((early_end e ?w s)\<lparr>aModes := ms\<rparr>)" for s ms
    by (rule wire_inv_main [OF assms]) (simp add: main_sends_refl outbound_def)
  have w2: "main_sends w ((sendSessionAdd ?w ls a c r)\<lparr>aLazy := x\<rparr>)" for a c r x
    using main_sends_sessions(1) [of ?w ls a c r] by (simp add: main_sends_update)
  show ?thesis
    using wire_inv_main [OF wire_inv_start [OF w1] main_sends_sessions(1)] wire_inv_main [OF assms w2]
    by (simp add: advertise_def Let_def)
qed

lemma wire_inv_connect: "wire_inv (agent_connect e r lazy)"
proof -
  have "wire_inv w \<Longrightarrow> wire_inv (foldl (advertise e) w lazy)" for w
    by (induction lazy arbitrary: w) (auto intro: wire_inv_advertise)
  then show ?thesis by (simp add: agent_connect_def agent_New_def wire_inv_def outbound_def chan_make_def)
qed

text \<open>
  The wire carries a session's stream exactly.  In every run of a connection, what a forwarder has put
  on the wire is a prefix of the messages of the events it took off its channel, in order: an output
  message per output, a whole uninterrupted batch per snapshot.  While the connection is open nothing is
  missing: the wire, the outbound queue and the forwarder's hands together hold exactly these messages.
\<close>

lemma wire_carries_stream:
  assumes w: "w = foldl agent_turn (agent_connect e r lazy) evs" and "f < length (aFws w)"
  shows "prefix (from_fw f (aWire w)) (owed_msgs (aFws w ! f)) \<and>
    (\<not> aDone w \<longrightarrow> from_fw f (aWire w @ queue (aSend w)) @ fOut (aFws w ! f) = owed_msgs (aFws w ! f))"
proof -
  have "wire_inv w" unfolding w by (rule wire_machine.run_inv) (rule wire_inv_connect)
  with assms(2) show ?thesis
    by (auto simp: wire_inv_def outbound_def dest: append_prefixD)
qed

end
