(* ===== verification/Agent_Attach.thy ===== *)
theory Agent_Attach
  imports Agent_Forward
begin

text \<open>
  An advertised session stays attachable: the invariant that links the catalog, the lazy entries, the
  forwarders and the registry while a connection is open.
\<close>

section \<open>Registry changes that only end sessions\<close>

definition reg_shrinks :: "'cb registry \<Rightarrow> 'cb registry \<Rightarrow> bool" where
  "reg_shrinks r r' \<longleftrightarrow> length (terms r') = length (terms r) \<and>
     (\<forall>sid t. reg_Get r' sid = Some t \<longrightarrow> reg_Get r sid = Some t) \<and>
     (\<forall>t. term_Done (term_at r t) \<longrightarrow> term_Done (term_at r' t))"

lemma shrinks_refl: "reg_shrinks r r"
  by (simp add: reg_shrinks_def)

lemma shrinks_trans: "reg_shrinks r r' \<Longrightarrow> reg_shrinks r' r'' \<Longrightarrow> reg_shrinks r r''"
  by (simp add: reg_shrinks_def)

lemma shrinks_set_term:
  assumes "term_Done (term_at r t) \<longrightarrow> term_Done x" shows "reg_shrinks r (set_term r t x)"
proof -
  have "term_Done (term_at r u) \<longrightarrow> term_Done (term_at (set_term r t x) u)" for u
    using assms by (cases "u = t"; cases "t < length (terms r)")
      (auto simp: set_term_def term_at_def list_update_beyond)
  then show ?thesis
    by (auto simp: reg_shrinks_def reg_Get_def reg_alive_def set_term_def split: option.splits if_splits)
qed

lemma shrinks_drop: "reg_shrinks r (drop_entry r sid e)"
  by (auto simp: reg_shrinks_def reg_Get_def reg_alive_def term_at_def AList.delete_conv'
      split: option.splits if_splits)

lemma shrinks_close: "reg_shrinks r (close_term r t)"
  unfolding close_term_def by (rule shrinks_set_term) simp

lemma shrinks_Remove: "reg_shrinks r (reg_Remove r sid)"
  by (auto simp: reg_Remove_def shrinks_refl split: option.split intro: shrinks_trans [OF shrinks_drop shrinks_close])

lemma shrinks_cleanup: "reg_shrinks r (reg_step r (RCleanup k))"
proof -
  have "reg_shrinks r (run_cleanup r c)" for c
    by (auto simp: run_cleanup_def forgetWhenDone_def shrinks_refl shrinks_drop split: option.split)
  moreover have "reg_shrinks r' (r'\<lparr>cleanups := cs\<rparr>)" for r' :: "'cb registry" and cs
    by (simp add: reg_shrinks_def reg_Get_def reg_alive_def term_at_def cong: option.case_cong)
  ultimately have "reg_shrinks r ((run_cleanup r c)\<lparr>cleanups := cs\<rparr>)" for c cs
    using shrinks_trans by blast
  then show ?thesis by (simp add: shrinks_refl)
qed

section \<open>Activation\<close>

definition reg_range :: "'cb registry \<Rightarrow> bool" where
  "reg_range r \<longleftrightarrow> (\<forall>sid e. map_of (entries r) sid = Some e \<longrightarrow> eSession e < length (terms r))"

lemma range_ops:
  "reg_range r \<Longrightarrow> reg_range (set_term r t x)" "reg_range r \<Longrightarrow> reg_range (reg_Remove r sid)"
  "reg_range r \<Longrightarrow> reg_range (reg_step r (RCleanup k))"
  by (auto simp: reg_range_def set_term_def reg_Remove_def close_term_def run_cleanup_def forgetWhenDone_def
      AList.delete_conv' split: option.splits if_splits)

text \<open>Activating a session makes it running and leaves the others as they were or ended.\<close>

definition extends :: "'cb registry \<Rightarrow> 'cb registry \<Rightarrow> string \<Rightarrow> bool" where
  "extends r r' sid \<longleftrightarrow> reg_range r' \<and>
     (\<forall>s t. s \<noteq> sid \<longrightarrow> reg_Get r' s = Some t \<longrightarrow> reg_Get r s = Some t) \<and>
     (\<forall>t < length (terms r). term_Done (term_at r t) \<longrightarrow> term_Done (term_at r' t)) \<and>
     length (terms r) \<le> length (terms r')"

definition activates :: "'cb registry \<Rightarrow> 'cb registry \<Rightarrow> string \<Rightarrow> bool" where
  "activates r r' sid \<longleftrightarrow> extends r r' sid \<and> reg_Get r' sid \<noteq> None"

lemma extends_shrink: "extends r r' sid \<Longrightarrow> reg_shrinks r' r'' \<Longrightarrow> reg_range r'' \<Longrightarrow> extends r r'' sid"
  by (auto simp: extends_def reg_shrinks_def)

lemma activates_put:
  assumes "reg_range r" "terms r' = terms r @ xs" "entries r' = AList.update sid e (entries r)"
    and "eSession e < length (terms r')" "\<not> term_Done (term_at r' (eSession e))"
  shows "activates r r' sid"
  using assms
  by (auto simp: activates_def extends_def reg_range_def reg_Get_def reg_alive_def term_at_def AList.update_conv' nth_append
      split: option.splits if_splits intro: trans_less_add1)

lemma activates_CreateWithID:
  fixes r :: "'cb registry"
  assumes range: "reg_range r"
    and "reg_CreateWithID r ok n sid cmd args c rs = (r', Some x)"
  shows "activates r r' sid"
proof (cases "if sourceKey cmd args \<noteq> [] then liveSourceLocked r (sourceKey cmd args) else None")
  case (Some e)
  then have "eSession e < length (terms r)" "reg_alive r (eSession e)"
    using range by (auto simp: liveSourceLocked_def reg_range_def split: if_splits option.splits)
  with Some assms show ?thesis
    by (intro activates_put [where xs = "[]"])
      (auto simp: reg_CreateWithID_def reg_alias_def reg_put_def reg_alive_def term_at_def)
next
  case None
  then show ?thesis
    using assms
    by (intro activates_put [where xs = "[PtyTerm (the (pty_New ok cmd c rs))]"])
      (auto simp: reg_CreateWithID_def reg_spawn_def pty_New_def new_term_def reg_put_def term_at_def Let_def
        split: if_splits)
qed

lemma activates_Add:
  assumes range: "reg_range r" and "\<not> term_Done x"
  shows "activates r (fst (reg_Add (fst (new_term r x)) n sid cmd (length (terms r)))) sid"
proof -
  let ?r1 = "reg_put (fst (new_term r x)) sid
    \<lparr>eInfo = \<lparr>iID = sid, iCmd = cmd, iCreated = n, iMode = []\<rparr>, eSession = length (terms r), eSource = []\<rparr>"
  have act: "activates r ?r1 sid"
    using assms by (intro activates_put [where xs = "[x]"]) (auto simp: new_term_def reg_put_def term_at_def)
  have "activates r (close_term ?r1 t) sid" if "t \<noteq> length (terms r)" for t
  proof -
    have "reg_shrinks ?r1 (close_term ?r1 t)" by (rule shrinks_close)
    moreover have "reg_Get (close_term ?r1 t) sid = Some (length (terms r))"
      using that assms(2)
      by (simp add: reg_Get_def reg_put_def new_term_def close_term_def set_term_def reg_alive_def term_at_def
          AList.update_conv')
    ultimately show ?thesis
      using act range_ops(1) [of ?r1 t] extends_shrink [of r ?r1 sid "close_term ?r1 t"]
      by (simp add: activates_def close_term_def) (simp add: extends_def)
  qed
  with act show ?thesis by (auto simp: reg_Add_def Let_def split: option.split)
qed

lemma activate_activates:
  assumes "reg_range (aReg w)" "lazy_activate e w ls c r = (w', True)"
  shows "activates (aReg w) (aReg w') (lID ls)"
  using assms activates_CreateWithID [OF assms(1)]
    activates_Add [OF assms(1), of "FakeTerm (fake_NewSession c r)" "now e" "lID ls"]
  by (auto simp: lazy_activate_def Let_def case_prod_beta new_term_def fake_NewSession_def
      prod_eq_iff split: activation.splits if_splits)

section \<open>The invariant\<close>

definition keyed :: "(string \<times> lazy_session) list \<Rightarrow> bool" where
  "keyed xs \<longleftrightarrow> (\<forall>(sid, ls) \<in> set xs. lID ls = sid)"

definition forwarders_ok :: "agent \<Rightarrow> bool" where
  "forwarders_ok w \<longleftrightarrow>
     (\<forall>sid f. map_of (aFwMap w) sid = Some f \<longrightarrow>
        f < length (aFws w) \<and> fID (aFws w ! f) = sid \<and>
        (\<forall>t. reg_Get (aReg w) sid = Some t \<longrightarrow> fTerm (aFws w ! f) = t)) \<and>
     (\<forall>f < length (aFws w). fTerm (aFws w ! f) < length (terms (aReg w)) \<and>
        (fExited (aFws w ! f) \<longrightarrow> term_Done (term_at (aReg w) (fTerm (aFws w ! f)))))"

definition entries_ok :: "agent \<Rightarrow> bool" where
  "entries_ok w \<longleftrightarrow> keyed (aLazy w) \<and> keyed (aAvail w)"

definition lazy_ok :: "agent \<Rightarrow> bool" where
  "lazy_ok w \<longleftrightarrow>
     (\<forall>sid. map_of (aAvail w) sid \<noteq> None \<longrightarrow> map_of (aLazy w) sid \<noteq> None \<or> map_of (aFwMap w) sid \<noteq> None) \<and>
     (\<forall>sid. map_of (aLazy w) sid \<noteq> None \<longrightarrow> reg_Get (aReg w) sid \<noteq> None \<longrightarrow> map_of (aFwMap w) sid \<noteq> None)"

text \<open>\<open>lazy_ok\<close> holds in the runs with \<open>L\<close>, those with a tame outside (see \<open>tame_event\<close>); the rest holds in every run.\<close>

definition attach_inv :: "bool \<Rightarrow> agent \<Rightarrow> bool" where
  "attach_inv L w \<longleftrightarrow> aDone w \<or> (reg_range (aReg w) \<and> forwarders_ok w \<and> entries_ok w \<and> (L \<longrightarrow> lazy_ok w))"

text \<open>The parts of the state the invariant reads; messages do not touch them.\<close>

definition same_maps :: "agent \<Rightarrow> agent \<Rightarrow> bool" where
  "same_maps w w' \<longleftrightarrow> aReg w' = aReg w \<and> aLazy w' = aLazy w \<and> aAvail w' = aAvail w \<and> aFwMap w' = aFwMap w \<and>
     aFws w' = aFws w \<and> (aDone w \<longrightarrow> aDone w')"

lemma attach_inv_same: "attach_inv L w \<Longrightarrow> same_maps w w' \<Longrightarrow> attach_inv L w'"
  by (auto simp: attach_inv_def same_maps_def forwarders_ok_def lazy_ok_def entries_ok_def)

lemma done_send [simp]: "aDone w \<Longrightarrow> aDone (send_msg w m)"
  by (simp add: send_msg_def split: option.split)

lemma same_maps_sends:
  "same_maps w (sendSessionAdd w ls a c r)" "same_maps w (sendSessionRemove w s)"
  "same_maps w (rejectAttach w ls cl)" "same_maps w (requestSnapshot w s cl)" "same_maps w (closeConnection w e)"
  by (auto simp: same_maps_def sendSessionAdd_def sendSessionRemove_def rejectAttach_def empty_snapshot_sends
      requestSnapshot_def Let_def case_prod_beta split: option.split)

lemma keyed_simps [simp]:
  "keyed xs \<Longrightarrow> keyed (AList.delete s xs)" "keyed xs \<Longrightarrow> keyed (AList.update (lID ls) ls xs)"
  by (auto simp: keyed_def delete_filter dest!: set_update_cases)

lemma keyed_map_of: "keyed xs \<Longrightarrow> map_of xs sid = Some ls \<Longrightarrow> lID ls = sid"
  by (auto simp: keyed_def dest: map_of_SomeD)

lemma attach_inv_shrink:
  assumes "attach_inv L w" "reg_shrinks (aReg w) r" "reg_range (aReg w) \<longrightarrow> reg_range r"
  shows "attach_inv L (w\<lparr>aReg := r\<rparr>)"
proof (cases "aDone w")
  case False
  with assms have "forwarders_ok w" "entries_ok w" "L \<longrightarrow> lazy_ok w" by (simp_all add: attach_inv_def)
  then have "forwarders_ok (w\<lparr>aReg := r\<rparr>)" "entries_ok (w\<lparr>aReg := r\<rparr>)" "L \<longrightarrow> lazy_ok (w\<lparr>aReg := r\<rparr>)"
    using assms(2) by (auto simp: forwarders_ok_def lazy_ok_def entries_ok_def reg_shrinks_def)
  with assms False show ?thesis by (simp add: attach_inv_def)
qed (simp add: attach_inv_def)

lemma get_alive: "reg_Get r sid = Some t \<Longrightarrow> \<not> term_Done (term_at r t)"
  by (auto simp: reg_Get_def reg_alive_def split: option.splits if_splits)

text \<open>Retiring an ended session's forwarder puts the catalog entry back.\<close>

lemma exited_session_ended:
  assumes "forwarders_ok w" "map_of (aFwMap w) sid = Some f" "fExited (aFws w ! f)" shows "reg_Get (aReg w) sid = None"
proof (rule ccontr)
  assume "reg_Get (aReg w) sid \<noteq> None"
  then obtain t where t: "reg_Get (aReg w) sid = Some t" by blast
  have "fTerm (aFws w ! f) = t" "term_Done (term_at (aReg w) (fTerm (aFws w ! f)))"
    using assms t unfolding forwarders_ok_def by blast+
  with get_alive [OF t] show False by simp
qed

definition retire :: "agent \<Rightarrow> string \<Rightarrow> agent" where
  "retire w sid =
     w\<lparr>aFwMap := AList.delete sid (aFwMap w), aModes := AList.delete sid (aModes w),
       aLazy := fst (restoreLazySession sid (aAvail w) (aLazy w))\<rparr>"

lemma attach_inv_retire:
  assumes "attach_inv L w" "reg_Get (aReg w) sid = None" shows "attach_inv L (retire w sid)"
proof (cases "aDone w")
  case False
  with assms have parts: "reg_range (aReg w)" "forwarders_ok w" "entries_ok w" "L \<longrightarrow> lazy_ok w"
    by (auto simp: attach_inv_def)
  have "lID ls = sid" if "map_of (aAvail w) sid = Some ls" for ls
    using that parts(3) keyed_map_of by (auto simp: entries_ok_def)
  then have "entries_ok (retire w sid)"
    using parts(3) by (auto simp: entries_ok_def retire_def restoreLazySession_def keyed_def split: option.split
        dest!: set_update_cases)
  moreover have "forwarders_ok (retire w sid)"
    using parts(2) by (auto simp: forwarders_ok_def retire_def AList.delete_conv')
  moreover have "L \<longrightarrow> lazy_ok (retire w sid)"
    using parts(4) assms(2)
    by (auto simp: lazy_ok_def retire_def restoreLazySession_def AList.delete_conv' AList.update_conv' split: option.split)
  ultimately show ?thesis using parts(1) by (simp add: attach_inv_def retire_def)
qed (simp add: attach_inv_def retire_def)

lemma finishSession_maps:
  assumes "finishSession w f = Some w'"
  shows "w' = w \<or> (map_of (aFwMap w) (fID (aFws w ! f)) = Some f \<and> fExited (aFws w ! f) \<and>
    same_maps (retire w (fID (aFws w ! f))) w')"
  using assms
  by (auto simp: finishSession_def Let_def restoreLazySession_def retire_def same_maps_def sendSessionAdd_def
      sendSessionRemove_def split: if_splits option.splits)

lemma attach_inv_finish:
  assumes inv: "attach_inv L w" and "finishSession w f = Some w'"
  shows "attach_inv L w'"
proof (cases "aDone w")
  case True
  then show ?thesis using main_sends_finish [OF assms(2)] by (simp add: main_sends_def attach_inv_def)
next
  case False
  then have "forwarders_ok w" using inv by (simp add: attach_inv_def)
  with finishSession_maps [OF assms(2)] inv show ?thesis
    using attach_inv_same [OF attach_inv_retire] exited_session_ended by blast
qed

text \<open>Activation gives a session its forwarder.\<close>

lemma done_set_term:
  "term_Done x = term_Done (term_at r t) \<Longrightarrow> term_Done (term_at (set_term r t x) u) = term_Done (term_at r u)"
  by (cases "u = t"; cases "t < length (terms r)") (auto simp: set_term_def term_at_def list_update_beyond)

lemma get_set_term: "term_Done x = term_Done (term_at r t) \<Longrightarrow> reg_Get (set_term r t x) s = reg_Get r s"
  using done_set_term [of x r t] by (auto simp: reg_Get_def reg_alive_def set_term_def split: option.split)

lemma get_range: "reg_range r \<Longrightarrow> reg_Get r s = Some t \<Longrightarrow> t < length (terms r)"
  by (auto simp: reg_range_def reg_Get_def split: option.splits if_splits)

lemma forwarders_ok_extend:
  assumes "forwarders_ok w" "extends (aReg w) (aReg w') sid" "reg_Get (aReg w') sid = None"
    and "aFws w' = aFws w" "aFwMap w' = aFwMap w"
  shows "forwarders_ok w'"
proof -
  have "reg_Get (aReg w) s = Some t" if "reg_Get (aReg w') s = Some t" for s t
    using that assms(2,3) by (cases "s = sid") (auto simp: extends_def)
  then show ?thesis using assms(1,2,4,5) by (fastforce simp: forwarders_ok_def extends_def)
qed

text \<open>The new forwarder is in order, and so are the others.\<close>

lemma forwarders_ok_add:
  assumes ok: "forwarders_ok w" and ext: "extends (aReg w) (aReg w') sid"
    and t: "reg_Get (aReg w') sid = Some t" "t < length (terms (aReg w'))"
    and fws: "aFws w' = aFws w @ [fw]" "aFwMap w' = AList.update sid (length (aFws w)) (aFwMap w)"
    and fw: "fID fw = sid" "fTerm fw = t" "\<not> fExited fw"
  shows "forwarders_ok w'"
proof -
  let ?n = "length (aFws w)"
  have "f < length (aFws w') \<and> fID (aFws w' ! f) = s \<and> (\<forall>u. reg_Get (aReg w') s = Some u \<longrightarrow> fTerm (aFws w' ! f) = u)"
    if f: "map_of (aFwMap w') s = Some f" for s f
  proof (cases "s = sid")
    case False
    then have "map_of (aFwMap w) s = Some f" using f by (simp add: fws AList.update_conv')
    then have "f < ?n" "fID (aFws w ! f) = s" "\<And>u. reg_Get (aReg w) s = Some u \<Longrightarrow> fTerm (aFws w ! f) = u"
      using ok by (auto simp: forwarders_ok_def)
    then show ?thesis using False ext by (auto simp: fws(1) nth_append extends_def)
  qed (use f t fw in \<open>auto simp: fws AList.update_conv'\<close>)
  moreover have "fTerm (aFws w' ! f) < length (terms (aReg w')) \<and>
      (fExited (aFws w' ! f) \<longrightarrow> term_Done (term_at (aReg w') (fTerm (aFws w' ! f))))"
    if "f < length (aFws w')" for f
  proof (cases "f = ?n")
    case False
    then have "f < ?n" using that by (simp add: fws)
    then have "fTerm (aFws w ! f) < length (terms (aReg w))"
        "fExited (aFws w ! f) \<longrightarrow> term_Done (term_at (aReg w) (fTerm (aFws w ! f)))"
      using ok by (auto simp: forwarders_ok_def)
    then show ?thesis using \<open>f < ?n\<close> ext by (auto simp: fws nth_append extends_def)
  qed (use t fw in \<open>simp add: fws\<close>)
  ultimately show ?thesis by (auto simp: forwarders_ok_def)
qed

lemma extends_set_term:
  "extends r r' sid \<Longrightarrow> term_Done x = term_Done (term_at r' t) \<Longrightarrow> extends r (set_term r' t x) sid"
  by (simp add: extends_def get_set_term done_set_term range_ops) (simp add: set_term_def)

lemma forwarders_ok_start:
  assumes ok: "forwarders_ok w" and ext: "extends (aReg w) (aReg w1) sid"
    and same: "aFws w1 = aFws w" "aFwMap w1 = aFwMap w"
  shows "forwarders_ok (startForwarder w1 sid)"
    and "reg_Get (aReg w1) sid \<noteq> None \<Longrightarrow> map_of (aFwMap (startForwarder w1 sid)) sid \<noteq> None"
proof -
  show "forwarders_ok (startForwarder w1 sid)"
  proof (cases "reg_Get (aReg w1) sid")
    case None
    with forwarders_ok_extend [OF ok ext None same] show ?thesis by (simp add: startForwarder_def)
  next
    case (Some t)
    let ?r = "set_term (aReg w1) t (term_Subscribe (term_at (aReg w1) t) (length (aFws w)) (Some tooSlow))"
    have "reg_Get ?r sid = Some t" using Some by (simp add: get_set_term)
    moreover have "t < length (terms ?r)" using Some ext get_range by (auto simp: extends_def set_term_def)
    moreover have "extends (aReg w) ?r sid" by (rule extends_set_term [OF ext]) simp
    ultimately show ?thesis
      using Some same by (intro forwarders_ok_add [OF ok, of _ sid t]) (auto simp: startForwarder_def Let_def)
  qed
  show "map_of (aFwMap (startForwarder w1 sid)) sid \<noteq> None" if "reg_Get (aReg w1) sid \<noteq> None"
    using that by (auto simp: startForwarder_def Let_def AList.update_conv')
qed

lemma range_start: "reg_range (aReg w) \<Longrightarrow> reg_range (aReg (startForwarder w s))"
  by (auto simp: startForwarder_def Let_def range_ops split: option.split)

lemma get_start: "reg_Get (aReg (startForwarder w s)) u = reg_Get (aReg w) u"
  by (auto simp: startForwarder_def Let_def split: option.split intro: get_set_term)

lemma fwmap_start: "u \<noteq> s \<Longrightarrow> map_of (aFwMap (startForwarder w s)) u = map_of (aFwMap w) u"
  by (auto simp: startForwarder_def Let_def AList.update_conv' split: option.split)

definition retired :: "agent \<Rightarrow> string \<Rightarrow> bool" where
  "retired w sid \<longleftrightarrow> aDone w \<or> (reg_Get (aReg w) sid = None \<longrightarrow> map_of (aFwMap w) sid = None)"

lemma attach_done: "aDone w \<Longrightarrow> aDone (fst (attach_activate e w msg))"
  by (auto simp: attach_activate_def Let_def case_prod_beta rejectAttach_def sendSessionAdd_def
      sendSessionRemove_def empty_snapshot_sends split: option.split)

lemma attach_inv_running:
  assumes "attach_inv L w" "reg_Get (aReg w) sid \<noteq> None" "map_of (aLazy w) sid \<noteq> None"
  shows "attach_inv L (w\<lparr>aLazy := AList.delete sid (aLazy w)\<rparr>)"
proof (cases "aDone w")
  case False
  have "L \<longrightarrow> map_of (aFwMap w) sid \<noteq> None" using assms False by (auto simp: attach_inv_def lazy_ok_def)
  with assms False show ?thesis
    by (auto simp: attach_inv_def lazy_ok_def forwarders_ok_def entries_ok_def AList.delete_conv')
qed (simp add: attach_inv_def)

lemma failed_activation_reg: "lazy_activate e w ls c r = (w', False) \<Longrightarrow> aReg w' = aReg w"
  by (auto simp: lazy_activate_def Let_def case_prod_beta reg_CreateWithID_def reg_spawn_def prod_eq_iff
      split: activation.splits option.splits if_splits)

lemma early_end_shrinks: "reg_shrinks (aReg w) (aReg (early_end e w sid))"
  by (auto simp: early_end_def shrinks_refl split: option.split intro: shrinks_set_term)

lemma early_end_range: "reg_range (aReg w) \<Longrightarrow> reg_range (aReg (early_end e w sid))"
  by (auto simp: early_end_def range_ops split: option.split)

text \<open>A terminal that runs gets its forwarder, after the activation of its lazy entry or at the start of a connection.\<close>

lemma attach_inv_started:
  assumes inv: "attach_inv L w" "\<not> aDone w" and act: "activates (aReg w) (aReg w1) sid"
    and same: "aFws w1 = aFws w" "aFwMap w1 = aFwMap w" and "L \<longrightarrow> dies e = []"
  defines "ws \<equiv> \<lambda>ms. startForwarder ((early_end e w1 sid)\<lparr>aModes := ms\<rparr>) sid"
  assumes w2: "aReg w2 = aReg (ws ms)" "aFws w2 = aFws (ws ms)" "aFwMap w2 = aFwMap (ws ms)"
    and maps: "keyed (aLazy w2)" "keyed (aAvail w2)" "\<And>s. s \<noteq> sid \<Longrightarrow> map_of (aLazy w2) s = map_of (aLazy w) s"
      "\<And>s. s \<noteq> sid \<Longrightarrow> map_of (aAvail w2) s = map_of (aAvail w) s"
  shows "attach_inv L w2"
proof -
  define w1' where "w1' = (early_end e w1 sid)\<lparr>aModes := ms\<rparr>"
  have "reg_range (aReg (early_end e w1 sid))" using act by (simp add: early_end_range activates_def extends_def)
  then have "extends (aReg w) (aReg (early_end e w1 sid)) sid"
    using act extends_shrink early_end_shrinks unfolding activates_def by blast
  then have ext: "extends (aReg w) (aReg w1') sid" by (simp add: w1'_def)
  have parts: "forwarders_ok w" "L \<longrightarrow> lazy_ok w" using inv by (auto simp: attach_inv_def)
  note start = forwarders_ok_start [OF parts(1) ext, unfolded w1'_def, simplified, OF same, folded w1'_def]
  have range: "reg_range (aReg w2)"
    using ext range_start [of w1' sid] by (simp add: extends_def w2 ws_def w1'_def)
  have "L \<longrightarrow> lazy_ok w2"
  proof
    assume L
    then have "early_end e w1 sid = w1" using assms(6) by (simp add: early_end_def split: option.split)
    then have "map_of (aFwMap (startForwarder w1' sid)) sid \<noteq> None"
      using start(2) act by (simp add: w1'_def activates_def)
    moreover have "map_of (aFwMap (startForwarder w1' sid)) s = map_of (aFwMap w) s" if "s \<noteq> sid" for s
      using fwmap_start [OF that, of w1'] same by (simp add: w1'_def)
    moreover have "reg_Get (aReg (startForwarder w1' sid)) s = Some t \<Longrightarrow> s \<noteq> sid \<Longrightarrow> reg_Get (aReg w) s = Some t" for s t
      using ext by (simp add: get_start extends_def)
    ultimately show "lazy_ok w2"
      using \<open>L\<close> parts(2) maps(3,4) unfolding lazy_ok_def w2 ws_def w1'_def [symmetric]
      by (auto split: option.splits) (metis option.distinct(1) option.exhaust)+
  qed
  moreover have "forwarders_ok w2" using start(1) by (simp add: forwarders_ok_def w2 ws_def w1'_def)
  ultimately show ?thesis using range maps(1,2) by (simp add: attach_inv_def entries_ok_def)
qed

lemma attach_activate_inv:
  assumes inv: "attach_inv L w" and e: "L \<longrightarrow> dies e = []"
  shows "attach_inv L (fst (attach_activate e w msg))"
proof (cases "aDone w \<or> map_of (aLazy w) (rSessionID msg) = None")
  case True
  have "aDone w \<Longrightarrow> ?thesis" by (simp add: attach_inv_def attach_done)
  moreover have "map_of (aLazy w) (rSessionID msg) = None \<Longrightarrow> ?thesis" using inv by (simp add: attach_activate_def)
  ultimately show ?thesis using True by (metis (no_types))
next
  case False
  let ?sid = "rSessionID msg"
  obtain ls where ls: "map_of (aLazy w) ?sid = Some ls" using False by blast
  have keyed: "keyed (aLazy w)" "keyed (aAvail w)" and range: "reg_range (aReg w)"
    using inv False by (auto simp: attach_inv_def entries_ok_def)
  have sid: "lID ls = ?sid" using ls keyed(1) by (rule keyed_map_of [rotated])
  define cols where "cols = (if rCols msg = 0 then 80 else rCols msg)"
  define rows where "rows = (if rRows msg = 0 then 24 else rRows msg)"
  obtain w1 ok where w1: "lazy_activate e w ls cols rows = (w1, ok)" by force
  note same1 = lazy_activate_frame [of e w ls cols rows, unfolded w1 fst_conv]
  note act = attach_activate_def Let_def cols_def [symmetric] rows_def [symmetric]
  consider (running) "reg_Get (aReg w) ?sid \<noteq> None" | (failed) "reg_Get (aReg w) ?sid = None" "\<not> ok"
    | (started) "reg_Get (aReg w) ?sid = None" ok by blast
  then show ?thesis
  proof cases
    case running
    then show ?thesis using attach_inv_running [OF inv] ls sid by (simp add: act)
  next
    case failed
    then have "aReg w1 = aReg w" using failed_activation_reg [of e w ls cols rows w1] w1 by simp
    then have "same_maps w (rejectAttach w1 ls (rClientID msg))"
      using same_maps_sends(3) [of w1 ls "rClientID msg"] same1 by (simp add: same_maps_def)
    then show ?thesis using attach_inv_same [OF inv] failed ls sid w1 by (simp add: act)
  next
    case started
    have "activates (aReg w) (aReg w1) ?sid" using activate_activates [OF range, of e ls cols rows w1] w1 started sid by simp
    then show ?thesis
      using started ls sid w1 False keyed
      by - (rule attach_inv_started [OF inv _ _ same1(6,5) e, where ms = "AList.update ?sid (lMode ls) (aModes w)"],
          simp_all add: act same1 AList.delete_conv')
  qed
qed

lemma finishIfEnded_retires:
  assumes inv: "attach_inv L w" and "finishIfEnded w sid = Some w1"
  shows "attach_inv L w1 \<and> retired w1 sid"
proof (cases "map_of (aFwMap w) sid")
  case None
  with assms show ?thesis by (auto simp: finishIfEnded_def retired_def)
next
  case (Some f)
  show ?thesis
  proof (cases "reg_Get (aReg w) sid")
    case None
    then have fin: "finishSession w f = Some w1" using assms(2) Some by (simp add: finishIfEnded_def)
    have "map_of (aFwMap w1) sid = None" if "\<not> aDone w"
    proof -
      have "fID (aFws w ! f) = sid" using inv that Some by (auto simp: attach_inv_def forwarders_ok_def)
      then show ?thesis
        using fin Some that
        by (auto simp: finishSession_def Let_def restoreLazySession_def AList.delete_conv'
            split: if_splits option.splits)
    qed
    moreover have "aDone w \<Longrightarrow> aDone w1" using main_sends_finish [OF fin] by (simp add: main_sends_def)
    ultimately show ?thesis using attach_inv_finish [OF inv fin] by (cases "aDone w") (simp_all add: retired_def)
  next
    case (Some t)
    with \<open>map_of (aFwMap w) sid = Some f\<close> assms show ?thesis by (auto simp: finishIfEnded_def retired_def)
  qed
qed

lemma attach_inv_handle:
  assumes inv: "attach_inv L w" and "L \<longrightarrow> dies e = []" "handleServerMsg e w msg = Some w'"
  shows "attach_inv L w'"
proof (cases "rType msg = ''client_attach''")
  case True
  then obtain w1 where w1: "finishIfEnded w (rSessionID msg) = Some w1"
    and w': "w' = (let (w2, go_on) = attach_activate e w1 msg in
      if go_on then requestSnapshot w2 (rSessionID msg) (rClientID msg) else w2)"
    using assms by (auto simp: handleServerMsg_def handle_attach_def Let_def split: option.splits prod.splits)
  have "attach_inv L (fst (attach_activate e w1 msg))"
    using finishIfEnded_retires [OF inv w1] attach_activate_inv assms(2) by blast
  then show ?thesis
    using attach_inv_same same_maps_sends(4) by (auto simp: w' Let_def case_prod_beta)
next
  case False
  have input: "attach_inv L (handle_input e w msg)"
    using inv by (auto simp: handle_input_def split: option.split intro!: attach_inv_shrink shrinks_set_term range_ops)
  have resize: "attach_inv L (handle_resize e w msg)"
    using inv by (auto simp: handle_resize_def split: option.split intro!: attach_inv_shrink shrinks_set_term range_ops)
  have "attach_inv L (w\<lparr>aPair := x\<rparr>)" for x by (rule attach_inv_same [OF inv]) (simp add: same_maps_def)
  with False assms input resize show ?thesis by (auto simp: handleServerMsg_def split: if_splits)
qed

text \<open>
  What the invariant assumes of the outside: processes do not end before their forwarder is started, and
  a newly discovered session has a new id.
\<close>

fun tame_event :: "agent \<Rightarrow> agent_event \<Rightarrow> bool" where
  "tame_event w (EvServer e _) \<longleftrightarrow> dies e = []"
| "tame_event w (EvChange c) \<longleftrightarrow> chRemoveID c \<noteq> [] \<or>
     (case chAdd c of None \<Rightarrow> True | Some ls \<Rightarrow> map_of (entries (aReg w)) (lID ls) = None)"
| "tame_event w _ \<longleftrightarrow> True"

fun tame_run :: "agent \<Rightarrow> agent_event list \<Rightarrow> bool" where
  "tame_run w [] \<longleftrightarrow> True"
| "tame_run w (ev # evs) \<longleftrightarrow> tame_event w ev \<and> tame_run (agent_turn w ev) evs"

lemma attach_inv_change:
  assumes inv: "attach_inv L w" and "L \<longrightarrow> tame_event w (EvChange c)"
  shows "attach_inv L (handle_change w c)"
proof -
  have rem: "attach_inv L (w\<lparr>aLazy := AList.delete s (aLazy w), aAvail := AList.delete s (aAvail w), aModes := m\<rparr>)" for s m
    using inv by (auto simp: attach_inv_def lazy_ok_def entries_ok_def forwarders_ok_def AList.delete_conv')
  have add: "attach_inv L (w\<lparr>aAvail := AList.update (lID ls) ls (aAvail w), aLazy := AList.update (lID ls) ls (aLazy w)\<rparr>)"
    if "L \<longrightarrow> map_of (entries (aReg w)) (lID ls) = None" for ls
    using inv that
    by (cases L) (auto simp: attach_inv_def lazy_ok_def entries_ok_def forwarders_ok_def AList.update_conv' reg_Get_def)
  show ?thesis
    using assms(2) attach_inv_same [OF rem same_maps_sends(2)] attach_inv_same [OF add same_maps_sends(1)] inv
    by (auto simp: handle_change_def Let_def split: option.split)
qed

lemma attach_inv_fw:
  assumes "attach_inv L w" "aReg w' = aReg w" "aLazy w' = aLazy w" "aAvail w' = aAvail w" "aFwMap w' = aFwMap w"
    and "aFws w' = (aFws w)[f := fw]" "aDone w \<longrightarrow> aDone w'"
    and fw: "fID fw = fID (aFws w ! f)" "fTerm fw = fTerm (aFws w ! f)"
    and ex: "fExited fw \<longrightarrow> fExited (aFws w ! f) \<or> aDone w \<or> term_Done (term_at (aReg w) (fTerm fw))"
  shows "attach_inv L w'"
proof (cases "aDone w")
  case False
  have "fID (aFws w' ! g) = fID (aFws w ! g) \<and> fTerm (aFws w' ! g) = fTerm (aFws w ! g) \<and>
      (fExited (aFws w' ! g) \<longrightarrow> fExited (aFws w ! g) \<or> term_Done (term_at (aReg w) (fTerm (aFws w ! g))))"
    if "g < length (aFws w)" for g
    using that assms False by (cases "g = f") auto
  moreover have "length (aFws w') = length (aFws w)" using assms by simp
  moreover have "forwarders_ok w" using assms(1) False by (simp add: attach_inv_def)
  ultimately have "forwarders_ok w'"
    unfolding forwarders_ok_def using assms(2-5) by (simp, metis)
  with assms False show ?thesis by (simp add: attach_inv_def lazy_ok_def entries_ok_def)
qed (use assms in \<open>simp add: attach_inv_def\<close>)

lemma attach_inv_stop:
  assumes inv: "attach_inv L w" and "fw_stop w f = Some w'" shows "attach_inv L w'"
proof -
  define t where "t = fTerm (aFws w ! f)"
  define fw where "fw = (aFws w ! f)\<lparr>fExited := True, fNotify := term_Done (term_at (aReg w) t)\<rparr>"
  define W where "W = w\<lparr>aReg := set_term (aReg w) t (term_Unsubscribe (term_at (aReg w) t) f)\<rparr>"
  have stop: "aDone w \<or> term_Done (term_at (aReg w) t)" and w': "w' = set_fw W f fw"
    using assms(2) by (auto simp: fw_stop_def Let_def t_def fw_def W_def split: if_splits)
  have "attach_inv L W"
    unfolding W_def using inv by (intro attach_inv_shrink shrinks_set_term) (auto intro: range_ops)
  moreover have "aFws W = aFws w" "aDone W = aDone w" by (simp_all add: W_def)
  moreover have "term_Done (term_at (aReg W) t) = term_Done (term_at (aReg w) t)" by (simp add: W_def done_set_term)
  ultimately show ?thesis
    unfolding w' set_fw_def using stop by - (rule attach_inv_fw [of L W _ f fw], simp_all add: fw_def t_def)
qed

lemma attach_inv_output:
  assumes inv: "attach_inv L w" and "output_step w t d r = Some w'" shows "attach_inv L w'"
proof -
  let ?r = "set_term (aReg w) t (fst (term_emit (term_at (aReg w) t) d r (aChs w)))"
  have "same_maps w (foldl closeConnection w es)" for w es
    by (induction es arbitrary: w) (auto simp: same_maps_def)
  moreover have "attach_inv L (w\<lparr>aReg := ?r, aChs := cs\<rparr>)" for cs
    by (rule attach_inv_same [OF attach_inv_shrink [OF inv, of ?r]])
      (auto simp: same_maps_def intro: shrinks_set_term range_ops)
  ultimately have "attach_inv L (foldl closeConnection (w\<lparr>aReg := ?r, aChs := cs\<rparr>) es)" for cs es
    by (rule attach_inv_same [rotated])
  then show ?thesis using assms(2) by (auto simp: output_step_def Let_def case_prod_beta split: if_splits)
qed

lemma attach_inv_step:
  assumes inv: "attach_inv L w" and "L \<longrightarrow> tame_event w ev" "agent_step w ev = Some w'"
  shows "attach_inv L w'"
proof (cases ev)
  case (EvServer e msg)
  with assms attach_inv_handle show ?thesis by simp
next
  case (EvChange c)
  with assms attach_inv_change show ?thesis by auto
next
  case EvEnded
  moreover have "attach_inv L (w\<lparr>aEnded := c\<rparr>)" for c by (rule attach_inv_same [OF inv]) (simp add: same_maps_def)
  ultimately show ?thesis using assms(3) by (auto split: option.splits intro: attach_inv_finish)
next
  case (EvStop f)
  with assms attach_inv_stop show ?thesis by simp
next
  case (EvOutput t d r)
  with assms attach_inv_output show ?thesis by simp
next
  case (EvCleanup k)
  then show ?thesis using assms(3) attach_inv_shrink [OF inv shrinks_cleanup] range_ops(3) by (auto simp del: reg_step.simps)
next
  case (EvRemove sid)
  then show ?thesis using assms(3) attach_inv_shrink [OF inv shrinks_Remove] range_ops(2) by auto
next
  case (EvTermEnd t)
  then show ?thesis using assms(3) inv by (auto split: if_splits intro!: attach_inv_shrink shrinks_set_term range_ops)
qed (use assms attach_inv_same [OF inv] in \<open>auto simp: fw_take_def fw_send_def fw_notify_def sendWait_def set_fw_def
    same_maps_def Let_def split: if_splits option.splits list.splits intro!: attach_inv_fw [OF inv] dest!: writer_stepD\<close>)

lemma attach_inv_turn: "attach_inv L w \<Longrightarrow> L \<longrightarrow> tame_event w ev \<Longrightarrow> attach_inv L (agent_turn w ev)"
  by (auto simp: agent_turn_def split: option.split intro: attach_inv_step)

lemma attach_inv_run: "attach_inv L w \<Longrightarrow> L \<longrightarrow> tame_run w evs \<Longrightarrow> attach_inv L (foldl agent_turn w evs)"
  by (induction evs arbitrary: w) (auto intro: attach_inv_turn)

interpretation session_machine: invariant_machine agent_turn "attach_inv False"
  by unfold_locales (auto intro: attach_inv_turn)

text \<open>A new connection.\<close>

lemma attach_inv_advertise:
  assumes inv: "attach_inv L w" and e: "L \<longrightarrow> dies e = []"
  shows "attach_inv L (advertise e w ls)"
proof (cases "aDone w")
  case True
  then show ?thesis by (simp add: attach_inv_def advertise_def Let_def sendSessionAdd_def)
next
  case False
  let ?av = "AList.update (lID ls) ls (aAvail w)"
  let ?w = "w\<lparr>aAvail := ?av\<rparr>"
  have parts: "forwarders_ok w" "keyed (aLazy w)" "keyed (aAvail w)" "L \<longrightarrow> lazy_ok w" "reg_range (aReg w)"
    using inv False by (auto simp: attach_inv_def entries_ok_def)
  show ?thesis
  proof (cases "reg_Get (aReg w) (lID ls)")
    case None
    let ?w1 = "?w\<lparr>aLazy := AList.update (lID ls) ls (aLazy w)\<rparr>"
    have "L \<longrightarrow> lazy_ok ?w1" using parts(4) None by (auto simp: lazy_ok_def AList.update_conv')
    then have "attach_inv L ?w1" using parts by (simp add: attach_inv_def forwarders_ok_def entries_ok_def)
    then show ?thesis
      by (rule attach_inv_same)
        (use None same_maps_sends(1) [of ?w ls False 0 0] in \<open>simp add: advertise_def Let_def same_maps_def\<close>)
  next
    case (Some t)
    have "activates (aReg w) (aReg ?w) (lID ls)" using Some parts(5) by (simp add: activates_def extends_def)
    then show ?thesis
      using Some parts(2,3)
      by - (rule attach_inv_started [OF inv False _ _ _ e, where ms = "AList.update (lID ls) (lMode ls) (aModes w)"],
          auto simp: advertise_def Let_def AList.update_conv')
  qed
qed

lemma attach_inv_connect:
  assumes "reg_range r" "L \<longrightarrow> dies e = []" shows "attach_inv L (agent_connect e r lazy)"
proof -
  have "attach_inv L w \<Longrightarrow> attach_inv L (foldl (advertise e) w lazy)" for w
    using assms(2) by (induction lazy arbitrary: w) (auto intro: attach_inv_advertise)
  moreover have "attach_inv L (agent_New r)"
    using assms(1) by (simp add: attach_inv_def agent_New_def forwarders_ok_def lazy_ok_def entries_ok_def keyed_def)
  ultimately show ?thesis by (simp add: agent_connect_def)
qed

lemma reg_inv_range: "reg_inv r \<Longrightarrow> reg_range r"
  by (auto simp: reg_inv_def reg_range_def entry_ok_def dest!: map_of_SomeD)

section \<open>Attaching\<close>

lemma activate_ok: "sys_ok e \<Longrightarrow> snd (lazy_activate e w ls c r)"
  by (auto simp: lazy_activate_def Let_def case_prod_beta reg_CreateWithID_def reg_spawn_def pty_New_def
      split: activation.split option.split)

lemma attach_activate_runs:
  assumes ok: "reg_range (aReg w)" "forwarders_ok w" "lazy_ok w" "entries_ok w" and ret: "retired w sid" "\<not> aDone w"
    and e: "sys_ok e" "dies e = []" and msg: "rSessionID msg = sid" and avail: "map_of (aAvail w) sid \<noteq> None"
  shows "snd (attach_activate e w msg) \<and> reg_Get (aReg (fst (attach_activate e w msg))) sid \<noteq> None \<and>
    map_of (aFwMap (fst (attach_activate e w msg))) sid \<noteq> None"
proof (cases "map_of (aLazy w) sid")
  case None
  then have "map_of (aFwMap w) sid \<noteq> None" using ok(3) avail unfolding lazy_ok_def by blast
  with None ret msg show ?thesis by (auto simp: attach_activate_def retired_def)
next
  case (Some ls)
  then have sid: "lID ls = sid" using ok(4) keyed_map_of by (auto simp: entries_ok_def)
  show ?thesis
  proof (cases "reg_Get (aReg w) sid")
    case running: (Some t)
    then have "map_of (aFwMap w) sid \<noteq> None" using ok(3) Some by (auto simp: lazy_ok_def)
    with running Some sid msg show ?thesis by (simp add: attach_activate_def)
  next
    case None
    define cols where "cols = (if rCols msg = 0 then 80 else rCols msg)"
    define rows where "rows = (if rRows msg = 0 then 24 else rRows msg)"
    obtain w1 where w1: "lazy_activate e w ls cols rows = (w1, True)"
      using activate_ok [OF e(1), of w ls cols rows] by (metis prod.collapse)
    let ?w2 = "w1\<lparr>aModes := AList.update sid (lMode ls) (aModes w1)\<rparr>"
    have act: "activates (aReg w) (aReg ?w2) sid"
      using activate_activates [OF ok(1) w1] sid by simp
    have "map_of (aFwMap (startForwarder ?w2 sid)) sid \<noteq> None"
      using forwarders_ok_start(2) [OF ok(2), of ?w2 sid] act lazy_activate_frame [of e w ls cols rows]
      by (simp add: w1 activates_def)
    moreover have "reg_Get (aReg (startForwarder ?w2 sid)) sid \<noteq> None"
      using act by (simp add: get_start activates_def)
    ultimately show ?thesis
      using Some None sid msg w1 e(2)
      by (simp add: attach_activate_def Let_def cols_def [symmetric] rows_def [symmetric] early_end_def split: option.split)
  qed
qed



text \<open>
  Without the assumption the session is lost: if the process of a lazy session ends before
  \<^verbatim>\<open>startForwarder\<close> looks it up, the session is still advertised (even as active), but it has neither a
  lazy entry nor a forwarder, and every later attach only gets an empty snapshot.
\<close>

definition dying_env :: env where
  "dying_env = \<lparr>sys_ok = True, now = 0, dies = [''s'']\<rparr>"

lemma early_exit_loses_session:
  "\<exists>w'. handleServerMsg dying_env (demo_connect m) (demo_msg ''client_attach'' []) = Some w' \<and>
     map_of (aAvail w') ''s'' \<noteq> None \<and> map_of (aLazy w') ''s'' = None \<and> map_of (aFwMap w') ''s'' = None \<and>
     handleServerMsg demo_env w' (demo_msg ''client_attach'' []) = Some (send_empty_snapshot w' ''s'' ''c'')"
proof -
  let ?m = "demo_msg ''client_attach'' []"
  define w2 where "w2 = fst (attach_activate dying_env (demo_connect m) ?m)"
  have "snd (attach_activate dying_env (demo_connect m) ?m) \<and> aAvail w2 = [(''s'', demo_lazy m)] \<and>
      aLazy w2 = [] \<and> aFwMap w2 = [] \<and> reg_Get (aReg w2) ''s'' = None"
    unfolding w2_def
    by (subst demo_connect_eq, subst (2) demo_connect_eq, subst (3) demo_connect_eq, subst (4) demo_connect_eq,
        subst (5) demo_connect_eq)
      (simp add: attach_activate_def dying_env_def demo_msg_def demo_lazy_def lazy_activate_def
        LinkedSessionArgs_def demo_create early_end_def startForwarder_def reg_Get_def reg_alive_def term_at_def
        set_term_def demo_pty Let_def demo_reg_def registry_New_def [THEN arg_cong, of entries])
  then have w2: "snd (attach_activate dying_env (demo_connect m) ?m)" "aAvail w2 = [(''s'', demo_lazy m)]"
    "aLazy w2 = []" "aFwMap w2 = []" "reg_Get (aReg w2) ''s'' = None" by blast+
  define w' where "w' = requestSnapshot w2 ''s'' ''c''"
  have "finishIfEnded (demo_connect m) ''s'' = Some (demo_connect m)"
    by (subst demo_connect_eq, subst (2) demo_connect_eq) (simp add: finishIfEnded_def)
  then have "handleServerMsg dying_env (demo_connect m) ?m = Some w'"
    using w2(1) by (simp add: handleServerMsg_def handle_attach_def w'_def w2_def demo_msg_def case_prod_beta)
  moreover have "handleServerMsg demo_env w' ?m = Some (send_empty_snapshot w' ''s'' ''c'')"
    using w2 by (simp add: handleServerMsg_def handle_attach_def finishIfEnded_def attach_activate_def w'_def
        demo_msg_def requestSnapshot_def)
  ultimately show ?thesis using w2 by (auto simp: w'_def)
qed

end
