(* ===== verification/Session_Catalog.thy ===== *)
theory Session_Catalog
  imports Agent_Attach "HOL-Library.Char_ord" "HOL-Library.List_Lexorder"
begin

text \<open>
  The session sources: the tmux/Screen catalog of \<^verbatim>\<open>src/cmd/scomp/session_catalog.go\<close> and
  \<^verbatim>\<open>multiplexer.go\<close>, and the fixed catalog of \<^verbatim>\<open>fakeshell_source.go\<close>.

  The lists of tmux and Screen sessions a scan sees, the clock and the random source are arguments:
  \<open>rnd n\<close> are the bytes of the \<open>n\<close>-th draw, and the catalog counts its draws.  \<^verbatim>\<open>scanMu\<close> serialises scans,
  and \<^verbatim>\<open>mu\<close> makes a scan's update and \<^verbatim>\<open>snapshotAndSubscribe\<close> atomic, so each is one step.  Maps are
  association lists in the order an iteration visits them.  SHA-256 is an argument.
\<close>

section \<open>The catalog\<close>

record catalog =
  cMode :: session_mode
  cEntries :: "(string \<times> lazy_session) list"
  cSubs :: "(nat \<times> session_change chan) list"
  cDraws :: nat

definition newSessionID :: "(nat \<Rightarrow> bytes) \<Rightarrow> nat \<Rightarrow> string" where
  "newSessionID rnd n = hex_encode (rnd n)"

text \<open>One turn of either discovery loop: \<open>key\<close> and how to attach to it.\<close>

type_synonym scan_state = "catalog \<times> session_change list"

definition add_session ::
    "(nat \<Rightarrow> bytes) \<Rightarrow> int \<Rightarrow> scan_state \<Rightarrow> string \<times> activation \<Rightarrow> scan_state" where
  "add_session rnd tm st found =
     (case (st, found) of ((c, changes), (key, act)) \<Rightarrow>
        if map_of (cEntries c) key \<noteq> None then st
        else
          let entry = \<lparr>lID = newSessionID rnd (cDraws c), lCmd = key, lCreated = tm, lMode = cMode c,
                       lActivate = act\<rparr>
          in (c\<lparr>cEntries := AList.update key entry (cEntries c), cDraws := cDraws c + 1\<rparr>,
              changes @ [\<lparr>chAdd = Some entry, chRemoveID = []\<rparr>]))"

definition tmux_found :: "tmux_session \<Rightarrow> string \<times> activation" where
  "tmux_found s = (''tmux:'' @ tName s, ActTmux (tName s))"

definition screen_found :: "screen_session \<Rightarrow> string \<times> activation" where
  "screen_found s = (''screen:'' @ sName s, ActScreen (FullName s))"

definition scan_found :: "tmux_session list \<Rightarrow> screen_session list \<Rightarrow> (string \<times> activation) list" where
  "scan_found tmuxNow screenNow = map tmux_found tmuxNow @ map screen_found screenNow"

text \<open>A subscriber that has no room misses the change.\<close>

definition publish :: "session_change list \<Rightarrow> session_change chan \<Rightarrow> session_change chan" where
  "publish changes ch = foldl (\<lambda>ch x. case chan_try_send ch x of Some ch' \<Rightarrow> ch' | None \<Rightarrow> ch) ch changes"

text \<open>
  The update under \<^verbatim>\<open>mu\<close>: the catalog, and the entries it dropped.
\<close>

definition scan_locked ::
    "(nat \<Rightarrow> bytes) \<Rightarrow> int \<Rightarrow> catalog \<Rightarrow> (string \<times> activation) list \<Rightarrow> bool \<Rightarrow>
     catalog \<times> session_change list \<times> lazy_session list" where
  "scan_locked rnd tm c found notify =
     (let (c1, adds) = foldl (add_session rnd tm) (c, []) found;
          present = map fst found;
          dropped = filter (\<lambda>(key, _). key \<notin> set present) (cEntries c1);
          c2 = c1\<lparr>cEntries := filter (\<lambda>(key, _). key \<in> set present) (cEntries c1)\<rparr>;
          changes = adds @ map (\<lambda>(_, e). \<lparr>chAdd = None, chRemoveID = lID e\<rparr>) dropped;
          c3 = (if notify then c2\<lparr>cSubs := map (\<lambda>(i, ch). (i, publish changes ch)) (cSubs c2)\<rparr> else c2)
      in (c3, changes, map snd dropped))"

text \<open>
  The removal of what disappeared: the terminal is closed, and the linked tmux session is killed.  The
  result lists the sessions given to \<^verbatim>\<open>KillLinkedSession\<close>.
\<close>

fun scan_remove :: "string registry \<Rightarrow> lazy_session list \<Rightarrow> string registry \<times> string list" where
  "scan_remove r [] = (r, [])"
| "scan_remove r (entry # rest) =
     (case reg_Get r (lID entry) of
        None \<Rightarrow> scan_remove r rest
      | Some _ \<Rightarrow>
          let (r', kills) = scan_remove (reg_Remove r (lID entry)) rest
          in (r', (if HasPrefix (lCmd entry) ''tmux:'' then [drop 5 (lCmd entry)] else []) @ kills))"

definition catalog_scan ::
    "(nat \<Rightarrow> bytes) \<Rightarrow> int \<Rightarrow> tmux_session list \<Rightarrow> screen_session list \<Rightarrow> bool \<Rightarrow>
     catalog \<times> string registry \<Rightarrow> catalog \<times> string registry \<times> string list" where
  "catalog_scan rnd tm tmuxNow screenNow notify s =
     (case s of (c, r) \<Rightarrow>
        let (c', changes, removed) = scan_locked rnd tm c (scan_found tmuxNow screenNow) notify
        in (c', scan_remove r removed))"

definition newSessionCatalog ::
    "(nat \<Rightarrow> bytes) \<Rightarrow> int \<Rightarrow> session_mode \<Rightarrow> tmux_session list \<Rightarrow> screen_session list \<Rightarrow>
     string registry \<Rightarrow> catalog \<times> string registry \<times> string list" where
  "newSessionCatalog rnd tm mode tmuxNow screenNow r =
     catalog_scan rnd tm tmuxNow screenNow False
       (\<lparr>cMode = mode, cEntries = [], cSubs = [], cDraws = 0\<rparr>, r)"

definition catalog_refresh ::
    "(nat \<Rightarrow> bytes) \<Rightarrow> int \<Rightarrow> tmux_session list \<Rightarrow> screen_session list \<Rightarrow>
     catalog \<times> string registry \<Rightarrow> catalog \<times> string registry \<times> string list" where
  "catalog_refresh rnd tm tmuxNow screenNow s = catalog_scan rnd tm tmuxNow screenNow False s"

definition catalog_sessions :: "catalog \<Rightarrow> lazy_session list" where
  "catalog_sessions c = sort_key lCmd (map snd (cEntries c))"

definition snapshotAndSubscribe :: "catalog \<Rightarrow> nat \<Rightarrow> catalog \<times> lazy_session list" where
  "snapshotAndSubscribe c i =
     (c\<lparr>cSubs := AList.update i (chan_make 128) (cSubs c)\<rparr>, catalog_sessions c)"

definition catalog_unsubscribe :: "catalog \<Rightarrow> nat \<Rightarrow> catalog" where
  "catalog_unsubscribe c i = c\<lparr>cSubs := AList.delete i (cSubs c)\<rparr>"

text \<open>
  The cleanup of \<^verbatim>\<open>startMultiplexerSource\<close>: the linked sessions it kills, and the activated names that
  are left, so that a second call kills nothing.
\<close>

definition multiplexer_cleanup :: "string list \<Rightarrow> string list \<times> (string \<times> string list) list" where
  "multiplexer_cleanup activated = ([], map KillLinkedSession_args activated)"

section \<open>The simulated catalog\<close>

definition fakeSessionID :: "(bytes \<Rightarrow> bytes) \<Rightarrow> string \<Rightarrow> string \<Rightarrow> string" where
  "fakeSessionID sha256 uid name =
     hex_encode (take 16 (sha256 (''scomp-fakeshell'' @ [CHR 0x00] @ uid @ [CHR 0x00] @ name)))"

definition newFakeSource :: "(bytes \<Rightarrow> bytes) \<Rightarrow> int \<Rightarrow> string \<Rightarrow> lazy_session list" where
  "newFakeSource sha256 tm uid =
     map (\<lambda>p. \<lparr>lID = fakeSessionID sha256 uid (program_name p), lCmd = program_name p, lCreated = tm,
               lMode = ModeFull, lActivate = ActFake p\<rparr>) Programs"

definition fake_refresh :: "lazy_session list \<Rightarrow> lazy_session list" where
  "fake_refresh ls = ls"

definition fake_sessions :: "lazy_session list \<Rightarrow> lazy_session list" where
  "fake_sessions ls = ls"

section \<open>Scanning\<close>

definition catalog_inv :: "(nat \<Rightarrow> bytes) \<Rightarrow> catalog \<Rightarrow> bool" where
  "catalog_inv rnd c \<longleftrightarrow> distinct (map fst (cEntries c)) \<and>
     (\<forall>(key, e) \<in> set (cEntries c). lCmd e = key \<and> (\<exists>n < cDraws c. lID e = newSessionID rnd n)) \<and>
     inj_on lID (snd ` set (cEntries c))"

lemma hex_encode_inj: "hex_encode a = hex_encode b \<Longrightarrow> a = b"
  using hex_roundtrip by (metis option.inject)

lemma newSessionID_inj: "inj rnd \<Longrightarrow> newSessionID rnd m = newSessionID rnd n \<longleftrightarrow> m = n"
  by (auto simp: newSessionID_def dest!: hex_encode_inj injD)

lemma update_new: "map_of xs k = None \<Longrightarrow> AList.update k v xs = xs @ [(k, v)]"
  by (induction xs) (auto split: if_splits)

lemma add_session_cases:
  obtains (known) e where "map_of (cEntries c) key = Some e" "add_session rnd tm (c, ch) (key, act) = (c, ch)"
    | (new) e where "map_of (cEntries c) key = None" "lCmd e = key" "lID e = newSessionID rnd (cDraws c)"
      "add_session rnd tm (c, ch) (key, act) =
         (c\<lparr>cEntries := cEntries c @ [(key, e)], cDraws := cDraws c + 1\<rparr>,
          ch @ [\<lparr>chAdd = Some e, chRemoveID = []\<rparr>])"
proof (cases "map_of (cEntries c) key")
  case None
  then show ?thesis
    by (intro new [of "\<lparr>lID = newSessionID rnd (cDraws c), lCmd = key, lCreated = tm, lMode = cMode c, lActivate = act\<rparr>"])
      (auto simp: add_session_def Let_def update_new)
qed (auto simp: add_session_def intro: known)

lemma add_session_inv:
  assumes inj: "inj rnd" and inv: "catalog_inv rnd c"
  shows "catalog_inv rnd (fst (add_session rnd tm (c, ch) x))"
proof -
  obtain key act where x: "x = (key, act)" by force
  show ?thesis
  proof (cases rule: add_session_cases [of c key rnd tm ch act, case_names known new])
    case (known e)
    with inv show ?thesis by (simp add: x)
  next
    case (new e)
    have ids: "lID e' \<noteq> lID e" if "(k, e') \<in> set (cEntries c)" for k e'
      using inv that new(3) newSessionID_inj [OF inj] by (fastforce simp: catalog_inv_def)
    have "key \<notin> fst ` set (cEntries c)" using new(1) by (simp add: map_of_eq_None_iff)
    moreover have "inj_on lID (insert e (snd ` set (cEntries c)))"
      using inv ids by (auto simp: catalog_inv_def inj_on_insert)
    moreover have "lCmd e' = k \<and> (\<exists>n < Suc (cDraws c). lID e' = newSessionID rnd n)"
      if "(k, e') \<in> set (cEntries c @ [(key, e)])" for k e'
    proof (cases "(k, e') = (key, e)")
      case True
      with new(2,3) show ?thesis by auto
    next
      case False
      with that have "(k, e') \<in> set (cEntries c)" by auto
      with inv obtain n where "lCmd e' = k" "n < cDraws c" "lID e' = newSessionID rnd n"
        by (auto simp: catalog_inv_def)
      then show ?thesis by (auto intro: less_SucI)
    qed
    moreover have "distinct (map fst (cEntries c))" using inv by (simp add: catalog_inv_def)
    ultimately have "catalog_inv rnd (c\<lparr>cEntries := cEntries c @ [(key, e)], cDraws := Suc (cDraws c)\<rparr>)"
      unfolding catalog_inv_def by auto
    with new(4) show ?thesis by (simp add: x)
  qed
qed

lemma add_all_inv:
  "inj rnd \<Longrightarrow> catalog_inv rnd c \<Longrightarrow> catalog_inv rnd (fst (foldl (add_session rnd tm) (c, ch) found))"
proof (induction found arbitrary: c ch)
  case (Cons x found)
  then show ?case
    using add_session_inv [of rnd c tm ch x] by (cases "add_session rnd tm (c, ch) x") simp
qed simp

lemma add_all_keeps:
  "map_of (cEntries c) key = Some e \<Longrightarrow>
   map_of (cEntries (fst (foldl (add_session rnd tm) (c, ch) found))) key = Some e"
proof (induction found arbitrary: c ch)
  case (Cons x found)
  obtain k act where x: "x = (k, act)" by force
  show ?case
    by (cases rule: add_session_cases [of c k rnd tm ch act])
      (use Cons in \<open>auto simp: x map_add_def\<close>)
qed simp

lemma add_all_other:
  "map_of (cEntries c) key = None \<Longrightarrow> key \<notin> fst ` set found \<Longrightarrow>
   map_of (cEntries (fst (foldl (add_session rnd tm) (c, ch) found))) key = None"
proof (induction found arbitrary: c ch)
  case (Cons x found)
  obtain k act where x: "x = (k, act)" by force
  show ?case
    by (cases rule: add_session_cases [of c k rnd tm ch act])
      (use Cons in \<open>auto simp: x map_add_def\<close>)
qed simp

lemma add_all_present:
  "key \<in> fst ` set found \<Longrightarrow>
   map_of (cEntries (fst (foldl (add_session rnd tm) (c, ch) found))) key \<noteq> None"
proof (induction found arbitrary: c ch)
  case (Cons x found)
  obtain k act where x: "x = (k, act)" by force
  obtain c' ch' where st: "add_session rnd tm (c, ch) (k, act) = (c', ch')" by force
  have "map_of (cEntries c') k \<noteq> None"
    by (cases rule: add_session_cases [of c k rnd tm ch act]) (use st in auto)
  then have "map_of (cEntries (fst (foldl (add_session rnd tm) (c', ch') found))) k \<noteq> None"
    using add_all_keeps by fastforce
  with Cons st show ?case by (auto simp: x)
qed simp

text \<open>The changes of a scan, applied in order as the main loop applies them to \<^verbatim>\<open>availableLazy\<close>.\<close>

definition apply_change :: "(string \<times> lazy_session) list \<Rightarrow> session_change \<Rightarrow> (string \<times> lazy_session) list" where
  "apply_change v change =
     (if chRemoveID change \<noteq> [] then AList.delete (chRemoveID change) v
      else case chAdd change of None \<Rightarrow> v | Some ls \<Rightarrow> AList.update (lID ls) ls v)"

definition by_id :: "catalog \<Rightarrow> (string \<times> lazy_session) list" where
  "by_id c = map (\<lambda>(_, e). (lID e, e)) (cEntries c)"

lemma handle_change_avail: "aAvail (handle_change w change) = apply_change (aAvail w) change"
  by (simp add: handle_change_def apply_change_def sendSessionAdd_def sendSessionRemove_def Let_def send_msg_def
      closeConnection_def split: option.split)

lemma by_id_lookup:
  assumes "catalog_inv rnd c"
  shows "map_of (by_id c) sid = Some e \<longleftrightarrow> (\<exists>key. (key, e) \<in> set (cEntries c) \<and> lID e = sid)"
proof -
  have "distinct (map fst (by_id c))"
  proof -
    have d: "distinct (map fst (cEntries c))" and cmd: "\<And>k x. (k, x) \<in> set (cEntries c) \<Longrightarrow> lCmd x = k"
      and inj: "inj_on lID (snd ` set (cEntries c))"
      using assms by (auto simp: catalog_inv_def)
    have "map fst (cEntries c) = map lCmd (map snd (cEntries c))" using cmd by auto
    with d have "distinct (map snd (cEntries c))" by (metis distinct_map)
    then have "distinct (map lID (map snd (cEntries c)))" using inj by (simp add: distinct_map comp_inj_on)
    then show ?thesis by (simp add: by_id_def case_prod_beta comp_def)
  qed
  then show ?thesis by (force simp: map_of_eq_Some_iff by_id_def)
qed

lemma add_session_view:
  assumes "inj rnd" "catalog_inv rnd c" "map_of v = map_of (by_id c)" "v = foldl apply_change v0 ch"
    and "add_session rnd tm (c, ch) x = (c', ch')"
  shows "map_of (foldl apply_change v0 ch') = map_of (by_id c')"
proof -
  obtain k act where x: "x = (k, act)" by force
  show ?thesis
  proof (cases rule: add_session_cases [of c k rnd tm ch act, case_names known new])
    case (known e)
    with assms show ?thesis by (simp add: x)
  next
    case (new e)
    then have c': "c' = c\<lparr>cEntries := cEntries c @ [(k, e)], cDraws := cDraws c + 1\<rparr>"
      and ch': "ch' = ch @ [\<lparr>chAdd = Some e, chRemoveID = []\<rparr>]" using assms(5) by (auto simp: x)
    have "lID e \<notin> dom (map_of (by_id c))"
      using assms(1,2) new(3) newSessionID_inj by (fastforce simp: by_id_lookup catalog_inv_def)
    then have "map_of (by_id c @ [(lID e, e)]) = (map_of (by_id c))(lID e \<mapsto> e)"
      by (auto simp: map_add_def fun_eq_iff split: option.split)
    moreover have "by_id c' = by_id c @ [(lID e, e)]" by (simp add: by_id_def c')
    ultimately show ?thesis
      using assms(3,4) by (simp add: ch' apply_change_def AList.update_conv')
  qed
qed

lemma add_all_view:
  assumes "inj rnd" "catalog_inv rnd c" "map_of (foldl apply_change v0 ch) = map_of (by_id c)"
    and "foldl (add_session rnd tm) (c, ch) found = (c', ch')"
  shows "map_of (foldl apply_change v0 ch') = map_of (by_id c')"
  using assms(2-4)
proof (induction found arbitrary: c ch)
  case (Cons x found)
  obtain c1 ch1 where st: "add_session rnd tm (c, ch) x = (c1, ch1)" by force
  show ?case
    by (rule Cons.IH [of c1 ch1])
      (use Cons.prems st add_session_inv [OF assms(1) Cons.prems(1), of tm ch x]
        add_session_view [OF assms(1) Cons.prems(1,2) refl st] in auto)
qed simp

text \<open>The removals of a scan.\<close>

lemma apply_removals:
  "list_all (\<lambda>e. lID e \<noteq> []) es \<Longrightarrow>
   map_of (foldl apply_change v (map (\<lambda>e. \<lparr>chAdd = None, chRemoveID = lID e\<rparr>) es)) =
     (map_of v) |` (- set (map lID es))"
proof (induction es arbitrary: v)
  case (Cons e es)
  then show ?case
    by (auto simp: apply_change_def AList.delete_conv' restrict_map_def fun_eq_iff)
qed (simp add: restrict_map_def)

lemma scan_locked_entries:
  assumes "scan_locked rnd tm c found notify = (c', changes, removed)"
  shows "cEntries c' = filter (\<lambda>(key, _). key \<in> fst ` set found)
           (cEntries (fst (foldl (add_session rnd tm) (c, []) found)))"
    and "removed = map snd (filter (\<lambda>(key, _). key \<notin> fst ` set found)
           (cEntries (fst (foldl (add_session rnd tm) (c, []) found))))"
    and "changes = snd (foldl (add_session rnd tm) (c, []) found) @
           map (\<lambda>e. \<lparr>chAdd = None, chRemoveID = lID e\<rparr>) removed"
    and "cDraws c' = cDraws (fst (foldl (add_session rnd tm) (c, []) found))"
  using assms by (auto simp: scan_locked_def Let_def case_prod_beta comp_def split: if_splits)

lemma catalog_inv_filter:
  assumes "catalog_inv rnd c1" "cEntries c' = filter P (cEntries c1)" "cDraws c' = cDraws c1"
  shows "catalog_inv rnd c'"
  using assms by (auto simp: catalog_inv_def distinct_filter_fst intro: inj_on_subset)

lemma scan_inv:
  assumes "inj rnd" "catalog_inv rnd c" "scan_locked rnd tm c found notify = (c', changes, removed)"
  shows "catalog_inv rnd c'"
  using catalog_inv_filter [OF add_all_inv [OF assms(1,2)] scan_locked_entries(1,4) [OF assms(3)]] .

lemma filter_keys_lookup:
  "map_of (filter (\<lambda>(k, _). k \<in> A) xs) key = (if key \<in> A then map_of xs key else None)"
  by (induction xs) auto

lemma scan_lookup:
  assumes "scan_locked rnd tm c found notify = (c', changes, removed)"
  shows "map_of (cEntries c') key \<noteq> None \<longleftrightarrow> key \<in> fst ` set found"
    and "key \<in> fst ` set found \<Longrightarrow> map_of (cEntries c) key = Some e \<Longrightarrow> map_of (cEntries c') key = Some e"
    and "key \<notin> fst ` set found \<Longrightarrow> map_of (cEntries c) key = Some e \<Longrightarrow> e \<in> set removed"
proof -
  show "map_of (cEntries c') key \<noteq> None \<longleftrightarrow> key \<in> fst ` set found"
    using add_all_present [of key found rnd tm c "[]"]
    by (simp add: scan_locked_entries(1) [OF assms] filter_keys_lookup)
  show "map_of (cEntries c') key = Some e" if "key \<in> fst ` set found" "map_of (cEntries c) key = Some e"
    using add_all_keeps [OF that(2)] that(1) by (simp add: scan_locked_entries(1) [OF assms] filter_keys_lookup)
  show "e \<in> set removed" if "key \<notin> fst ` set found" "map_of (cEntries c) key = Some e"
    using map_of_SomeD [OF add_all_keeps [OF that(2), of rnd tm "[]" found]] that(1)
    by (force simp: scan_locked_entries(2) [OF assms])
qed

text \<open>A subscriber that applies the changes of a scan to the old catalog has the new one.\<close>

text \<open>The ids of the entries that are dropped are those of no session that was found.\<close>

lemma removed_ids:
  assumes inv: "catalog_inv rnd c" and entry: "(k, e) \<in> set (cEntries c)"
    and removed: "removed = map snd (filter (\<lambda>(key, _). key \<notin> fst ` set found) (cEntries c))"
  shows "lID e \<in> lID ` set removed \<longleftrightarrow> k \<notin> fst ` set found"
proof
  assume "lID e \<in> lID ` set removed"
  then obtain k' e' where e': "(k', e') \<in> set (cEntries c)" "k' \<notin> fst ` set found" "lID e = lID e'"
    by (auto simp: removed)
  have "inj_on lID (snd ` set (cEntries c))" using inv by (simp add: catalog_inv_def)
  moreover have "e \<in> snd ` set (cEntries c)" "e' \<in> snd ` set (cEntries c)"
    using entry e'(1) image_eqI [of _ snd] by (metis snd_conv)+
  ultimately have "e = e'" using e'(3) by (simp add: inj_onD)
  moreover have "lCmd e = k" "lCmd e' = k'" using inv entry e'(1) unfolding catalog_inv_def by blast+
  ultimately show "k \<notin> fst ` set found" using e'(2) by simp
next
  assume "k \<notin> fst ` set found"
  with entry show "lID e \<in> lID ` set removed" by (force simp: removed)
qed

lemma scan_view:
  assumes inj: "inj rnd" and ids: "\<And>n. rnd n \<noteq> []" and inv: "catalog_inv rnd c"
    and view: "map_of v = map_of (by_id c)"
    and scan: "scan_locked rnd tm c found notify = (c', changes, removed)"
  shows "map_of (foldl apply_change v changes) = map_of (by_id c')"
proof -
  obtain c1 adds where st: "foldl (add_session rnd tm) (c, []) found = (c1, adds)" by force
  have v1: "map_of (foldl apply_change v adds) = map_of (by_id c1)"
    by (rule add_all_view [OF inj inv _ st]) (simp add: view)
  have inv1: "catalog_inv rnd c1" using add_all_inv [OF inj inv, of tm "[]" found] by (simp add: st)
  note parts = scan_locked_entries [OF scan, unfolded st fst_conv snd_conv]
  have inv': "catalog_inv rnd c'" by (rule scan_inv [OF inj inv scan])
  have "newSessionID rnd n \<noteq> []" for n
    using ids [of n] by (cases "rnd n") (auto simp: newSessionID_def)
  then have ne: "list_all (\<lambda>e. lID e \<noteq> []) removed"
    using inv1 by (fastforce simp: parts(2) catalog_inv_def list_all_iff)
  note gone = removed_ids [OF inv1 _ parts(2)]
  have "((map_of (by_id c1)) |` (- set (map lID removed))) sid = map_of (by_id c') sid" for sid
  proof -
    have l: "(((map_of (by_id c1)) |` (- set (map lID removed))) sid = Some e) \<longleftrightarrow>
        (\<exists>k. (k, e) \<in> set (cEntries c1) \<and> lID e = sid \<and> sid \<notin> lID ` set removed)" for e
      by (auto simp: restrict_map_def by_id_lookup [OF inv1])
    have r: "map_of (by_id c') sid = Some e \<longleftrightarrow>
        (\<exists>k. (k, e) \<in> set (cEntries c1) \<and> k \<in> fst ` set found \<and> lID e = sid)" for e
      unfolding by_id_lookup [OF inv'] parts(1) by auto
    have "(((map_of (by_id c1)) |` (- set (map lID removed))) sid = Some e) \<longleftrightarrow> map_of (by_id c') sid = Some e" for e
      unfolding l r using gone by blast
    then show ?thesis by (metis option.exhaust)
  qed
  then show ?thesis by (simp add: parts(3) v1 apply_removals [OF ne] fun_eq_iff)
qed

section \<open>Sources\<close>

text \<open>
  What \<^verbatim>\<open>runAgent\<close> relies on from a \<^verbatim>\<open>sessionSource\<close>: a refresh keeps the source well formed, and the
  advertised sessions have different ids.
\<close>

locale session_source =
  fixes ok :: "'s \<Rightarrow> bool"
    and refresh :: "'s \<Rightarrow> 's"
    and sessions :: "'s \<Rightarrow> lazy_session list"
  assumes refresh_ok: "ok s \<Longrightarrow> ok (refresh s)"
    and ids_differ: "ok s \<Longrightarrow> inj_on lID (set (sessions s))"
begin

lemma advertise_avail: "aAvail (advertise e w ls) = AList.update (lID ls) ls (aAvail w)"
  by (simp add: advertise_def Let_def)

lemma connect_avail:
  assumes "ok s"
  shows "map_of (aAvail (agent_connect e r (sessions (refresh s)))) sid = Some ls \<longleftrightarrow>
    ls \<in> set (sessions (refresh s)) \<and> lID ls = sid"
proof -
  have "map_of (aAvail (foldl (advertise e) w xs)) sid = Some ls \<longleftrightarrow>
      (ls \<in> set xs \<and> lID ls = sid) \<or> (sid \<notin> lID ` set xs \<and> map_of (aAvail w) sid = Some ls)"
    if "inj_on lID (set xs)" for w xs
    using that
  proof (induction xs rule: rev_induct)
    case (snoc x xs)
    then show ?case
      by (auto simp: advertise_avail AList.update_conv' inj_on_def split: if_splits)
  qed simp
  from this [OF ids_differ [OF refresh_ok [OF assms]]] show ?thesis
    by (simp add: agent_connect_def agent_New_def)
qed

end

lemma catalog_sessions_set [simp]: "set (catalog_sessions c) = snd ` set (cEntries c)"
  by (simp add: catalog_sessions_def)

interpretation catalog_source:
  session_source "\<lambda>c. inj rnd \<and> catalog_inv rnd c" "\<lambda>c. fst (scan_locked rnd tm c found False)" catalog_sessions
proof unfold_locales
  show "inj rnd \<and> catalog_inv rnd (fst (scan_locked rnd tm c found False))" if "inj rnd \<and> catalog_inv rnd c" for c
    using that scan_inv by (metis prod.collapse)
qed (auto simp: catalog_inv_def)

interpretation fake_source:
  session_source "\<lambda>ls. inj_on lID (set ls)" fake_refresh fake_sessions
  by unfold_locales (simp_all add: fake_refresh_def fake_sessions_def)

section \<open>Subscriptions\<close>

lemma publish_fits:
  "length (queue ch) + length xs \<le> cap ch \<Longrightarrow> publish xs ch = ch\<lparr>queue := queue ch @ xs\<rparr>"
proof (induction xs arbitrary: ch)
  case (Cons x xs)
  then have "chan_try_send ch x = Some (ch\<lparr>queue := queue ch @ [x]\<rparr>)" by (simp add: chan_try_send_def)
  with Cons.IH [of "ch\<lparr>queue := queue ch @ [x]\<rparr>"] Cons.prems show ?case by (simp add: publish_def)
qed (simp add: publish_def)

text \<open>Scans after a subscription, with all the changes they publish.\<close>

fun catalog_scans ::
    "(nat \<Rightarrow> bytes) \<Rightarrow> catalog \<Rightarrow> (int \<times> (string \<times> activation) list) list \<Rightarrow> catalog \<times> session_change list" where
  "catalog_scans rnd c [] = (c, [])"
| "catalog_scans rnd c ((tm, found) # fs) =
     (let (c1, changes, _) = scan_locked rnd tm c found True; (c2, rest) = catalog_scans rnd c1 fs
      in (c2, changes @ rest))"

lemma scan_subs:
  assumes "scan_locked rnd tm c found True = (c', changes, removed)"
  shows "cSubs c' = map (\<lambda>(i, ch). (i, publish changes ch)) (cSubs c)"
proof -
  have "cSubs (fst (foldl (add_session rnd tm) (c, ch) found)) = cSubs c" for c ch
  proof (induction found arbitrary: c ch)
    case (Cons x found)
    obtain k act where x: "x = (k, act)" by force
    show ?case
      by (cases rule: add_session_cases [of c k rnd tm ch act]) (use Cons in \<open>simp_all add: x\<close>)
  qed simp
  with assms show ?thesis by (auto simp: scan_locked_def Let_def case_prod_beta)
qed

lemma scans_subscriber:
  assumes "catalog_scans rnd c fs = (c', changes)" "map_of (cSubs c) i = Some ch"
    and "length (queue ch) + length changes \<le> cap ch"
  shows "map_of (cSubs c') i = Some (ch\<lparr>queue := queue ch @ changes\<rparr>)"
  using assms
proof (induction fs arbitrary: c c' ch changes)
  case (Cons x fs)
  obtain tm found where x: "x = (tm, found)" by force
  obtain c1 ch1 rem where scan: "scan_locked rnd tm c found True = (c1, ch1, rem)" by (metis prod_cases3)
  obtain c2 ch2 where rest: "catalog_scans rnd c1 fs = (c2, ch2)" by force
  have ch: "c' = c2" "changes = ch1 @ ch2" using Cons.prems(1) by (auto simp: x scan rest)
  have "map_of (cSubs c1) i = Some (ch\<lparr>queue := queue ch @ ch1\<rparr>)"
    using Cons.prems(2,3) publish_fits [of ch ch1]
    by (simp add: scan_subs [OF scan] map_of_map ch)
  from Cons.IH [OF rest this] Cons.prems(3) show ?case by (simp add: ch)
qed simp

lemma scans_view:
  assumes "inj rnd" "\<And>n. rnd n \<noteq> []" "catalog_inv rnd c" "map_of v = map_of (by_id c)"
    and "catalog_scans rnd c fs = (c', changes)"
  shows "map_of (foldl apply_change v changes) = map_of (by_id c')"
  using assms(3-5)
proof (induction fs arbitrary: c c' v changes)
  case (Cons x fs)
  obtain tm found where x: "x = (tm, found)" by force
  obtain c1 ch1 rem where scan: "scan_locked rnd tm c found True = (c1, ch1, rem)" by (metis prod_cases3)
  obtain c2 ch2 where rest: "catalog_scans rnd c1 fs = (c2, ch2)" by force
  have "map_of (foldl apply_change (foldl apply_change v ch1) ch2) = map_of (by_id c2)"
    by (rule Cons.IH [OF scan_inv [OF assms(1) Cons.prems(1) scan] scan_view [OF assms(1,2) Cons.prems(1,2) scan] rest])
  with Cons.prems(3) show ?case by (auto simp: x scan rest)
qed simp

section \<open>Properties\<close>

lemma get_Remove: "reg_Get (reg_Remove r sid) sid = None"
  by (auto simp: reg_Remove_def reg_Get_def close_term_def set_term_def AList.delete_conv' split: option.split)

lemma scan_remove_shrinks: "reg_shrinks r (fst (scan_remove r es))"
proof (induction es arbitrary: r)
  case (Cons e es)
  then show ?case
    using shrinks_trans [OF shrinks_Remove] by (auto simp: case_prod_beta Let_def split: option.split)
qed (simp add: shrinks_refl)

lemma scan_remove_gone: "e \<in> set es \<Longrightarrow> reg_Get (fst (scan_remove r es)) (lID e) = None"
proof (induction es arbitrary: r)
  case (Cons x es)
  have keep: "reg_Get (fst (scan_remove r' es)) sid = None" if "reg_Get r' sid = None" for r' sid
    using scan_remove_shrinks [of r' es] that unfolding reg_shrinks_def by (metis option.exhaust)
  show ?case
  proof (cases "e = x")
    case True
    then show ?thesis using keep [OF get_Remove] keep by (auto simp: case_prod_beta Let_def split: option.split)
  next
    case False
    with Cons show ?thesis by (auto simp: case_prod_beta Let_def split: option.split)
  qed
qed simp





end
