(* ===== verification/Agent_Registry.thy ===== *)
theory Agent_Registry
  imports Session_Catalog
begin

text \<open>
  What a connection does to the registry, as its other users see it: every step of the agent is a sequence of the
  registry's own critical sections.  The locale carries any relation that those sections respect through whole
  connections; it is interpreted for the invariant of the table and for the accounting of processes.
\<close>

section \<open>Sessions a connection knows\<close>

definition lazies_in :: "(lazy_session \<Rightarrow> bool) \<Rightarrow> agent \<Rightarrow> bool" where
  "lazies_in Q w \<longleftrightarrow> all_values Q (aLazy w) \<and> all_values Q (aAvail w)"

fun event_lazies_in :: "(lazy_session \<Rightarrow> bool) \<Rightarrow> agent_event \<Rightarrow> bool" where
  "event_lazies_in Q (EvChange c) \<longleftrightarrow> (case chAdd c of Some ls \<Rightarrow> Q ls | None \<Rightarrow> True)"
| "event_lazies_in Q _ \<longleftrightarrow> True"

lemma finishSession_lazies:
  assumes "lazies_in Q w" "finishSession w f = Some w'" shows "lazies_in Q w'"
  using assms
  by (auto simp: finishSession_def Let_def restoreLazySession_def lazies_in_def
      split: if_splits option.splits dest: all_values_map_of)

lemma attach_activate_lazies:
  assumes "lazies_in Q w" shows "lazies_in Q (fst (attach_activate e w msg))"
  using assms by (auto simp: attach_activate_def lazies_in_def Let_def case_prod_beta split: option.split)

lemma handle_lazies:
  assumes "lazies_in Q w" "handleServerMsg e w msg = Some w'" shows "lazies_in Q w'"
proof (cases "rType msg = ''client_attach''")
  case True
  then obtain w1 where w1: "finishIfEnded w (rSessionID msg) = Some w1"
    and w': "w' = (let (w2, go_on) = attach_activate e w1 msg in
      if go_on then requestSnapshot w2 (rSessionID msg) (rClientID msg) else w2)"
    using assms by (auto simp: handleServerMsg_def handle_attach_def Let_def split: option.splits prod.splits)
  have "lazies_in Q w1"
    using w1 assms(1) finishSession_lazies by (auto simp: finishIfEnded_def split: option.splits)
  from attach_activate_lazies [OF this, of e msg] show ?thesis
    by (auto simp: w' Let_def case_prod_beta lazies_in_def)
next
  case False
  have "aLazy (handle_input e w msg) = aLazy w" "aAvail (handle_input e w msg) = aAvail w"
    "aLazy (handle_resize e w msg) = aLazy w" "aAvail (handle_resize e w msg) = aAvail w"
    by (simp_all add: handle_input_def handle_resize_def split: option.split)
  with False assms show ?thesis
    by (auto simp: handleServerMsg_def lazies_in_def split: if_splits)
qed

lemma step_lazies:
  assumes "lazies_in Q w" "event_lazies_in Q ev" "agent_step w ev = Some w'"
  shows "lazies_in Q w'"
proof (cases ev)
  case (EvServer e msg)
  with assms handle_lazies show ?thesis by simp
next
  case (EvChange c)
  with assms show ?thesis
    by (auto simp: handle_change_def Let_def lazies_in_def split: option.splits if_splits)
next
  case EvEnded
  with assms show ?thesis
    by (auto split: option.splits simp: lazies_in_def [of Q w] intro!: finishSession_lazies [of Q _ _ w'])
      (simp add: lazies_in_def)
qed (use assms in \<open>auto simp: lazies_in_def fw_take_def fw_send_def fw_stop_def fw_notify_def
    sendWait_def set_fw_def output_step_def Let_def case_prod_beta
    split: if_splits option.splits list.splits dest!: writer_stepD\<close>)

lemma connect_lazies:
  assumes "list_all Q lazy" shows "lazies_in Q (agent_connect e r lazy)"
proof -
  have "lazies_in Q w \<Longrightarrow> list_all Q lazy \<Longrightarrow> lazies_in Q (foldl (advertise e) w lazy)" for w
    by (induction lazy arbitrary: w) (auto simp: advertise_def lazies_in_def Let_def)
  moreover have "lazies_in Q (agent_New r)" by (simp add: lazies_in_def agent_New_def all_values_def)
  ultimately show ?thesis using assms by (simp add: agent_connect_def)
qed

section \<open>Relations the registry respects\<close>

locale registry_view =
  fixes R :: "string registry \<Rightarrow> string registry \<Rightarrow> bool"
    and Q :: "lazy_session \<Rightarrow> bool"
  assumes R_refl: "R r r"
    and R_trans: "R r r' \<Longrightarrow> R r' r'' \<Longrightarrow> R r r''"
    and R_term: "(term_Done (term_at r t) \<longrightarrow> term_Done x) \<Longrightarrow> R r (set_term r t x)"
    and R_Remove: "R r (reg_Remove r sid)"
    and R_cleanup: "R r (reg_step r (RCleanup k))"
    and R_activate: "Q ls \<Longrightarrow> R (aReg w) (aReg (fst (lazy_activate e w ls c rs)))"
begin

lemma R_start: "R (aReg w) (aReg (startForwarder w sid))"
  by (auto simp: startForwarder_def Let_def R_refl split: option.split intro!: R_term)

lemma R_early: "R (aReg w) (aReg (early_end e w sid))"
  by (auto simp: early_end_def R_refl split: option.split intro!: R_term)

lemma R_attach:
  assumes "lazies_in Q w" shows "R (aReg w) (aReg (fst (attach_activate e w msg)))"
proof (cases "map_of (aLazy w) (rSessionID msg)")
  case (Some ls)
  then have "Q ls" using assms by (auto simp: lazies_in_def dest: all_values_map_of)
  then have act: "R (aReg w) (aReg (fst (lazy_activate e w ls c r)))" for c r by (rule R_activate)
  have "R (aReg w) (aReg (startForwarder ((early_end e (fst (lazy_activate e w ls c r)) s)\<lparr>aModes := ms\<rparr>) s))" for c r s ms
    using R_start [of "(early_end e (fst (lazy_activate e w ls c r)) s)\<lparr>aModes := ms\<rparr>" s]
      R_trans [OF R_trans [OF act R_early]] by simp
  with Some act show ?thesis by (simp add: attach_activate_def Let_def case_prod_beta R_refl)
qed (simp add: attach_activate_def R_refl)

lemma R_handle:
  assumes "lazies_in Q w" "handleServerMsg e w msg = Some w'"
  shows "R (aReg w) (aReg w')"
proof -
  have finish: "aReg w1 = aReg w \<and> lazies_in Q w1" if "finishIfEnded w sid = Some w1" for w1 sid
    using that assms(1) finishSession_lazies input_policy.finishSession_reg [OF readonly_policy.input_policy_axioms]
    by (auto simp: finishIfEnded_def split: option.splits)
  have "R (aReg w) (aReg w1)" if "handle_attach e w msg = Some w1" for w1
    using that R_attach [of _ e msg] finish
    by (auto simp: handle_attach_def Let_def case_prod_beta split: option.splits if_splits) metis+
  moreover have "R (aReg w) (aReg (handle_input e w msg))" "R (aReg w) (aReg (handle_resize e w msg))"
    by (auto simp: handle_input_def handle_resize_def R_refl split: option.split intro!: R_term)
  ultimately show ?thesis using assms(2) by (auto simp: handleServerMsg_def R_refl split: if_splits)
qed

lemma R_step:
  assumes "lazies_in Q w" "agent_step w ev = Some w'"
  shows "R (aReg w) (aReg w')"
proof (cases ev)
  case (EvServer e msg)
  with assms R_handle show ?thesis by simp
next
  case EvEnded
  with assms(2) show ?thesis
    by (auto split: option.splits simp: R_refl
        dest!: input_policy.finishSession_reg [OF readonly_policy.input_policy_axioms])
next
  case (EvCleanup k)
  with assms(2) R_cleanup show ?thesis by (auto simp del: reg_step.simps)
next
  case (EvStop f)
  with assms(2) show ?thesis
    by (auto simp: fw_stop_def set_fw_def Let_def split: if_splits intro!: R_term)
next
  case (EvOutput t d r)
  with assms(2) show ?thesis
    by (auto simp: output_step_def Let_def case_prod_beta split: if_splits intro!: R_term)
next
  case (EvTermEnd t)
  with assms(2) show ?thesis by (auto split: if_splits intro!: R_term)
qed (use assms(2) in \<open>auto simp: R_refl R_Remove handle_change_def fw_take_def fw_send_def fw_notify_def
    sendWait_def set_fw_def Let_def case_prod_beta
    split: if_splits option.splits list.splits dest!: writer_stepD\<close>)

lemma R_run:
  assumes "lazies_in Q w" "list_all (event_lazies_in Q) evs"
  shows "R (aReg w) (aReg (foldl agent_turn w evs)) \<and> lazies_in Q (foldl agent_turn w evs)"
  using assms
proof (induction evs arbitrary: w)
  case (Cons ev evs)
  show ?case
  proof (cases "agent_step w ev")
    case (Some w')
    then have "lazies_in Q w'" "R (aReg w) (aReg w')" using Cons.prems step_lazies R_step by auto
    with Some Cons.IH [of w'] Cons.prems show ?thesis by (auto simp: agent_turn_def intro: R_trans)
  qed (use Cons in \<open>simp add: agent_turn_def\<close>)
qed (simp add: R_refl)

lemma R_connect: "R r (aReg (agent_connect e r lazy))"
proof -
  have adv: "R (aReg w) (aReg (advertise e w ls))" for w ls
  proof -
    let ?w = "w\<lparr>aAvail := AList.update (lID ls) ls (aAvail w)\<rparr>"
    have "R (aReg w) (aReg (startForwarder ((early_end e ?w (lID ls))\<lparr>aModes := ms\<rparr>) (lID ls)))" for ms
      using R_trans [OF R_early [of ?w e "lID ls"] R_start [of "(early_end e ?w (lID ls))\<lparr>aModes := ms\<rparr>" "lID ls", simplified]]
      by simp
    then show ?thesis by (simp add: advertise_def Let_def R_refl)
  qed
  have "R (aReg w) (aReg (foldl (advertise e) w lazy))" for w
    by (induction lazy arbitrary: w) (auto simp: R_refl intro: R_trans [OF adv])
  from this [of "agent_New r"] show ?thesis by (simp add: agent_connect_def agent_New_def)
qed

text \<open>A whole connection.\<close>

lemma R_connection:
  assumes "list_all Q lazy" "list_all (event_lazies_in Q) evs"
  shows "R r (aReg (foldl agent_turn (agent_connect e r lazy) evs))"
  using R_run [OF connect_lazies [OF assms(1)] assms(2)] R_connect R_trans by blast

end

section \<open>The table of sessions\<close>

text \<open>The registry moves by its own critical sections, so its invariant holds in every connection.\<close>

definition reg_moves :: "string registry \<Rightarrow> string registry \<Rightarrow> bool" where
  "reg_moves r r' \<longleftrightarrow> (reg_inv r \<longrightarrow> (\<exists>ops. r' = foldl reg_step r ops))"

lemma reg_moves_inv: "reg_moves r r' \<Longrightarrow> reg_inv r \<Longrightarrow> reg_inv r'"
  by (auto simp: reg_moves_def registry_machine.run_inv)

lemma reg_moves_step: "(reg_inv r \<Longrightarrow> r' = reg_step r op) \<Longrightarrow> reg_moves r r'"
  by (auto simp: reg_moves_def intro: exI [of _ "[op]"])

lemma reg_moves_trans:
  assumes "reg_moves r r'" "reg_moves r' r''" shows "reg_moves r r''"
proof -
  have "\<exists>ops. r'' = foldl reg_step r ops" if inv: "reg_inv r"
  proof -
    obtain ops where "r' = foldl reg_step r ops" using assms(1) inv by (auto simp: reg_moves_def)
    moreover obtain ops' where "r'' = foldl reg_step r' ops'"
      using assms(2) reg_moves_inv [OF assms(1) inv] by (auto simp: reg_moves_def)
    ultimately have "r'' = foldl reg_step r (ops @ ops')" by simp
    then show ?thesis by blast
  qed
  then show ?thesis by (simp add: reg_moves_def)
qed

lemma reg_moves_CreateWithID: "reg_moves r (fst (reg_CreateWithID r ok n sid cmd args c rs))"
proof (cases "if sourceKey cmd args \<noteq> [] then liveSourceLocked r (sourceKey cmd args) else None")
  case (Some e)
  have "eSession e < length (terms r)" if "reg_inv r"
    using that Some
    by (auto simp: liveSourceLocked_def reg_inv_def entry_ok_def split: if_splits option.splits dest!: map_of_SomeD)
  with Some show ?thesis
    by (intro reg_moves_step [where op = "RPut sid \<lparr>iID = sid, iCmd = iCmd (eInfo e), iCreated = iCreated (eInfo e),
        iMode = []\<rparr> (eSession e) []"]) (simp add: reg_CreateWithID_def reg_alias_def)
next
  case no_source: None
  show ?thesis
  proof (cases "pty_New ok cmd c rs :: string pty_session option")
    case None
    with no_source have "fst (reg_CreateWithID r ok n sid cmd args c rs) = foldl reg_step r []"
      by (simp add: reg_CreateWithID_def reg_spawn_def)
    then show ?thesis unfolding reg_moves_def by blast
  next
    case (Some p)
    with no_source show ?thesis
      by (auto simp: reg_CreateWithID_def reg_spawn_def new_term_def Let_def reg_moves_def
          intro!: exI [of _ "[RNew (PtyTerm p), RPut sid \<lparr>iID = sid, iCmd = cmd, iCreated = n, iMode = []\<rparr>
            (length (terms r)) (sourceKey cmd args)]"])
  qed
qed

lemma reg_moves_foldl: "r' = foldl reg_step r ops \<Longrightarrow> reg_moves r r'"
  by (auto simp: reg_moves_def)

lemma reg_moves_activate: "reg_moves (aReg w) (aReg (fst (lazy_activate e w ls c rs)))"
proof (cases "lActivate ls")
  case (ActFake p)
  let ?x = "FakeTerm (fake_NewSession c rs)"
  have "length (terms (aReg w)) < length (terms (fst (new_term (aReg w) ?x)))" by (simp add: new_term_def)
  then obtain ops where "fst (reg_Add (fst (new_term (aReg w) ?x)) (now e) (lID ls) (program_name p) (length (terms (aReg w)))) =
      foldl reg_step (fst (new_term (aReg w) ?x)) ops"
    using reg_Add_steps by blast
  then show ?thesis
    using ActFake reg_moves_foldl [of _ "aReg w" "RNew ?x # ops"] by (simp add: lazy_activate_def Let_def case_prod_beta new_term_def)
qed (simp_all add: lazy_activate_def Let_def case_prod_beta reg_moves_CreateWithID)

interpretation table_view: registry_view reg_moves "\<lambda>_. True"
proof
  show "reg_moves r (reg_Remove r sid)" for r sid using reg_Remove_steps [of r sid] reg_moves_foldl by blast
  show "reg_moves r (reg_step r (RCleanup k))" for r k using reg_moves_step by blast
  show "reg_moves r r'' " if "reg_moves r r'" "reg_moves r' r''" for r r' r'' using that by (rule reg_moves_trans)
  show refl: "reg_moves r r" for r using reg_moves_foldl [of r r "[]"] by simp
  show "reg_moves r (set_term r t x)" if "term_Done (term_at r t) \<longrightarrow> term_Done x" for r t x
    using that refl [of r] set_term_beyond [of t r x] reg_moves_step [of r _ "RTerm t x"]
    by (cases "t < length (terms r)") auto
qed (rule reg_moves_activate)

section \<open>Processes\<close>

text \<open>
  The sources of the processes that were started, beside the registry; \<open>src_of\<close> is the source key of the command of a
  session id, which no two sessions share unless they show the same multiplexer session.
\<close>

definition accounted :: "(string \<Rightarrow> string) \<Rightarrow> string registry \<Rightarrow> bool" where
  "accounted src_of r \<longleftrightarrow> (\<exists>started. dedup_inv src_of (r, started) \<and> [] \<notin> set started)"

definition runs_source :: "(string \<Rightarrow> string) \<Rightarrow> lazy_session \<Rightarrow> bool" where
  "runs_source src_of ls \<longleftrightarrow>
     (case lActivate ls of
        ActTmux name \<Rightarrow> src_of (lID ls) = (case LinkedSessionArgs name of (cmd, args) \<Rightarrow> sourceKey cmd args)
      | ActScreen fullName \<Rightarrow> src_of (lID ls) = (case screen_AttachArgs fullName of (cmd, args) \<Rightarrow> sourceKey cmd args)
      | ActFake _ \<Rightarrow> False)"

lemma runs_source_ne: "runs_source src_of ls \<Longrightarrow> src_of (lID ls) \<noteq> []"
  using sourceKey_linked sourceKey_screen by (auto simp: runs_source_def split: activation.splits)

lemma accounted_CreateWithID:
  assumes "accounted src_of r" "sourceKey cmd args = src_of sid" "src_of sid \<noteq> []"
  shows "accounted src_of (fst (reg_CreateWithID r ok n sid cmd args c rs))"
proof -
  obtain g where g: "dedup_inv src_of (r, g)" "[] \<notin> set g" using assms(1) by (auto simp: accounted_def)
  have "dedup_inv src_of (dedup_step (r, g) (DActivate sid ok n cmd args c rs))"
    by (rule dedup_inv_step [OF g(1)]) (simp add: assms(2))
  then show ?thesis
    using g(2) assms(2,3)
    unfolding accounted_def
    by (intro exI [of _ "snd (dedup_step (r, g) (DActivate sid ok n cmd args c rs))"]) (auto simp: Let_def)
qed

lemma accounted_activate:
  assumes "accounted src_of (aReg w)" "runs_source src_of ls"
  shows "accounted src_of (aReg (fst (lazy_activate e w ls c rs)))"
  using assms runs_source_ne [OF assms(2)] accounted_CreateWithID [OF assms(1)]
  by (auto simp: lazy_activate_def runs_source_def Let_def case_prod_beta split: activation.splits)

interpretation process_view:
  registry_view "\<lambda>r r'. accounted src_of r \<longrightarrow> accounted src_of r'" "runs_source src_of" for src_of
proof
  fix r :: "string registry" and t x k sid
  show "accounted src_of r \<longrightarrow> accounted src_of (set_term r t x)" if "term_Done (term_at r t) \<longrightarrow> term_Done x"
    using dedup_inv_term [of src_of r _ t x] that by (auto simp: accounted_def)
  show "accounted src_of r \<longrightarrow> accounted src_of (reg_Remove r sid)"
    using dedup_inv_Remove [of src_of r] by (auto simp: accounted_def)
  show "accounted src_of r \<longrightarrow> accounted src_of (reg_step r (RCleanup k))"
    using dedup_inv_step [of src_of "(r, _)" "DCleanup k"] by (auto simp: accounted_def simp del: reg_step.simps)
qed (auto intro: accounted_activate)

text \<open>Every running process is still registered, and two ids of one multiplexer session show the same process.\<close>

lemma accounted_processes:
  assumes "accounted src_of r"
  shows "t < length (terms r) \<Longrightarrow> reg_alive r t \<Longrightarrow> \<exists>sid. reg_Get r sid = Some t"
    "reg_Get r sid = Some t \<Longrightarrow> reg_Get r sid' = Some t' \<Longrightarrow> src_of sid = src_of sid' \<Longrightarrow> t = t'"
proof -
  obtain g where g: "dedup_inv src_of (r, g)" "[] \<notin> set g" using assms by (auto simp: accounted_def)
  have found: "found_at r (g ! u) u" if "u < length (terms r)" "reg_alive r u" for u
    using g that by (auto simp: dedup_inv_def in_set_conv_nth)
  show "\<exists>sid. reg_Get r sid = Some t" if running: "t < length (terms r)" "reg_alive r t"
  proof -
    obtain sid e where "map_of (entries r) sid = Some e" "eSession e = t"
      using found [OF running] by (auto simp: found_at_def)
    then have "reg_Get r sid = Some t" using running(2) by (simp add: reg_Get_def)
    then show ?thesis by blast
  qed
  have entry: "u < length (terms r) \<and> reg_alive r u \<and> g ! u = src_of s" if "reg_Get r s = Some u" for s u
    using that g(1) by (auto simp: reg_Get_def dedup_inv_def split: option.splits if_splits)
  show "t = t'" if "reg_Get r sid = Some t" "reg_Get r sid' = Some t'" "src_of sid = src_of sid'"
    using found [of t] found [of t'] entry [OF that(1)] entry [OF that(2)] that(3) by (auto intro: found_at_unique)
qed

end
