(* ===== verification/Agent_Streams.thy ===== *)
theory Agent_Streams
  imports Agent_Attach
begin

text \<open>
  What the registry's operations do to the output streams of its terminals: nothing, except that a new terminal
  brings a new stream.  Only a terminal's own output and the forwarders' subscriptions change a stream.
\<close>

section \<open>Streams stay as they are\<close>

definition streams_kept :: "'cb registry \<Rightarrow> 'cb registry \<Rightarrow> bool" where
  "streams_kept r r' \<longleftrightarrow> length (terms r) \<le> length (terms r') \<and>
     (\<forall>t < length (terms r). term_stream (term_at r' t) = term_stream (term_at r t)) \<and>
     (\<forall>t < length (terms r'). length (terms r) \<le> t \<longrightarrow> (\<exists>n. term_stream (term_at r' t) = stream_New n))"

lemma term_at_set_term:
  "term_at (set_term r t x) u = (if u = t \<and> t < length (terms r) then x else term_at r u)"
  by (cases "t < length (terms r)"; cases "u = t") (auto simp: term_at_def set_term_def list_update_beyond)

lemma length_set_term [simp]: "length (terms (set_term r t x)) = length (terms r)"
  by (simp add: set_term_def)

lemma kept_same: "terms r' = terms r \<Longrightarrow> streams_kept r r'"
  by (simp add: streams_kept_def term_at_def)

lemma kept_trans:
  assumes "streams_kept r r'" "streams_kept r' r''" shows "streams_kept r r''"
proof -
  have "\<exists>n. term_stream (term_at r'' t) = stream_New n" if "t < length (terms r'')" "length (terms r) \<le> t" for t
    using assms that by (cases "t < length (terms r')") (auto simp: streams_kept_def)
  with assms show ?thesis by (auto simp: streams_kept_def)
qed

lemma kept_set_term: "term_stream x = term_stream (term_at r t) \<Longrightarrow> streams_kept r (set_term r t x)"
  by (auto simp: streams_kept_def term_at_set_term)

lemma kept_new: "terms r' = terms r @ [x] \<Longrightarrow> term_stream x = stream_New n \<Longrightarrow> streams_kept r r'"
  by (auto simp: streams_kept_def term_at_def nth_append)

section \<open>Operations of the registry\<close>

lemma kept_close: "streams_kept r (close_term r t)"
  unfolding close_term_def by (rule kept_set_term) simp

lemma kept_Remove: "streams_kept r (reg_Remove r sid)"
  by (auto simp: reg_Remove_def kept_same split: option.split intro: kept_trans [OF kept_same kept_close])

lemma kept_cleanup: "streams_kept r (reg_step r (RCleanup k))"
  by (rule kept_same) (auto simp: run_cleanup_def forgetWhenDone_def split: option.split)

lemma fake_stream: "term_stream (FakeTerm (fake_NewSession c r)) = stream_New ringSize"
  by (simp add: fake_NewSession_def)

lemma kept_spawn: "streams_kept r (fst (reg_spawn r ok n sid cmd src c rs))"
proof (cases "pty_New ok cmd c rs :: 'a pty_session option")
  case (Some p)
  then have "terms (fst (reg_spawn r ok n sid cmd src c rs)) = terms r @ [PtyTerm p]"
    by (simp add: reg_spawn_def new_term_def reg_put_def Let_def)
  moreover have "\<exists>n. term_stream (PtyTerm p) = stream_New n" using Some by (auto simp: pty_New_def split: if_splits)
  ultimately show ?thesis using kept_new by blast
qed (simp add: reg_spawn_def kept_same)

lemma kept_CreateWithID: "streams_kept r (fst (reg_CreateWithID r ok n sid cmd args c rs))"
proof -
  have "streams_kept r (reg_alias r sid e)" for e by (simp add: reg_alias_def reg_put_def kept_same)
  then show ?thesis by (simp add: reg_CreateWithID_def Let_def kept_spawn split: option.split)
qed

lemma kept_Add:
  "term_stream x = stream_New m \<Longrightarrow> streams_kept r (fst (reg_Add (fst (new_term r x)) n sid cmd t))"
  by (auto simp: reg_Add_def Let_def new_term_def reg_put_def split: option.split
      intro: kept_new kept_trans [OF kept_new kept_close])

section \<open>Handlers of the agent\<close>

lemma kept_activate: "streams_kept (aReg w) (aReg (fst (lazy_activate e w ls c r)))"
  using kept_Add [OF fake_stream, of "aReg w"]
  by (simp add: lazy_activate_def Let_def case_prod_beta kept_CreateWithID new_term_def split: activation.split)

lemma kept_early: "streams_kept (aReg w) (aReg (early_end e w sid))"
  by (auto simp: early_end_def kept_same split: option.split intro: kept_set_term)

lemma kept_input: "streams_kept (aReg w) (aReg (handle_input e w msg))"
  by (auto simp: handle_input_def kept_same split: option.split intro: kept_set_term)

lemma kept_resize: "streams_kept (aReg w) (aReg (handle_resize e w msg))"
  by (auto simp: handle_resize_def kept_same split: option.split intro: kept_set_term)

lemmas kept_rules = kept_same kept_close kept_Remove kept_cleanup kept_activate kept_early kept_input kept_resize

end
