(* ===== verification/Agent_Teardown.thy ===== *)
theory Agent_Teardown
  imports Agent_Registry Agent_Streams
begin

text \<open>
  The end of a connection: what \<^verbatim>\<open>wg.Wait()\<close> in \<^verbatim>\<open>runAgent\<close> of \<^verbatim>\<open>src/cmd/scomp/main.go\<close> waits for, that it gets there,
  and that a connection that has ended leaves no subscription behind on any terminal.
\<close>

section \<open>Subscriptions belong to running forwarders\<close>

definition subs_of :: "'cb terminal \<Rightarrow> chan_id set" where
  "subs_of x = fst ` set (subs (term_stream x))"

definition subs_owned :: "string registry \<Rightarrow> forwarder list \<Rightarrow> bool" where
  "subs_owned r fws \<longleftrightarrow>
     (\<forall>t < length (terms r). \<forall>f \<in> subs_of (term_at r t).
        f < length fws \<and> fTerm (fws ! f) = t \<and> \<not> fExited (fws ! f))"

definition no_subs :: "string registry \<Rightarrow> bool" where
  "no_subs r \<longleftrightarrow> (\<forall>t < length (terms r). subs_of (term_at r t) = {})"

text \<open>No new subscription: terminals keep or lose theirs, and new terminals have none.\<close>

definition subs_shrink :: "string registry \<Rightarrow> string registry \<Rightarrow> bool" where
  "subs_shrink r r' \<longleftrightarrow> length (terms r) \<le> length (terms r') \<and>
     (\<forall>t f. t < length (terms r') \<longrightarrow> f \<in> subs_of (term_at r' t) \<longrightarrow> t < length (terms r) \<and> f \<in> subs_of (term_at r t))"

lemma subs_owned_shrink: "subs_owned r fws \<Longrightarrow> subs_shrink r r' \<Longrightarrow> subs_owned r' fws"
  unfolding subs_owned_def subs_shrink_def by blast

lemma subs_shrink_same: "terms r' = terms r \<Longrightarrow> subs_shrink r r'"
  by (simp add: subs_shrink_def term_at_def)

lemma subs_shrink_trans: "subs_shrink r r' \<Longrightarrow> subs_shrink r' r'' \<Longrightarrow> subs_shrink r r''"
  unfolding subs_shrink_def by (meson order_trans)

lemma subs_shrink_set_term: "subs_of x \<subseteq> subs_of (term_at r t) \<Longrightarrow> subs_shrink r (set_term r t x)"
  by (auto simp: subs_shrink_def term_at_set_term split: if_splits)

lemma subs_shrink_kept: "streams_kept r r' \<Longrightarrow> subs_shrink r r'"
proof -
  assume kept: "streams_kept r r'"
  have "t < length (terms r) \<and> f \<in> subs_of (term_at r t)" if t: "t < length (terms r')" "f \<in> subs_of (term_at r' t)" for t f
  proof (cases "t < length (terms r)")
    case True
    with kept t(2) show ?thesis by (simp add: streams_kept_def subs_of_def)
  next
    case False
    then obtain n where "term_stream (term_at r' t) = stream_New n" using kept t(1) by (auto simp: streams_kept_def)
    with t(2) show ?thesis by (simp add: subs_of_def stream_New_def)
  qed
  then show ?thesis using kept by (simp add: subs_shrink_def streams_kept_def)
qed

lemma subs_of_end [simp]: "subs_of (term_end x) = subs_of x"
  by (simp add: subs_of_def)

lemma subs_of_emit [simp]: "subs_of (fst (term_emit x d r chs)) = subs_of x"
  unfolding subs_of_def
  by (cases x; cases r) (simp_all add: pty_emit_def fake_emit_def stream_Emit_def stream_EmitReset_def Let_def case_prod_beta)

lemmas subs_shrink_rules = subs_shrink_kept [OF kept_activate] subs_shrink_kept [OF kept_early]
  subs_shrink_kept [OF kept_input] subs_shrink_kept [OF kept_resize] subs_shrink_kept [OF kept_cleanup]
  subs_shrink_kept [OF kept_Remove]

section \<open>The invariant of a connection\<close>

definition sub_inv :: "agent \<Rightarrow> bool" where
  "sub_inv w \<longleftrightarrow> subs_owned (aReg w) (aFws w)"

lemma sub_inv_shrink: "sub_inv w \<Longrightarrow> subs_shrink (aReg w) (aReg w') \<Longrightarrow> aFws w' = aFws w \<Longrightarrow> sub_inv w'"
  by (simp add: sub_inv_def subs_owned_shrink)

lemma sub_inv_start:
  assumes "sub_inv w" shows "sub_inv (startForwarder w sid)"
proof (cases "reg_Get (aReg w) sid")
  case (Some t)
  let ?f = "length (aFws w)" and ?w = "startForwarder w sid"
  have sub: "subs_of (term_Subscribe x ch cb) = insert ch (subs_of x)" for x :: "string terminal" and ch cb
    by (cases x) (simp_all add: subs_of_def term_Subscribe_def stream_Subscribe_def AList.dom_update)
  have fws: "aFws ?w = aFws w @ [\<lparr>fID = sid, fTerm = t, fOut = [], fExited = False, fNotify = False, fTaken = []\<rparr>]"
    and reg: "aReg ?w = set_term (aReg w) t (term_Subscribe (term_at (aReg w) t) ?f (Some tooSlow))"
    by (simp_all add: startForwarder_def Some Let_def)
  have "f < length (aFws ?w) \<and> fTerm (aFws ?w ! f) = u \<and> \<not> fExited (aFws ?w ! f)"
    if u: "u < length (terms (aReg w))" and f: "f \<in> subs_of (term_at (aReg ?w) u)" for u f
  proof (cases "f \<in> subs_of (term_at (aReg w) u)")
    case True
    then have "f < ?f \<and> fTerm (aFws w ! f) = u \<and> \<not> fExited (aFws w ! f)"
      using assms u by (auto simp: sub_inv_def subs_owned_def)
    then show ?thesis by (simp add: fws nth_append)
  next
    case False
    then have "u = t" "f = ?f" using f by (auto simp: reg term_at_set_term sub split: if_splits)
    then show ?thesis by (simp add: fws)
  qed
  then show ?thesis by (simp add: sub_inv_def subs_owned_def reg)
qed (use assms in \<open>simp add: startForwarder_def\<close>)

text \<open>A forwarder moves: it stays what it was, or it leaves its terminal.\<close>

lemma sub_inv_set_fw:
  assumes "sub_inv w" "aFws w' = (aFws w)[f := fw]"
    and "fExited fw = fExited (aFws w ! f)" "fTerm fw = fTerm (aFws w ! f)" "aReg w' = aReg w"
  shows "sub_inv w'"
proof -
  have "fTerm (aFws w' ! g) = fTerm (aFws w ! g)" "fExited (aFws w' ! g) = fExited (aFws w ! g)"
    if "g < length (aFws w)" for g
    using assms(2-4) that by (cases "g = f"; simp)+
  then show ?thesis using assms(1,2,5) by (simp add: sub_inv_def subs_owned_def)
qed

lemma sub_inv_stop:
  assumes "sub_inv w" "fw_stop w f = Some w'" shows "sub_inv w'"
proof -
  have unsub: "subs_of (term_Unsubscribe x f) = subs_of x - {f}" for x :: "string terminal"
    by (cases x) (auto simp: subs_of_def term_Unsubscribe_def stream_Unsubscribe_def delete_filter)
  have w': "aReg w' = set_term (aReg w) (fTerm (aFws w ! f)) (term_Unsubscribe (term_at (aReg w) (fTerm (aFws w ! f))) f)"
    and fws: "f < length (aFws w)" "\<exists>fw. aFws w' = (aFws w)[f := fw]"
    using assms(2) by (auto simp: fw_stop_def set_fw_def Let_def split: if_splits)
  have "g < length (aFws w') \<and> fTerm (aFws w' ! g) = u \<and> \<not> fExited (aFws w' ! g)"
    if u: "u < length (terms (aReg w))" and g: "g \<in> subs_of (term_at (aReg w') u)" for u g
  proof -
    have "g \<in> subs_of (term_at (aReg w) u)" using g by (auto simp: w' term_at_set_term unsub split: if_splits)
    then have old: "g < length (aFws w)" "fTerm (aFws w ! g) = u" "\<not> fExited (aFws w ! g)"
      using assms(1) u by (auto simp: sub_inv_def subs_owned_def)
    then have "g \<noteq> f" using g u by (auto simp: w' term_at_set_term unsub split: if_splits)
    with old fws(2) show ?thesis by auto
  qed
  then show ?thesis by (simp add: sub_inv_def subs_owned_def w')
qed

lemma main_sends_sub_inv: "sub_inv w \<Longrightarrow> main_sends w w' \<Longrightarrow> aReg w' = aReg w \<Longrightarrow> sub_inv w'"
  by (simp add: sub_inv_def main_sends_def)

lemma sub_inv_finish: "sub_inv w \<Longrightarrow> finishSession w f = Some w' \<Longrightarrow> sub_inv w'"
  using main_sends_sub_inv main_sends_finish input_policy.finishSession_reg [OF readonly_policy.input_policy_axioms] by blast

lemma sub_inv_attach:
  assumes "sub_inv w" shows "sub_inv (fst (attach_activate e w msg))"
proof (cases "map_of (aLazy w) (rSessionID msg)")
  case (Some ls)
  have act: "sub_inv (fst (lazy_activate e w ls c r))" for c r
    by (rule sub_inv_shrink [OF assms subs_shrink_rules(1)]) simp
  have "sub_inv ((early_end e (fst (lazy_activate e w ls c r)) s)\<lparr>aModes := ms\<rparr>)" for c r s ms
    using sub_inv_shrink [OF act subs_shrink_rules(2)] by (simp add: sub_inv_def)
  then have "sub_inv (startForwarder ((early_end e (fst (lazy_activate e w ls c r)) s)\<lparr>aModes := ms\<rparr>) s)" for c r s ms
    by (rule sub_inv_start)
  with Some act assms show ?thesis by (simp add: attach_activate_def Let_def case_prod_beta sub_inv_def)
qed (use assms in \<open>simp add: attach_activate_def\<close>)

lemma sub_inv_handle:
  assumes "sub_inv w" "handleServerMsg e w msg = Some w'" shows "sub_inv w'"
proof -
  have finish: "sub_inv w1" if "finishIfEnded w sid = Some w1" for w1 sid
    using that assms(1) sub_inv_finish by (auto simp: finishIfEnded_def split: option.splits)
  have "sub_inv w1" if "handle_attach e w msg = Some w1" for w1
    using that sub_inv_attach [OF finish, of "rSessionID msg" _ e msg]
    by (auto simp: handle_attach_def Let_def case_prod_beta sub_inv_def split: option.splits if_splits)
  moreover have "sub_inv (handle_input e w msg)" "sub_inv (handle_resize e w msg)"
    using sub_inv_shrink [OF assms(1) subs_shrink_rules(3)] sub_inv_shrink [OF assms(1) subs_shrink_rules(4)]
    by (simp_all add: handle_input_def handle_resize_def split: option.split)
  moreover have "sub_inv (w\<lparr>aPair := ps\<rparr>)" for ps using assms(1) by (simp add: sub_inv_def)
  ultimately show ?thesis using assms by (auto simp: handleServerMsg_def split: if_splits)
qed

lemma sub_inv_outside:
  assumes "sub_inv w"
  shows "agent_step w (EvOutput t d r) = Some w' \<Longrightarrow> sub_inv w'" "agent_step w (EvTermEnd t) = Some w' \<Longrightarrow> sub_inv w'"
    "agent_step w (EvCleanup k) = Some w' \<Longrightarrow> sub_inv w'" "agent_step w (EvRemove sid) = Some w' \<Longrightarrow> sub_inv w'"
  using subs_shrink_rules(5) [of "aReg w" k] subs_shrink_rules(6) [of "aReg w" sid]
  by (auto simp: output_step_def Let_def case_prod_beta simp del: reg_step.simps split: if_splits
      intro!: sub_inv_shrink [OF assms] subs_shrink_set_term)

lemma sub_inv_forward:
  assumes "sub_inv w"
  shows "agent_step w (EvTake f) = Some w' \<Longrightarrow> sub_inv w'" "agent_step w (EvQueue f) = Some w' \<Longrightarrow> sub_inv w'"
    "agent_step w (EvNotify f) = Some w' \<Longrightarrow> sub_inv w'" "agent_step w (EvStop f) = Some w' \<Longrightarrow> sub_inv w'"
  using sub_inv_stop [OF assms]
  by (auto simp: fw_take_def fw_send_def fw_notify_def sendWait_def set_fw_def Let_def
      split: if_splits option.splits prod.splits list.splits intro!: sub_inv_set_fw [OF assms, where f = f])

lemma sub_inv_main:
  assumes "sub_inv w"
  shows "agent_step w (EvServer e msg) = Some w' \<Longrightarrow> sub_inv w'" "agent_step w EvEnded = Some w' \<Longrightarrow> sub_inv w'"
    "agent_step w (EvChange c) = Some w' \<Longrightarrow> sub_inv w'" "agent_step w (EvWrite wake) = Some w' \<Longrightarrow> sub_inv w'"
    "agent_step w (EvConnError err) = Some w' \<Longrightarrow> sub_inv w'"
proof -
  have "sub_inv (w\<lparr>aEnded := c\<rparr>)" for c using assms by (simp add: sub_inv_def)
  then show "agent_step w EvEnded = Some w' \<Longrightarrow> sub_inv w'" by (auto split: option.splits intro: sub_inv_finish)
  show "agent_step w (EvServer e msg) = Some w' \<Longrightarrow> sub_inv w'" using sub_inv_handle [OF assms] by simp
qed (use assms in \<open>auto simp: sub_inv_def handle_change_def Let_def split: option.splits if_splits dest!: writer_stepD\<close>)

lemma sub_inv_step:
  assumes "sub_inv w" "agent_step w ev = Some w'" shows "sub_inv w'"
  using assms(2) sub_inv_main [OF assms(1)] sub_inv_forward [OF assms(1)] sub_inv_outside [OF assms(1)]
  by (cases ev) (simp_all only:)

lemma sub_inv_turn: "sub_inv w \<Longrightarrow> sub_inv (agent_turn w ev)"
  by (auto simp: agent_turn_def split: option.split intro: sub_inv_step)

interpretation subscription_machine: invariant_machine agent_turn sub_inv
  by unfold_locales (rule sub_inv_turn)

lemma sub_inv_connect:
  assumes "no_subs r" shows "sub_inv (agent_connect e r lazy)"
proof -
  have "sub_inv (advertise e w ls)" if "sub_inv w" for w ls
  proof -
    let ?w = "w\<lparr>aAvail := AList.update (lID ls) ls (aAvail w)\<rparr>"
    have "sub_inv ((early_end e ?w s)\<lparr>aModes := ms\<rparr>)" for s ms
      using sub_inv_shrink [OF _ subs_shrink_rules(2), of ?w e s] that by (simp add: sub_inv_def)
    from sub_inv_start [OF this] that show ?thesis by (simp add: advertise_def Let_def sub_inv_def)
  qed
  then have "sub_inv w \<Longrightarrow> sub_inv (foldl (advertise e) w lazy)" for w by (induction lazy arbitrary: w) auto
  moreover have "sub_inv (agent_New r)" using assms by (auto simp: sub_inv_def agent_New_def subs_owned_def no_subs_def)
  ultimately show ?thesis by (simp add: agent_connect_def)
qed

section \<open>The goroutines return\<close>

text \<open>
  Once the connection is lost, the main loop waits and handles nothing any more, and a forwarder back at its \<^verbatim>\<open>select\<close>
  finds \<^verbatim>\<open>connDone\<close> closed.  Everything else goes on: forwarders in the middle of an event, terminals, cleanups, scans.
\<close>

fun winding_down :: "agent_event \<Rightarrow> bool" where
  "winding_down (EvServer _ _) \<longleftrightarrow> False"
| "winding_down (EvChange _) \<longleftrightarrow> False"
| "winding_down EvEnded \<longleftrightarrow> False"
| "winding_down (EvTake _) \<longleftrightarrow> False"
| "winding_down _ \<longleftrightarrow> True"

definition returned :: "agent \<Rightarrow> bool" where
  "returned w \<longleftrightarrow> aDone w \<and> list_all (\<lambda>fw. fExited fw \<and> \<not> fNotify fw) (aFws w)"

text \<open>How far a forwarder is: sending, at its \<^verbatim>\<open>select\<close>, announcing the end of its terminal, gone.\<close>

definition stage :: "forwarder \<Rightarrow> nat" where
  "stage fw = (if fExited fw then (if fNotify fw then 2 else 3) else if fOut fw = [] then 1 else 0)"

definition progress :: "agent \<Rightarrow> agent \<Rightarrow> bool" where
  "progress w w' \<longleftrightarrow> aDone w' \<and> length (aFws w') = length (aFws w) \<and>
     (\<forall>g < length (aFws w). stage (aFws w ! g) \<le> stage (aFws w' ! g))"

lemma progress_same: "aDone w' \<Longrightarrow> aFws w' = aFws w \<Longrightarrow> progress w w'"
  by (simp add: progress_def)

lemma progress_set_fw:
  assumes "aDone w'" "aFws w' = (aFws w)[f := fw]" "stage (aFws w ! f) \<le> stage fw"
  shows "progress w w'"
proof -
  have "stage (aFws w ! g) \<le> stage ((aFws w)[f := fw] ! g)" if "g < length (aFws w)" for g
    using assms(3) that by (cases "g = f") simp_all
  with assms show ?thesis by (simp add: progress_def)
qed

lemma done_fold_close: "aDone w \<Longrightarrow> aDone (foldl closeConnection w es)"
  by (induction es arbitrary: w) simp_all

lemma winding_progress:
  assumes "aDone w" "winding_down ev" "agent_step w ev = Some w'" shows "progress w w'"
proof (cases ev)
  case (EvQueue f)
  with assms show ?thesis
    by (auto simp: fw_send_def sendWait_def set_fw_def Let_def stage_def split: if_splits option.splits prod.splits list.splits
        intro!: progress_set_fw [where f = f])
next
  case (EvStop f)
  with assms show ?thesis
    by (auto simp: fw_stop_def set_fw_def Let_def stage_def split: if_splits intro!: progress_set_fw [where f = f])
next
  case (EvNotify f)
  with assms show ?thesis
    by (auto simp: fw_notify_def set_fw_def Let_def stage_def split: if_splits intro!: progress_set_fw [where f = f])
next
  case (EvOutput t d r)
  with assms show ?thesis
    by (auto simp: output_step_def Let_def case_prod_beta done_fold_close split: if_splits intro!: progress_same)
qed (use assms in \<open>auto split: if_splits intro!: progress_same dest!: writer_stepD\<close>)

lemma winding_turn: "aDone w \<Longrightarrow> winding_down ev \<Longrightarrow> progress w (agent_turn w ev)"
  by (auto simp: agent_turn_def progress_same split: option.split intro: winding_progress)

lemma progress_trans: "progress w w' \<Longrightarrow> progress w' w'' \<Longrightarrow> progress w w''"
  unfolding progress_def by (metis order_trans)

lemma winding_run: "aDone w \<Longrightarrow> list_all winding_down evs \<Longrightarrow> progress w (foldl agent_turn w evs)"
proof (induction evs arbitrary: w)
  case (Cons ev evs)
  then have turn: "progress w (agent_turn w ev)" by (simp add: winding_turn)
  then have "progress (agent_turn w ev) (foldl agent_turn (agent_turn w ev) evs)"
    using Cons by (simp add: progress_def)
  with turn show ?case using progress_trans by simp
qed (simp add: progress_same)

definition at_least :: "nat \<Rightarrow> agent \<Rightarrow> fid \<Rightarrow> bool" where
  "at_least k w f \<longleftrightarrow> aDone w \<and> f < length (aFws w) \<and> k \<le> stage (aFws w ! f)"

lemma winding_at_least: "at_least k w f \<Longrightarrow> list_all winding_down evs \<Longrightarrow> at_least k (foldl agent_turn w evs) f"
  using winding_run [of w evs] by (auto simp: at_least_def progress_def intro: order_trans)

text \<open>What a turn of its own gives a forwarder.\<close>

lemma own_turns:
  "at_least 0 w f \<Longrightarrow> at_least 1 (agent_turn w (EvQueue f)) f"
  "at_least 1 w f \<Longrightarrow> at_least 2 (agent_turn w (EvStop f)) f"
  "at_least 2 w f \<Longrightarrow> at_least 3 (agent_turn w (EvNotify f)) f"
  by (auto simp: at_least_def agent_turn_def fw_send_def fw_stop_def fw_notify_def sendWait_def set_fw_def Let_def
      stage_def split: option.split list.split if_splits)

lemma subseq_ConsE:
  assumes "subseq (x # xs) ys" obtains us vs where "ys = us @ x # vs" "subseq xs vs"
  using list_emb_ConsD [OF assms] by blast

lemma reaches_stage:
  assumes "aDone w" "f < length (aFws w)" "list_all winding_down evs" "subseq [EvQueue f, EvStop f, EvNotify f] evs"
  shows "stage (aFws (foldl agent_turn w evs) ! f) = 3"
proof -
  obtain p q where e1: "evs = p @ EvQueue f # q" "subseq [EvStop f, EvNotify f] q"
    using assms(4) by (rule subseq_ConsE)
  obtain p' q' where e2: "q = p' @ EvStop f # q'" "subseq [EvNotify f] q'" using e1(2) by (rule subseq_ConsE)
  obtain p'' q'' where e3: "q' = p'' @ EvNotify f # q''" using e2(2) by (rule subseq_ConsE)
  have wd: "list_all winding_down p" "list_all winding_down p'" "list_all winding_down p''" "list_all winding_down q''"
    using assms(3) by (simp_all add: e1 e2 e3)
  have "at_least 0 w f" using assms(1,2) by (simp add: at_least_def)
  then have "at_least 1 (foldl agent_turn w (p @ [EvQueue f])) f"
    using own_turns(1) [OF winding_at_least [OF _ wd(1)]] by simp
  then have "at_least 2 (foldl agent_turn w (p @ [EvQueue f] @ p' @ [EvStop f])) f"
    using own_turns(2) [OF winding_at_least [OF _ wd(2)]] by simp
  then have "at_least 3 (foldl agent_turn w (p @ [EvQueue f] @ p' @ [EvStop f] @ p'' @ [EvNotify f])) f"
    using own_turns(3) [OF winding_at_least [OF _ wd(3)]] by simp
  then have "at_least 3 (foldl agent_turn w evs) f"
    using winding_at_least [OF _ wd(4)] by (simp add: e1 e2 e3)
  moreover have "stage fw \<le> 3" for fw by (simp add: stage_def)
  ultimately show ?thesis by (simp add: at_least_def le_antisym)
qed

lemma winding_returns:
  assumes "aDone w" "list_all winding_down rest"
    and "\<And>f. f < length (aFws w) \<Longrightarrow> subseq [EvQueue f, EvStop f, EvNotify f] rest"
  shows "returned (foldl agent_turn w rest)"
proof -
  note P = winding_run [OF assms(1,2), unfolded progress_def]
  have "fExited fw \<and> \<not> fNotify fw" if fw: "fw \<in> set (aFws (foldl agent_turn w rest))" for fw
  proof -
    obtain f where f: "f < length (aFws w)" "fw = aFws (foldl agent_turn w rest) ! f"
      using fw P by (metis in_set_conv_nth)
    then have "stage fw = 3" using reaches_stage [OF assms(1) f(1) assms(2) assms(3) [OF f(1)]] by simp
    then show ?thesis by (auto simp: stage_def split: if_splits)
  qed
  then have "list_all (\<lambda>fw. fExited fw \<and> \<not> fNotify fw) (aFws (foldl agent_turn w rest))"
    unfolding list_all_iff by blast
  with P show ?thesis unfolding returned_def by blast
qed

lemma returned_no_subs:
  assumes "sub_inv w" "returned w" shows "no_subs (aReg w)"
  using assms by (fastforce simp: sub_inv_def subs_owned_def returned_def no_subs_def list_all_length)



end
