(* ===== verification/Agent_Links.thy ===== *)
theory Agent_Links
  imports Agent_Teardown
begin

text \<open>
  What each turn of a connection delivers to a forwarder: a forwarder stays subscribed to its terminal, and every turn of
  the agent is, for one forwarder, a list of operations on its terminal's stream.
\<close>

section \<open>A turn as operations on a stream\<close>

definition stream_of :: "agent \<Rightarrow> fid \<Rightarrow> string stream" where
  "stream_of w f = term_stream (term_at (aReg w) (fTerm (aFws w ! f)))"

definition got :: "agent \<Rightarrow> fid \<Rightarrow> event list" where
  "got w f = fTaken (aFws w ! f) @ queue (aChs w f)"

text \<open>Only a simulated terminal can clear its screen buffer before it prints.\<close>

definition emit_op :: "'cb terminal \<Rightarrow> bytes \<Rightarrow> bool \<Rightarrow> 'cb stream_op" where
  "emit_op x d reset = (if reset \<and> (case x of FakeTerm _ \<Rightarrow> True | PtyTerm _ \<Rightarrow> False) then OpEmitReset d else OpEmit d)"

text \<open>What a turn that led to \<open>w\<close> did to the forwarder's terminal and channel.\<close>

definition turn_ops :: "agent \<Rightarrow> fid \<Rightarrow> agent_event \<Rightarrow> string stream_op list" where
  "turn_ops w f ev =
     (case ev of
        EvOutput t d reset \<Rightarrow>
          if t = fTerm (aFws w ! f) then [emit_op (term_at (aReg w) t) d reset] else []
      | EvServer e msg \<Rightarrow>
          if rType msg = ''client_attach'' \<and> map_of (aFwMap w) (rSessionID msg) = Some f \<and>
             reg_Get (aReg w) (rSessionID msg) \<noteq> None
          then [OpRequest f (rClientID msg)] else []
      | _ \<Rightarrow> [])"

section \<open>Forwarders stay linked to their terminals\<close>

definition streams_ok :: "'cb registry \<Rightarrow> bool" where
  "streams_ok r \<longleftrightarrow> (\<forall>t < length (terms r). stream_inv (term_stream (term_at r t)))"

definition linked :: "agent \<Rightarrow> bool" where
  "linked w \<longleftrightarrow> streams_ok (aReg w) \<and>
     (\<forall>f < length (aFws w). fTerm (aFws w ! f) < length (terms (aReg w)) \<and>
        (\<not> fExited (aFws w ! f) \<longrightarrow> map_of (subs (stream_of w f)) f = Some (Some tooSlow)))"

text \<open>Steps that leave streams, channels and what the forwarders have taken alone.\<close>

definition fw_core :: "forwarder \<Rightarrow> string \<times> tid \<times> bool \<times> event list" where
  "fw_core fw = (fID fw, fTerm fw, fExited fw, fTaken fw)"

definition aside :: "agent \<Rightarrow> agent \<Rightarrow> bool" where
  "aside w w' \<longleftrightarrow> map fw_core (aFws w') = map fw_core (aFws w) \<and> aChs w' = aChs w \<and>
     streams_kept (aReg w) (aReg w') \<and> (aDone w \<longrightarrow> aDone w')"

lemma aside_refl: "aside w w"
  by (simp add: aside_def kept_same)

lemma aside_trans: "aside w w' \<Longrightarrow> aside w' w'' \<Longrightarrow> aside w w''"
  by (auto simp: aside_def intro: kept_trans)

lemma aside_core:
  assumes "aside w w'" "f < length (aFws w)"
  shows "f < length (aFws w')" "fw_core (aFws w' ! f) = fw_core (aFws w ! f)"
proof -
  have len: "length (aFws w') = length (aFws w)" using assms(1) map_eq_imp_length_eq by (auto simp: aside_def)
  then show "f < length (aFws w')" using assms(2) by simp
  have "map fw_core (aFws w') ! f = map fw_core (aFws w) ! f" using assms(1) by (simp add: aside_def)
  then show "fw_core (aFws w' ! f) = fw_core (aFws w ! f)" using assms(2) len by simp
qed

lemma aside_len: "aside w w' \<Longrightarrow> length (aFws w') = length (aFws w)"
  using map_eq_imp_length_eq by (auto simp: aside_def)

lemma aside_forwarder:
  assumes "aside w w'" "linked w" "f < length (aFws w)"
  shows "got w' f = got w f" "stream_of w' f = stream_of w f"
  using aside_core [OF assms(1,3)] assms
  by (auto simp: got_def fw_core_def aside_def stream_of_def streams_kept_def linked_def)

lemma streams_ok_kept: "streams_ok r \<Longrightarrow> streams_kept r r' \<Longrightarrow> streams_ok r'"
  unfolding streams_ok_def streams_kept_def by (metis not_le stream_inv_New)

lemma linked_keeps:
  assumes "linked w" "streams_ok (aReg w')" "length (terms (aReg w)) \<le> length (terms (aReg w'))"
    and "length (aFws w') = length (aFws w)"
    and "\<And>f. f < length (aFws w) \<Longrightarrow> fTerm (aFws w' ! f) = fTerm (aFws w ! f) \<and>
      (\<not> fExited (aFws w' ! f) \<longrightarrow> \<not> fExited (aFws w ! f) \<and>
        map_of (subs (stream_of w' f)) f = map_of (subs (stream_of w f)) f)"
  shows "linked w'"
  using assms unfolding linked_def by (auto intro: order_less_le_trans)

lemma aside_linked:
  assumes "aside w w'" "linked w" shows "linked w'"
proof (rule linked_keeps [OF assms(2)])
  show "streams_ok (aReg w')" using assms streams_ok_kept by (auto simp: aside_def linked_def)
  show "length (terms (aReg w)) \<le> length (terms (aReg w'))" using assms(1) by (simp add: aside_def streams_kept_def)
  show "fTerm (aFws w' ! f) = fTerm (aFws w ! f) \<and> (\<not> fExited (aFws w' ! f) \<longrightarrow> \<not> fExited (aFws w ! f) \<and>
      map_of (subs (stream_of w' f)) f = map_of (subs (stream_of w f)) f)" if "f < length (aFws w)" for f
    using aside_core(2) [OF assms(1) that] aside_forwarder [OF assms that] by (simp add: fw_core_def)
qed (rule aside_len [OF assms(1)])

lemma aside_same:
  "aFws w' = aFws w \<Longrightarrow> aChs w' = aChs w \<Longrightarrow> streams_kept (aReg w) (aReg w') \<Longrightarrow> (aDone w \<Longrightarrow> aDone w') \<Longrightarrow> aside w w'"
  by (simp add: aside_def)

lemma done_sends [simp]:
  "aDone w \<Longrightarrow> aDone (sendSessionAdd w ls a c r)" "aDone w \<Longrightarrow> aDone (sendSessionRemove w s)"
  "aDone w \<Longrightarrow> aDone (send_empty_snapshot w s cl)" "aDone w \<Longrightarrow> aDone (rejectAttach w ls cl)"
  by (simp_all add: sendSessionAdd_def sendSessionRemove_def empty_snapshot_sends rejectAttach_def)

lemma aside_finish: "finishSession w f = Some w' \<Longrightarrow> aside w w'"
  by (auto simp: finishSession_def Let_def restoreLazySession_def aside_refl split: if_splits option.splits
      intro!: aside_same kept_same)

lemma aside_finishIfEnded: "finishIfEnded w sid = Some w' \<Longrightarrow> aside w w'"
  by (auto simp: finishIfEnded_def aside_refl split: option.splits intro: aside_finish)

lemma aside_set_fw: "fw_core fw = fw_core (aFws w ! f) \<Longrightarrow> aside w (set_fw w f fw)"
  by (cases "f < length (aFws w)") (auto simp: aside_def set_fw_def kept_same map_update list_update_beyond
      intro: list_update_same_conv [THEN iffD2])

text \<open>The turns that are aside for every forwarder.\<close>

lemma aside_main:
  "agent_step w EvEnded = Some w' \<Longrightarrow> aside w w'" "agent_step w (EvChange c) = Some w' \<Longrightarrow> aside w w'"
  "agent_step w (EvWrite wake) = Some w' \<Longrightarrow> aside w w'" "agent_step w (EvConnError err) = Some w' \<Longrightarrow> aside w w'"
proof -
  have "aside w (w\<lparr>aEnded := c\<rparr>)" for c by (simp add: aside_same kept_same)
  then show "agent_step w EvEnded = Some w' \<Longrightarrow> aside w w'"
    by (auto split: option.splits intro: aside_trans aside_finish)
qed (auto simp: handle_change_def Let_def aside_refl kept_same split: option.splits if_splits
    intro!: aside_same dest!: writer_stepD)

lemma aside_outside:
  "agent_step w (EvTermEnd t) = Some w' \<Longrightarrow> aside w w'" "agent_step w (EvCleanup k) = Some w' \<Longrightarrow> aside w w'"
  "agent_step w (EvRemove sid) = Some w' \<Longrightarrow> aside w w'"
  by (auto simp: kept_cleanup kept_Remove kept_set_term simp del: reg_step.simps split: if_splits intro!: aside_same)

lemma aside_forward:
  "agent_step w (EvQueue f) = Some w' \<Longrightarrow> aside w w'" "agent_step w (EvNotify f) = Some w' \<Longrightarrow> aside w w'"
proof -
  have "aside w (set_fw (w\<lparr>aSend := c\<rparr>) f fw)" "aside w (set_fw (w\<lparr>aEnded := c'\<rparr>) f fw)"
    if "fw_core fw = fw_core (aFws w ! f)" for c c' fw
    using aside_set_fw [of fw "w\<lparr>aSend := c\<rparr>" f] aside_set_fw [of fw "w\<lparr>aEnded := c'\<rparr>" f] that
    by (simp_all add: aside_def)
  then show "agent_step w (EvQueue f) = Some w' \<Longrightarrow> aside w w'" "agent_step w (EvNotify f) = Some w' \<Longrightarrow> aside w w'"
    by (auto simp: fw_send_def fw_notify_def sendWait_def Let_def fw_core_def split: if_splits list.splits option.splits intro: aside_set_fw)
qed

lemma aside_handle:
  "rType msg \<noteq> ''client_attach'' \<Longrightarrow> agent_step w (EvServer e msg) = Some w' \<Longrightarrow> aside w w'"
proof -
  have "aFws (handle_input e w msg) = aFws w \<and> aChs (handle_input e w msg) = aChs w \<and> aDone (handle_input e w msg) = aDone w"
    "aFws (handle_resize e w msg) = aFws w \<and> aChs (handle_resize e w msg) = aChs w \<and> aDone (handle_resize e w msg) = aDone w"
    by (simp_all add: handle_input_def handle_resize_def split: option.split)
  then have "aside w (handle_input e w msg)" "aside w (handle_resize e w msg)" by (simp_all add: aside_same kept_input kept_resize)
  moreover have "aside w (w\<lparr>aPair := ps\<rparr>)" for ps by (simp add: aside_same kept_same)
  ultimately show "rType msg \<noteq> ''client_attach'' \<Longrightarrow> agent_step w (EvServer e msg) = Some w' \<Longrightarrow> aside w w'"
    by (auto simp: handleServerMsg_def aside_refl split: if_splits)
qed

section \<open>What a turn delivers\<close>

text \<open>
  From \<open>w\<close> to \<open>w'\<close> the operations \<open>ops\<close> happened to the forwarder's terminal and channel: the terminal's ring is the ring
  after them, and as long as connection and forwarder go on, the forwarder got what they specify.
\<close>

definition feeds :: "agent \<Rightarrow> fid \<Rightarrow> string stream_op list \<Rightarrow> agent \<Rightarrow> bool" where
  "feeds w f ops w' \<longleftrightarrow> f < length (aFws w') \<and>
     fTerm (aFws w' ! f) = fTerm (aFws w ! f) \<and> fID (aFws w' ! f) = fID (aFws w ! f) \<and>
     (fExited (aFws w ! f) \<longrightarrow> fExited (aFws w' ! f)) \<and> (aDone w \<longrightarrow> aDone w') \<and>
     ring (stream_of w' f) = foldl (log_apply ring_Write ring_Reset) (ring (stream_of w f)) (concat (map to_log ops)) \<and>
     (\<not> aDone w' \<longrightarrow> \<not> fExited (aFws w' ! f) \<longrightarrow>
        got w' f = got w f @ expected_events (ring_size (ring (stream_of w f))) (ring_Snapshot (ring (stream_of w f))) f ops)"

lemma feeds_aside: "aside w w' \<Longrightarrow> linked w \<Longrightarrow> f < length (aFws w) \<Longrightarrow> feeds w f [] w'"
  using aside_core [of w w' f] aside_forwarder [of w w' f] by (simp add: feeds_def fw_core_def aside_def)

lemma linked_ring: "linked w \<Longrightarrow> f < length (aFws w) \<Longrightarrow> ring_inv (ring (stream_of w f))"
  by (simp add: linked_def streams_ok_def stream_of_def stream_inv_def)

lemma feeds_ring:
  assumes "feeds w f ops w'" "ring_inv (ring (stream_of w f))"
  shows "ring_size (ring (stream_of w' f)) = ring_size (ring (stream_of w f))"
    "ring_Snapshot (ring (stream_of w' f)) = lastn (ring_size (ring (stream_of w f)))
       (retained (ring_Snapshot (ring (stream_of w f))) (concat (map to_log ops)))"
    "ring_inv (ring (stream_of w' f))"
  using assms ring_log.run_keeps [OF assms(2)] by (simp_all add: feeds_def ring_log.snapshot_run)

lemma feeds_trans:
  assumes "feeds w f ops w'" "feeds w' f ops' w''" "linked w" "f < length (aFws w)"
  shows "feeds w f (ops @ ops') w''"
proof -
  note inv = linked_ring [OF assms(3,4)]
  have len: "length (ring_Snapshot (ring (stream_of w f))) \<le> ring_size (ring (stream_of w f))"
    using inv by (rule ring_Snapshot_bound)
  show ?thesis
    using assms(1,2) feeds_ring [OF assms(1) inv] expected_events_append [OF len, of f ops ops']
    by (auto simp: feeds_def)
qed

text \<open>A subscription of another forwarder.\<close>

lemma stream_of_set:
  assumes "aFws w' ! f = aFws w ! f" "aReg w' = set_term (aReg w) t x"
  shows "stream_of w' f = (if fTerm (aFws w ! f) = t \<and> t < length (terms (aReg w)) then term_stream x else stream_of w f)"
  using assms by (auto simp: stream_of_def term_at_set_term)

lemma start_feeds:
  assumes "linked w" "f < length (aFws w)" shows "feeds w f [] (startForwarder w sid)"
proof (cases "reg_Get (aReg w) sid")
  case (Some t)
  let ?w = "startForwarder w sid"
  have fws: "aFws ?w ! f = aFws w ! f" "f < length (aFws ?w)" and ch: "aChs ?w f = aChs w f"
    and reg: "aReg ?w = set_term (aReg w) t (term_Subscribe (term_at (aReg w) t) (length (aFws w)) (Some tooSlow))"
    using Some assms(2) by (simp_all add: startForwarder_def Let_def nth_append)
  have "ring (stream_of ?w f) = ring (stream_of w f)"
    unfolding stream_of_set [OF fws(1) reg] by (auto simp: term_Subscribe_def stream_Subscribe_def stream_of_def)
  with fws ch show ?thesis by (simp add: feeds_def got_def)
qed (use assms in \<open>simp add: startForwarder_def feeds_aside aside_refl\<close>)

lemma start_linked:
  assumes "linked w" "reg_range (aReg w)" shows "linked (startForwarder w sid)"
proof (cases "reg_Get (aReg w) sid")
  case (Some t)
  let ?w = "startForwarder w sid" and ?n = "length (aFws w)"
  have t: "t < length (terms (aReg w))" using assms(2) Some by (rule get_range)
  have fws: "aFws ?w = aFws w @ [\<lparr>fID = sid, fTerm = t, fOut = [], fExited = False, fNotify = False, fTaken = []\<rparr>]"
    and reg: "aReg ?w = set_term (aReg w) t (term_Subscribe (term_at (aReg w) t) ?n (Some tooSlow))"
    using Some by (simp_all add: startForwarder_def Let_def)
  have ok: "streams_ok (aReg ?w)"
    using assms(1) t by (auto simp: linked_def streams_ok_def reg term_at_set_term term_Subscribe_def)
  have "fTerm (aFws ?w ! f) < length (terms (aReg ?w)) \<and>
      (\<not> fExited (aFws ?w ! f) \<longrightarrow> map_of (subs (stream_of ?w f)) f = Some (Some tooSlow))" if "f < length (aFws ?w)" for f
  proof (cases "f = ?n")
    case True
    with t show ?thesis
      by (simp add: fws reg stream_of_def term_at_set_term term_Subscribe_def stream_Subscribe_def update_conv')
  next
    case False
    then have f: "f < ?n" using that by (simp add: fws)
    then have same: "aFws ?w ! f = aFws w ! f" by (simp add: fws nth_append)
    have "map_of (subs (stream_of ?w f)) f = map_of (subs (stream_of w f)) f"
      unfolding stream_of_set [OF same reg] using f
      by (auto simp: term_Subscribe_def stream_Subscribe_def update_conv' stream_of_def)
    with assms(1) f show ?thesis by (simp add: linked_def same) (simp add: reg)
  qed
  with ok show ?thesis by (simp add: linked_def)
qed (use assms in \<open>simp add: startForwarder_def\<close>)

lemma start_new: "f < length (aFws (startForwarder w sid)) \<Longrightarrow> length (aFws w) \<le> f \<Longrightarrow>
    got (startForwarder w sid) f = [] \<and> \<not> fExited (aFws (startForwarder w sid) ! f)"
  by (auto simp: startForwarder_def got_def Let_def chan_make_def nth_append split: option.splits)

text \<open>A request for a snapshot reaches the forwarder it is for.\<close>

lemma linked_same: "linked w \<Longrightarrow> aReg w' = aReg w \<Longrightarrow> aFws w' = aFws w \<Longrightarrow> linked w'"
  by (simp add: linked_def stream_of_def)

lemma done_request [simp]: "aDone w \<Longrightarrow> aDone (requestSnapshot w s c)"
  by (simp add: requestSnapshot_def Let_def case_prod_beta split: option.split)

lemma request_feeds:
  assumes "linked w" "f < length (aFws w)"
    and "\<And>t. \<not> aDone w \<Longrightarrow> reg_Get (aReg w) sid = Some t \<Longrightarrow> map_of (aFwMap w) sid = Some f \<Longrightarrow> fTerm (aFws w ! f) = t"
  shows "feeds w f (if map_of (aFwMap w) sid = Some f \<and> reg_Get (aReg w) sid \<noteq> None then [OpRequest f c] else [])
    (requestSnapshot w sid c)"
proof -
  let ?w = "requestSnapshot w sid c"
  have same: "stream_of ?w f = stream_of w f" by (simp add: stream_of_def)
  show ?thesis
  proof (cases "map_of (aFwMap w) sid = Some f \<and> reg_Get (aReg w) sid \<noteq> None")
    case True
    then obtain t where t: "reg_Get (aReg w) sid = Some t" by blast
    have "got ?w f = got w f @ [snapshot_event (ring_Snapshot (ring (stream_of w f))) c]" if "\<not> aDone ?w"
    proof -
      have "\<not> aDone w" using that done_request by blast
      then have "term_stream (term_at (aReg w) t) = stream_of w f" using assms(3) t True by (simp add: stream_of_def)
      with that True t show ?thesis
        by (auto simp: requestSnapshot_def Let_def got_def term_RequestSnapshot_def stream_RequestSnapshot_def case_prod_beta
            dest: chan_try_send_Some split: option.splits if_splits)
    qed
    with True assms(2) same show ?thesis by (simp add: feeds_def)
  next
    case False
    have "aChs ?w f = aChs w f"
      using False by (auto simp: requestSnapshot_def Let_def term_RequestSnapshot_def stream_RequestSnapshot_def case_prod_beta
          split: option.split)
    with False assms(2) same show ?thesis by (auto simp: feeds_def got_def)
  qed
qed

section \<open>Every turn\<close>

lemma attach_paths:
  assumes "attach_activate e w msg = (w2, go)" "reg_range (aReg w)"
  shows "aside w w2 \<and> (keyed (aLazy w) \<longrightarrow> \<not> go \<longrightarrow> reg_Get (aReg w2) (rSessionID msg) = None) \<or>
    (\<exists>w1 sid. aside w w1 \<and> reg_range (aReg w1) \<and> aside (startForwarder w1 sid) w2 \<and> go)"
proof (cases "map_of (aLazy w) (rSessionID msg)")
  case (Some ls)
  have sid: "lID ls = rSessionID msg" if "keyed (aLazy w)" using that Some by (rule keyed_map_of)
  define cols where "cols = (if rCols msg = 0 then 80 else rCols msg)"
  define rows where "rows = (if rRows msg = 0 then 24 else rRows msg)"
  obtain w1 ok where w1: "lazy_activate e w ls cols rows = (w1, ok)" by force
  note same1 = lazy_activate_frame [of e w ls cols rows, unfolded w1 fst_conv]
  have act: "aside w w1" using kept_activate [of w e ls cols rows] same1 by (simp add: aside_same w1)
  note unfold = attach_activate_def Let_def cols_def [symmetric] rows_def [symmetric]
  consider (running) "reg_Get (aReg w) (lID ls) \<noteq> None" | (failed) "reg_Get (aReg w) (lID ls) = None" "\<not> ok"
    | (started) "reg_Get (aReg w) (lID ls) = None" ok by blast
  then show ?thesis
  proof cases
    case running
    with assms(1) Some show ?thesis by (auto simp: unfold aside_same kept_same)
  next
    case failed
    then have "w2 = rejectAttach w1 ls (rClientID msg)" "\<not> go" using assms(1) Some w1 by (auto simp: unfold)
    moreover have "aReg w1 = aReg w" using failed failed_activation_reg [of e w ls cols rows w1] w1 by simp
    moreover have "aside w1 (rejectAttach w1 ls (rClientID msg))" by (rule aside_same) (simp_all add: kept_same)
    ultimately show ?thesis using failed(1) sid aside_trans [OF act] by (metis rejectAttach_frame(1))
  next
    case started
    let ?w2 = "(early_end e w1 (lID ls))\<lparr>aModes := AList.update (lID ls) (lMode ls) (aModes w1)\<rparr>"
    have "activates (aReg w) (aReg w1) (lID ls)" using activate_activates [OF assms(2), of e ls cols rows w1] w1 started by simp
    then have range: "reg_range (aReg ?w2)" by (simp add: early_end_range activates_def extends_def)
    have "aside w1 ?w2" by (rule aside_same) (simp_all add: kept_early)
    then have "aside w ?w2" by (rule aside_trans [OF act])
    moreover have "w2 = (sendSessionAdd (startForwarder ?w2 (lID ls)) ls True cols rows)\<lparr>aLazy := AList.delete (lID ls) (aLazy w)\<rparr>" go
      using assms(1) Some started w1 same1 by (auto simp: unfold)
    moreover have "aside W ((sendSessionAdd W ls True cols rows)\<lparr>aLazy := lm\<rparr>)" for W lm
      by (rule aside_same) (simp_all add: kept_same)
    ultimately show ?thesis using range by blast
  qed
qed (use assms in \<open>simp add: attach_activate_def aside_refl\<close>)

definition tied :: "agent \<Rightarrow> bool" where
  "tied w \<longleftrightarrow> linked w \<and> reg_inv (aReg w) \<and> sub_inv w \<and> attach_inv False w"

lemma attach_activate_feeds:
  assumes "attach_activate e w msg = (w2, go)" "reg_range (aReg w)" "linked w"
  shows "linked w2" "f < length (aFws w) \<Longrightarrow> feeds w f [] w2"
    "f < length (aFws w2) \<Longrightarrow> length (aFws w) \<le> f \<Longrightarrow> got w2 f = [] \<and> \<not> fExited (aFws w2 ! f)"
    "keyed (aLazy w) \<Longrightarrow> \<not> go \<Longrightarrow> reg_Get (aReg w2) (rSessionID msg) = None"
proof -
  let ?failed = "keyed (aLazy w) \<longrightarrow> \<not> go \<longrightarrow> reg_Get (aReg w2) (rSessionID msg) = None"
  consider (aside) "aside w w2" ?failed
    | (start) w1 sid where "aside w w1" "reg_range (aReg w1)" "aside (startForwarder w1 sid) w2" go
    using attach_paths [OF assms(1,2)] by metis
  then have "linked w2 \<and> (f < length (aFws w) \<longrightarrow> feeds w f [] w2) \<and>
      (f < length (aFws w2) \<longrightarrow> length (aFws w) \<le> f \<longrightarrow> got w2 f = [] \<and> \<not> fExited (aFws w2 ! f)) \<and> ?failed"
  proof cases
    case aside
    then show ?thesis using aside_linked [OF aside(1) assms(3)] feeds_aside [OF aside(1) assms(3)] aside_len by fastforce
  next
    case start
    let ?w = "startForwarder w1 sid"
    have l1: "linked w1" using start(1) assms(3) by (rule aside_linked)
    then have l2: "linked ?w" using start(2) by (rule start_linked)
    have "feeds w f ([] @ ([] @ [])) w2" if "f < length (aFws w)"
    proof -
      have f: "f < length (aFws w1)" using that aside_len [OF start(1)] by simp
      have "feeds w1 f [] ?w" using l1 f by (rule start_feeds)
      moreover have "feeds ?w f [] w2" using start(3) l2 calculation by (intro feeds_aside) (simp_all add: feeds_def)
      ultimately have "feeds w1 f ([] @ []) w2" using l1 f by (rule feeds_trans)
      with feeds_aside [OF start(1) assms(3) that] show ?thesis using assms(3) that by (rule feeds_trans)
    qed
    moreover have "got w2 f = [] \<and> \<not> fExited (aFws w2 ! f)" if "f < length (aFws w2)" "length (aFws w) \<le> f"
    proof -
      have f: "f < length (aFws ?w)" using that(1) aside_len [OF start(3)] by simp
      then have "got ?w f = [] \<and> \<not> fExited (aFws ?w ! f)" using that(2) aside_len [OF start(1)] by (simp add: start_new)
      then show ?thesis using aside_forwarder(1) [OF start(3) l2 f] aside_core(2) [OF start(3) f] by (simp add: fw_core_def)
    qed
    ultimately show ?thesis using l2 start aside_linked by auto
  qed
  then show "linked w2" "f < length (aFws w) \<Longrightarrow> feeds w f [] w2"
    "f < length (aFws w2) \<Longrightarrow> length (aFws w) \<le> f \<Longrightarrow> got w2 f = [] \<and> \<not> fExited (aFws w2 ! f)"
    "keyed (aLazy w) \<Longrightarrow> \<not> go \<Longrightarrow> reg_Get (aReg w2) (rSessionID msg) = None" by blast+
qed

text \<open>The whole of \<^verbatim>\<open>client_attach\<close>; a forwarder it starts gets the snapshot first.\<close>

text \<open>The request for a snapshot, after the activation; a session that cannot be shown has no process to be asked.\<close>

lemma attach_asked:
  assumes w2: "attach_activate e w1 msg = (w2, go)" and inv: "attach_inv False w1" "attach_inv False w2" and l2: "linked w2"
    and gone: "keyed (aLazy w1) \<Longrightarrow> \<not> go \<Longrightarrow> reg_Get (aReg w2) (rSessionID msg) = None"
    and w': "w' = (if go then requestSnapshot w2 (rSessionID msg) (rClientID msg) else w2)"
    and msg: "rType msg = ''client_attach''" and f: "f < length (aFws w2)"
  shows "feeds w2 f (turn_ops w' f (EvServer e msg)) w'"
proof (cases go)
  case True
  have "feeds w2 f (if map_of (aFwMap w2) (rSessionID msg) = Some f \<and> reg_Get (aReg w2) (rSessionID msg) \<noteq> None
      then [OpRequest f (rClientID msg)] else []) (requestSnapshot w2 (rSessionID msg) (rClientID msg))"
    using l2 f by (rule request_feeds) (use inv(2) in \<open>auto simp: attach_inv_def forwarders_ok_def\<close>)
  then show ?thesis using True msg by (simp add: w' turn_ops_def)
next
  case False
  have "reg_Get (aReg w2) (rSessionID msg) = None" if "\<not> aDone w2"
  proof -
    have "\<not> aDone w1" using that attach_done [of w1 e msg] w2 by auto
    then show ?thesis using inv(1) gone False by (simp add: attach_inv_def entries_ok_def)
  qed
  moreover have "feeds w2 f [] w2" using f by (simp add: feeds_aside aside_refl l2)
  ultimately show ?thesis using False by (auto simp: w' feeds_def turn_ops_def)
qed

lemma attach_feeds:
  assumes "tied w" "agent_step w (EvServer e msg) = Some w'" "rType msg = ''client_attach''"
  shows "linked w'"
    and "f < length (aFws w) \<Longrightarrow> feeds w f (turn_ops w' f (EvServer e msg)) w'"
    and "f < length (aFws w') \<Longrightarrow> length (aFws w) \<le> f \<Longrightarrow> \<not> aDone w' \<Longrightarrow>
      got w' f = expected_events (ring_size (ring (stream_of w' f))) (ring_Snapshot (ring (stream_of w' f))) f
        (turn_ops w' f (EvServer e msg))"
proof -
  let ?sid = "rSessionID msg"
  have inv: "linked w" "reg_range (aReg w)" "attach_inv False w" using assms(1) by (simp_all add: tied_def reg_inv_range)
  obtain w1 w2 go where w1: "finishIfEnded w ?sid = Some w1" and w2: "attach_activate e w1 msg = (w2, go)"
    and w': "w' = (if go then requestSnapshot w2 ?sid (rClientID msg) else w2)"
    using assms(2,3) by (auto simp: handleServerMsg_def handle_attach_def Let_def split: option.splits prod.splits)
  have a1: "aside w w1" using w1 by (rule aside_finishIfEnded)
  have l1: "linked w1" using a1 inv(1) by (rule aside_linked)
  have reg1: "reg_range (aReg w1)"
    using w1 inv(2) input_policy.finishSession_reg [OF readonly_policy.input_policy_axioms]
    by (auto simp: finishIfEnded_def split: option.splits)
  have inv1: "attach_inv False w1" using finishIfEnded_retires [OF inv(3) w1] by blast
  have inv2: "attach_inv False w2" using attach_activate_inv [OF inv1, of e msg] w2 by simp
  note act = attach_activate_feeds [OF w2 reg1 l1]
  have asked: "feeds w2 f (turn_ops w' f (EvServer e msg)) w'" if "f < length (aFws w2)" for f
    by (rule attach_asked [OF w2 inv1 inv2 act(1) _ w' assms(3) that]) (rule act(4))
  have frame: "aReg w' = aReg w2" "aFws w' = aFws w2" "aFwMap w' = aFwMap w2" by (simp_all add: w')
  show "linked w'" using linked_same [OF act(1)] frame by simp
  show "feeds w f (turn_ops w' f (EvServer e msg)) w'" if f: "f < length (aFws w)"
  proof -
    have f1: "f < length (aFws w1)" using f aside_len [OF a1] by simp
    have "f < length (aFws w2)" using act(2) [OF f1] by (simp add: feeds_def)
    from feeds_trans [OF act(2) [OF f1] asked [OF this] l1 f1] have "feeds w1 f (turn_ops w' f (EvServer e msg)) w'" by simp
    from feeds_trans [OF feeds_aside [OF a1 inv(1) f] this inv(1) f] show ?thesis by simp
  qed
  show "got w' f = expected_events (ring_size (ring (stream_of w' f))) (ring_Snapshot (ring (stream_of w' f))) f
      (turn_ops w' f (EvServer e msg))"
    if f: "f < length (aFws w')" "length (aFws w) \<le> f" and up: "\<not> aDone w'"
  proof -
    have f2: "f < length (aFws w2)" "length (aFws w1) \<le> f" using f aside_len [OF a1] by (simp_all add: frame)
    have same: "stream_of w' f = stream_of w2 f" by (simp add: stream_of_def frame)
    show ?thesis using asked [OF f2(1)] act(3) [OF f2] up by (simp add: feeds_def same frame)
  qed
qed

text \<open>The turns of a forwarder and the output of a terminal.\<close>

lemma take_feeds:
  assumes "linked w" "fw_take w g = Some w'" shows "linked w'" "f < length (aFws w) \<Longrightarrow> feeds w f [] w'"
proof -
  obtain ev c where ev: "chan_try_recv (aChs w g) = Some (ev, c)" "g < length (aFws w)"
    and w': "w' = set_fw (w\<lparr>aChs := (aChs w)(g := c)\<rparr>) g
      ((aFws w ! g)\<lparr>fOut := event_msgs (fID (aFws w ! g)) ev, fTaken := fTaken (aFws w ! g) @ [ev]\<rparr>)"
    using assms(2) by (auto simp: fw_take_def Let_def split: if_splits option.splits)
  have q: "queue (aChs w g) = ev # queue c" using ev(1) by (auto simp: chan_try_recv_def split: list.splits)
  have fws: "fTerm (aFws w' ! f) = fTerm (aFws w ! f)" "fID (aFws w' ! f) = fID (aFws w ! f)"
    "fExited (aFws w' ! f) = fExited (aFws w ! f)" "got w' f = got w f" if "f < length (aFws w)" for f
    using that ev(2) q by (cases "f = g"; simp add: w' set_fw_def got_def)+
  have same: "aReg w' = aReg w" "length (aFws w') = length (aFws w)" "aDone w' = aDone w" by (simp_all add: w' set_fw_def)
  then have str: "stream_of w' f = stream_of w f" if "f < length (aFws w)" for f using fws(1) [OF that] by (simp add: stream_of_def)
  show "linked w'" by (rule linked_keeps [OF assms(1)]) (use assms(1) fws str same in \<open>auto simp: linked_def\<close>)
  show "f < length (aFws w) \<Longrightarrow> feeds w f [] w'" using fws str same by (simp add: feeds_def)
qed

lemma stop_feeds:
  assumes "linked w" "fw_stop w g = Some w'" shows "linked w'" "f < length (aFws w) \<Longrightarrow> feeds w f [] w'"
proof -
  define t where "t = fTerm (aFws w ! g)"
  define x where "x = term_Unsubscribe (term_at (aReg w) t) g"
  define fw where "fw = (aFws w ! g)\<lparr>fExited := True, fNotify := term_Done (term_at (aReg w) t)\<rparr>"
  have fw: "fTerm fw = t" "fID fw = fID (aFws w ! g)" "fExited fw" by (simp_all add: fw_def t_def)
  have g: "g < length (aFws w)"
    and reg: "aReg w' = set_term (aReg w) t x" and fws: "aFws w' = (aFws w)[g := fw]"
    and same: "aChs w' = aChs w" "aDone w' = aDone w"
    using assms(2) by (auto simp: fw_stop_def set_fw_def Let_def x_def t_def fw_def split: if_splits)
  have at: "fTerm (aFws w' ! f) = fTerm (aFws w ! f)" "fID (aFws w' ! f) = fID (aFws w ! f)" for f
    using fw(1,2) by (auto simp: fws nth_list_update g t_def)
  have str: "stream_of w' f = (if fTerm (aFws w ! f) = t \<and> t < length (terms (aReg w)) then term_stream x else stream_of w f)" for f
    using at(1) [of f] by (auto simp: stream_of_def reg term_at_set_term)
  have ring: "ring (stream_of w' f) = ring (stream_of w f)" for f
    by (simp add: str x_def term_Unsubscribe_def stream_Unsubscribe_def) (simp add: stream_of_def)
  have "streams_ok (aReg w')"
    using assms(1) by (auto simp: linked_def streams_ok_def reg term_at_set_term x_def term_Unsubscribe_def)
  moreover have "fExited (aFws w' ! g)" using fw g by (simp add: fws)
  moreover have "map_of (subs (stream_of w' f)) f = map_of (subs (stream_of w f)) f" if "f \<noteq> g" for f
    using that by (simp add: str x_def term_Unsubscribe_def stream_Unsubscribe_def delete_conv') (simp add: stream_of_def)
  ultimately show "linked w'"
    by (intro linked_keeps [OF assms(1)]) (auto simp: fws reg nth_list_update g fw(1) t_def split: if_splits)
  show "f < length (aFws w) \<Longrightarrow> feeds w f [] w'"
    using fw(3) at ring same by (auto simp: feeds_def got_def fws nth_list_update g)
qed

text \<open>Output reaches the terminal's forwarders, or one of them closes the connection.\<close>

lemma emit_stream:
  assumes "stream_inv (term_stream x)" "term_emit x d reset chs = (x', chs', fired)"
  shows "stream_inv (term_stream x')" "subs (term_stream x') = subs (term_stream x)"
    and "ring (term_stream x') = foldl (log_apply ring_Write ring_Reset) (ring (term_stream x)) (to_log (emit_op x d reset))"
    and "broadcast_to (subs (term_stream x)) d chs = (chs', fired)"
    and "emit_op x' d reset = emit_op x d reset"
  using assms stream_inv_ops(1,2) [OF assms(1), of d chs]
  by (cases x; cases reset; auto simp: emit_op_def pty_emit_def fake_emit_def stream_Emit_def stream_EmitReset_def
      stream_broadcast_def Let_def case_prod_beta)+

lemma fired_closes: "x \<in> set fired \<Longrightarrow> aDone (foldl closeConnection w fired)"
  by (induction fired arbitrary: w) (auto simp: done_fold_close)

lemma output_feeds:
  assumes "linked w" "sub_inv w" "output_step w t d reset = Some w'"
  shows "linked w'" "f < length (aFws w) \<Longrightarrow> feeds w f (turn_ops w' f (EvOutput t d reset)) w'"
proof -
  obtain x' chs' fired where emit: "term_emit (term_at (aReg w) t) d reset (aChs w) = (x', chs', fired)" by (metis prod_cases3)
  have t: "t < length (terms (aReg w))" and w': "w' = foldl closeConnection (w\<lparr>aReg := set_term (aReg w) t x', aChs := chs'\<rparr>) fired"
    using assms(3) by (auto simp: output_step_def emit split: if_splits)
  have inv: "stream_inv (term_stream (term_at (aReg w) t))" using assms(1) t by (simp add: linked_def streams_ok_def)
  note emitted = emit_stream [OF inv emit]
  have same: "aFws w' = aFws w" "aReg w' = set_term (aReg w) t x'" "aChs w' = chs'" by (simp_all add: w')
  have str: "stream_of w' g = (if fTerm (aFws w ! g) = t then term_stream x' else stream_of w g)" for g
    using t by (simp add: stream_of_def same term_at_set_term)
  have "streams_ok (aReg w')"
    using assms(1) emitted(1) by (auto simp: linked_def streams_ok_def same(2) term_at_set_term)
  moreover have "subs (stream_of w' g) = subs (stream_of w g)" for g using emitted(2) by (simp add: str) (simp add: stream_of_def)
  ultimately show "linked w'" by (intro linked_keeps [OF assms(1)]) (simp_all add: same)
  show "feeds w f (turn_ops w' f (EvOutput t d reset)) w'" if f: "f < length (aFws w)"
  proof (cases "fTerm (aFws w ! f) = t")
    case True
    have "got w' f = got w f @ [live_event d]" if "\<not> aDone w'" "\<not> fExited (aFws w ! f)"
    proof -
      have "(f, Some tooSlow) \<in> set (subs (term_stream (term_at (aReg w) t)))"
        using assms(1) f that(2) True by (auto simp: linked_def stream_of_def dest: map_of_SomeD)
      then have "tooSlow \<in> set fired \<or> queue (chs' f) = queue (aChs w f) @ [live_event d]"
        using inv emitted(4) by (intro broadcast_delivers) (simp_all add: stream_inv_def)
      then show ?thesis using that(1) fired_closes by (auto simp: got_def same w')
    qed
    moreover have "ring (stream_of w' f) = foldl (log_apply ring_Write ring_Reset) (ring (stream_of w f))
        (to_log (emit_op (term_at (aReg w) t) d reset))"
      using True emitted(3) by (simp add: str) (simp add: stream_of_def)
    moreover have "turn_ops w' f (EvOutput t d reset) = [emit_op (term_at (aReg w) t) d reset]"
      using True t emitted(5) by (simp add: turn_ops_def same term_at_set_term)
    moreover have "expected_events n acc f [emit_op x d reset] = [live_event d]" for n acc and x :: "string terminal"
      by (simp add: emit_op_def)
    ultimately show ?thesis using f by (simp add: feeds_def same) (simp add: w' done_fold_close)
  next
    case False
    then have "f \<notin> fst ` set (subs (term_stream (term_at (aReg w) t)))"
      using assms(2) t by (auto simp: sub_inv_def subs_owned_def subs_of_def)
    then have "chs' f = aChs w f" using broadcast_to_other emitted(4) by (metis fst_conv)
    then have "got w' f = got w f" by (simp add: got_def same)
    with False f show ?thesis by (simp add: feeds_def turn_ops_def same str) (simp add: w' done_fold_close)
  qed
qed

lemma tied_turn_parts:
  assumes "tied w" shows "reg_inv (aReg (agent_turn w ev))" "sub_inv (agent_turn w ev)" "attach_inv False (agent_turn w ev)"
proof -
  have "lazies_in (\<lambda>_. True) w" "list_all (event_lazies_in (\<lambda>_. True)) [ev]"
    by (simp_all add: lazies_in_def all_values_def list_all_iff) (cases ev; simp split: option.split)
  then have "reg_moves (aReg w) (aReg (foldl agent_turn w [ev]))" using table_view.R_run by blast
  then show "reg_inv (aReg (agent_turn w ev))" using assms reg_moves_inv by (auto simp: tied_def)
  show "sub_inv (agent_turn w ev)" using assms by (simp add: tied_def sub_inv_turn)
  show "attach_inv False (agent_turn w ev)" using assms by (simp add: tied_def attach_inv_turn)
qed

text \<open>A turn feeds every forwarder what it is due, one that is started by it included.\<close>

definition due :: "agent \<Rightarrow> fid \<Rightarrow> string stream_op list \<Rightarrow> event list" where
  "due w f ops = expected_events (ring_size (ring (stream_of w f))) (ring_Snapshot (ring (stream_of w f))) f ops"

definition turn_ok :: "agent \<Rightarrow> agent_event \<Rightarrow> agent \<Rightarrow> bool" where
  "turn_ok w ev w' \<longleftrightarrow> linked w' \<and> length (aFws w) \<le> length (aFws w') \<and>
     (\<forall>f < length (aFws w). feeds w f (turn_ops w' f ev) w') \<and>
     (\<forall>f < length (aFws w'). length (aFws w) \<le> f \<longrightarrow> \<not> aDone w' \<longrightarrow> got w' f = due w' f (turn_ops w' f ev))"

lemma turn_ok_old:
  "linked w' \<Longrightarrow> length (aFws w') = length (aFws w) \<Longrightarrow> (\<And>f. f < length (aFws w) \<Longrightarrow> feeds w f (turn_ops w' f ev) w') \<Longrightarrow>
     turn_ok w ev w'"
  by (simp add: turn_ok_def)

lemma turn_ok_aside: "linked w \<Longrightarrow> aside w w' \<Longrightarrow> (\<And>f. turn_ops w' f ev = []) \<Longrightarrow> turn_ok w ev w'"
  by (simp add: turn_ok_old aside_linked feeds_aside aside_len)

lemma feeds_len: "(\<And>f. f < length (aFws w) \<Longrightarrow> feeds w f (ops f) w') \<Longrightarrow> length (aFws w) \<le> length (aFws w')"
  by (metis feeds_def not_le order_less_irrefl)

fun quiet_turn :: "agent_event \<Rightarrow> bool" where
  "quiet_turn (EvServer e msg) \<longleftrightarrow> rType msg \<noteq> ''client_attach''"
| "quiet_turn (EvTake f) \<longleftrightarrow> False"
| "quiet_turn (EvStop f) \<longleftrightarrow> False"
| "quiet_turn (EvOutput t d reset) \<longleftrightarrow> False"
| "quiet_turn _ \<longleftrightarrow> True"

lemma quiet_aside: "quiet_turn ev \<Longrightarrow> agent_step w ev = Some w' \<Longrightarrow> aside w w'"
  using aside_main [of w] aside_outside [of w] aside_forward [of w] aside_handle [of _ w]
  by (cases ev) (simp_all only: quiet_turn.simps)

lemma quiet_ops: "quiet_turn ev \<Longrightarrow> turn_ops w' f ev = []"
  by (cases ev) (simp_all add: turn_ops_def)

lemma turn_ok_step:
  assumes "tied w" "agent_step w ev = Some w'" shows "turn_ok w ev w'"
proof (cases "quiet_turn ev")
  case True
  with assms quiet_aside quiet_ops show ?thesis by (intro turn_ok_aside) (auto simp: tied_def)
next
  case False
  have inv: "linked w" "sub_inv w" using assms(1) by (simp_all add: tied_def)
  from False consider (attach) e msg where "ev = EvServer e msg" "rType msg = ''client_attach''" | (take) g where "ev = EvTake g"
    | (stop) g where "ev = EvStop g" | (emit) t d reset where "ev = EvOutput t d reset"
    by (cases ev) auto
  then show ?thesis
  proof cases
    case attach
    note feeds = attach_feeds [OF assms(1) assms(2) [unfolded attach(1)] attach(2)]
    have "length (aFws w) \<le> length (aFws w')" using feeds(2) by (rule feeds_len)
    with feeds show ?thesis by (simp add: turn_ok_def due_def attach(1))
  next
    case take
    with assms(2) have step: "fw_take w g = Some w'" by simp
    then have "length (aFws w') = length (aFws w)"
      by (auto simp: fw_take_def set_fw_def Let_def split: if_splits option.splits)
    then show ?thesis using take_feeds [OF inv(1) step] by (intro turn_ok_old) (simp_all add: turn_ops_def take)
  next
    case stop
    with assms(2) have step: "fw_stop w g = Some w'" by simp
    then have "length (aFws w') = length (aFws w)" by (auto simp: fw_stop_def set_fw_def Let_def split: if_splits)
    then show ?thesis using stop_feeds [OF inv(1) step] by (intro turn_ok_old) (simp_all add: turn_ops_def stop)
  next
    case emit
    with assms(2) have step: "output_step w t d reset = Some w'" by simp
    then have "length (aFws w') = length (aFws w)" by (auto simp: output_step_def Let_def case_prod_beta split: if_splits)
    then show ?thesis using output_feeds [OF inv step] by (intro turn_ok_old) (simp_all add: emit)
  qed
qed

lemma tied_turn:
  assumes "tied w" shows "tied (agent_turn w ev)"
proof -
  have "linked (agent_turn w ev)"
    using assms turn_ok_step [OF assms, of ev] by (auto simp: agent_turn_def turn_ok_def tied_def split: option.split)
  with tied_turn_parts [OF assms] show ?thesis by (simp add: tied_def)
qed

interpretation delivery_machine: invariant_machine agent_turn tied
  by unfold_locales (rule tied_turn)

end
