(* ===== verification/Relay_Reader.thy ===== *)
theory Relay_Reader
  imports Agent_Forward
begin

text \<open>
  The other side of a session's messages: how a relay that follows the protocol comment reads them, and that it reads
  back exactly the events a forwarder was given.
\<close>

section \<open>The receiving side\<close>

text \<open>
  The relay's reading of one session's messages, after the protocol comment in \<^verbatim>\<open>src/protocol/protocol.go\<close>: output as it
  comes, and a replay that is complete and in order.  \<open>None\<close> is a protocol violation.
\<close>

record relay =
  rEvents :: "event list"
  rReplay :: "(string \<times> nat \<times> 32 word \<times> bytes) option"

definition relay_msg :: "string \<Rightarrow> relay option \<Rightarrow> agent_msg \<Rightarrow> relay option" where
  "relay_msg sid st m =
     (case st of
        None \<Rightarrow> None
      | Some s \<Rightarrow>
          if mSessionID m \<noteq> sid then None
          else (case rReplay s of
              None \<Rightarrow>
                if mType m = ''output''
                then map_option (\<lambda>d. s\<lparr>rEvents := rEvents s @ [live_event d]\<rparr>) (b64_decode (mData m))
                else if mType m = ''snapshot_start'' then Some (s\<lparr>rReplay := Some (mClientID m, mTotal m, 0, [])\<rparr>)
                else None
            | Some (cid, n, sq, acc) \<Rightarrow>
                if mClientID m \<noteq> cid then None
                else if mType m = ''snapshot_chunk'' \<and> mSeq m = sq + 1
                then map_option (\<lambda>d. s\<lparr>rReplay := Some (cid, n, sq + 1, acc @ d)\<rparr>) (b64_decode (mData m))
                else if mType m = ''snapshot_end'' \<and> mSeq m = sq \<and> length acc = n
                then Some \<lparr>rEvents = rEvents s @ [snapshot_event acc cid], rReplay = None\<rparr>
                else None))"

definition relay_reads :: "string \<Rightarrow> agent_msg list \<Rightarrow> event list option" where
  "relay_reads sid ms =
     (case foldl (relay_msg sid) (Some \<lparr>rEvents = [], rReplay = None\<rparr>) ms of
        Some s \<Rightarrow> if rReplay s = None then Some (rEvents s) else None
      | None \<Rightarrow> None)"

lemma client_fields [simp]:
  "mClientID (snapshot_start sid cid n) = cid" "mClientID (snapshot_chunk sid cid sq d) = cid"
  "mClientID (snapshot_end sid cid sq) = cid"
  by (simp_all add: snapshot_start_def snapshot_chunk_def snapshot_end_def)

lemma relay_reads_chunks:
  "foldl (relay_msg sid) (Some \<lparr>rEvents = evs, rReplay = Some (cid, length acc + length d, sq, acc)\<rparr>) (chunk_msgs sid cid sq d) =
     Some \<lparr>rEvents = evs @ [snapshot_event (acc @ d) cid], rReplay = None\<rparr>"
proof (induction sid cid sq d arbitrary: acc rule: chunk_msgs.induct)
  case (1 sid cid sq d)
  show ?case
  proof (cases "d = []")
    case True
    then show ?thesis by (simp add: chunk_unfold relay_msg_def)
  next
    case False
    let ?a = "take SnapshotChunkBytes d"
    have len: "length (acc @ ?a) + length (drop SnapshotChunkBytes d) = length acc + length d" by simp
    have "relay_msg sid (Some \<lparr>rEvents = evs, rReplay = Some (cid, length acc + length d, sq, acc)\<rparr>)
        (snapshot_chunk sid cid (sq + 1) ?a) =
        Some \<lparr>rEvents = evs, rReplay = Some (cid, length acc + length d, sq + 1, acc @ ?a)\<rparr>"
      by (simp add: relay_msg_def b64_roundtrip)
    with 1 [OF False, of "acc @ ?a", unfolded len] False show ?thesis by (simp add: chunk_unfold)
  qed
qed

definition proper_event :: "event \<Rightarrow> bool" where
  "proper_event ev \<longleftrightarrow> Snapshot ev \<or> ClientID ev = []"

lemma relay_reads_event:
  assumes "proper_event ev"
  shows "foldl (relay_msg sid) (Some \<lparr>rEvents = evs, rReplay = None\<rparr>) (event_msgs sid ev) =
     Some \<lparr>rEvents = evs @ [ev], rReplay = None\<rparr>"
proof (cases "Snapshot ev")
  case True
  then have "event_msgs sid ev = snapshot_start sid (ClientID ev) (length (Data ev)) # chunk_msgs sid (ClientID ev) 0 (Data ev)"
    by (simp add: event_msgs_def sendSnapshot_all snapshot_msgs_def)
  moreover have "relay_msg sid (Some \<lparr>rEvents = evs, rReplay = None\<rparr>) (snapshot_start sid (ClientID ev) (length (Data ev))) =
      Some \<lparr>rEvents = evs, rReplay = Some (ClientID ev, length [] + length (Data ev), 0, [])\<rparr>"
    by (simp add: relay_msg_def)
  ultimately show ?thesis
    using relay_reads_chunks [of sid evs "ClientID ev" "[]" "Data ev" 0] True by (cases ev) simp
next
  case False
  with assms show ?thesis
    by (cases ev) (simp add: event_msgs_def output_msg_def relay_msg_def msg_of_def b64_roundtrip proper_event_def)
qed

lemma relay_reads_events:
  assumes "list_all proper_event evs"
  shows "relay_reads sid (concat (map (event_msgs sid) evs)) = Some evs"
proof -
  have "foldl (relay_msg sid) (Some \<lparr>rEvents = xs, rReplay = None\<rparr>) (concat (map (event_msgs sid) evs)) =
      Some \<lparr>rEvents = xs @ evs, rReplay = None\<rparr>" for xs
    using assms by (induction evs arbitrary: xs) (simp_all add: relay_reads_event)
  then show ?thesis by (simp add: relay_reads_def)
qed

lemma proper_expected: "list_all proper_event (expected_events n acc ch ops)"
  by (induction n acc ch ops rule: expected_events.induct) (simp_all add: proper_event_def)

end
