(* ===== verification/Agent_Delivery.thy ===== *)
theory Agent_Delivery
  imports Agent_Links Relay_Reader
begin

text \<open>
  What the relay sees of a terminal: the composition of output stream, forwarder, outbound queue, wire and protocol.  A
  forwarder's part of a run is the list of operations on its terminal's stream since it was started; what the relay
  decodes is what these operations specify.
\<close>

section \<open>Runs\<close>

text \<open>Turns that were not enabled did nothing.\<close>

fun run_ops :: "agent \<Rightarrow> fid \<Rightarrow> agent_event list \<Rightarrow> string stream_op list" where
  "run_ops w f [] = []"
| "run_ops w f (ev # evs) =
     (if agent_step w ev \<noteq> None \<and> f < length (aFws (agent_turn w ev)) then turn_ops (agent_turn w ev) f ev else []) @
     run_ops (agent_turn w ev) f evs"

text \<open>The state in which the forwarder has just been started.\<close>

fun joined :: "agent \<Rightarrow> fid \<Rightarrow> agent_event list \<Rightarrow> agent" where
  "joined w f [] = w"
| "joined w f (ev # evs) = (if f < length (aFws w) then w else joined (agent_turn w ev) f evs)"

text \<open>The events it is due: all output since it was started, and at each request the last bytes of the terminal's ring.\<close>

definition true_events :: "agent \<Rightarrow> fid \<Rightarrow> agent_event list \<Rightarrow> event list" where
  "true_events w f evs =
     (let str = stream_of (joined w f evs) f
      in expected_events (ring_size (ring str)) (stream_Snapshot str) f (run_ops w f evs))"

section \<open>The start of a connection\<close>

text \<open>Forwarders of sessions that already run have nothing yet.\<close>

definition fresh_forwarders :: "agent \<Rightarrow> bool" where
  "fresh_forwarders w \<longleftrightarrow> (\<forall>f < length (aFws w). got w f = [])"

lemma aside_fresh: "aside w w' \<Longrightarrow> linked w \<Longrightarrow> fresh_forwarders w \<Longrightarrow> fresh_forwarders w'"
  using aside_forwarder(1) aside_len by (simp add: fresh_forwarders_def)

lemma start_fresh: "fresh_forwarders w \<Longrightarrow> fresh_forwarders (startForwarder w sid)"
  by (auto simp: fresh_forwarders_def startForwarder_def got_def Let_def chan_make_def nth_append less_Suc_eq
      split: option.split)

lemma advertise_start:
  assumes "linked w" "reg_range (aReg w)" "fresh_forwarders w"
  shows "linked (advertise e w ls) \<and> reg_range (aReg (advertise e w ls)) \<and> fresh_forwarders (advertise e w ls)"
proof -
  let ?w = "w\<lparr>aAvail := AList.update (lID ls) ls (aAvail w)\<rparr>"
  let ?w1 = "(early_end e ?w (lID ls))\<lparr>aModes := AList.update (lID ls) (lMode ls) (aModes w)\<rparr>"
  have "aside w ?w1" using kept_early [of ?w e "lID ls"] by (intro aside_same) simp_all
  then have w1: "linked ?w1" "reg_range (aReg ?w1)" "fresh_forwarders ?w1"
    using assms aside_linked aside_fresh early_end_range [of ?w e "lID ls"] by auto
  then have w2: "linked (startForwarder ?w1 (lID ls))" "fresh_forwarders (startForwarder ?w1 (lID ls))"
    "reg_range (aReg (startForwarder ?w1 (lID ls)))"
    using start_linked start_fresh range_start by blast+
  have send: "aside W (sendSessionAdd W ls a c r)" for W a c r by (rule aside_same) (simp_all add: kept_same)
  have idle: "aside w ((sendSessionAdd ?w ls a c r)\<lparr>aLazy := lm\<rparr>)" for a c r lm by (rule aside_same) (simp_all add: kept_same)
  show ?thesis
    using aside_linked [OF send w2(1)] aside_fresh [OF send w2(1,2)] w2(3) aside_linked [OF idle assms(1)]
      aside_fresh [OF idle assms(1,3)] assms(2)
    by (simp add: advertise_def Let_def)
qed

text \<open>A registry as it is between two connections.\<close>

definition ready :: "string registry \<Rightarrow> bool" where
  "ready r \<longleftrightarrow> reg_inv r \<and> streams_ok r \<and> no_subs r"

lemma connect_tied:
  assumes "ready r"
  shows "tied (agent_connect e r lazy)" "fresh_forwarders (agent_connect e r lazy)"
proof -
  have r: "reg_inv r" "streams_ok r" "no_subs r" using assms by (simp_all add: ready_def)
  have "linked w \<and> reg_range (aReg w) \<and> fresh_forwarders w \<Longrightarrow>
      linked (foldl (advertise e) w lazy) \<and> fresh_forwarders (foldl (advertise e) w lazy)" for w
    by (induction lazy arbitrary: w) (simp_all add: advertise_start)
  moreover have "linked (agent_New r) \<and> reg_range (aReg (agent_New r)) \<and> fresh_forwarders (agent_New r)"
    using r(1,2) by (simp add: agent_New_def linked_def fresh_forwarders_def reg_inv_range)
  ultimately have "linked (agent_connect e r lazy)" "fresh_forwarders (agent_connect e r lazy)"
    by (simp_all add: agent_connect_def)
  moreover have "reg_inv (aReg (agent_connect e r lazy))" using table_view.R_connect r(1) reg_moves_inv by blast
  ultimately show "tied (agent_connect e r lazy)" "fresh_forwarders (agent_connect e r lazy)"
    using r by (simp_all add: tied_def sub_inv_connect attach_inv_connect reg_inv_range)
qed

section \<open>Whole runs\<close>

lemma run_ops_append: "run_ops w f (xs @ ys) = run_ops w f xs @ run_ops (foldl agent_turn w xs) f ys"
  by (induction xs arbitrary: w) simp_all

lemma turn_len: "tied w \<Longrightarrow> length (aFws w) \<le> length (aFws (agent_turn w ev))"
  using turn_ok_step [of w ev] by (auto simp: agent_turn_def turn_ok_def split: option.split)

lemma run_len: "tied w \<Longrightarrow> length (aFws w) \<le> length (aFws (foldl agent_turn w evs))"
proof (induction evs arbitrary: w)
  case (Cons ev evs)
  from order_trans [OF turn_len [OF Cons.prems, of ev] Cons.IH [OF tied_turn [OF Cons.prems]]] show ?case by simp
qed simp

lemma run_feeds:
  assumes "tied w" "f < length (aFws w)" shows "feeds w f (run_ops w f evs) (foldl agent_turn w evs)"
  using assms
proof (induction evs arbitrary: w)
  case Nil
  then show ?case by (simp add: feeds_aside aside_refl tied_def)
next
  case (Cons ev evs)
  note t = tied_turn [OF Cons.prems(1)] turn_len [OF Cons.prems(1)]
  have IH: "feeds (agent_turn w ev) f (run_ops (agent_turn w ev) f evs) (foldl agent_turn (agent_turn w ev) evs)"
    using t Cons.prems(2) by (intro Cons.IH) (auto intro: order_less_le_trans)
  have "feeds w f (if agent_step w ev \<noteq> None then turn_ops (agent_turn w ev) f ev else []) (agent_turn w ev)"
    using turn_ok_step [OF Cons.prems(1), of ev] Cons.prems
    by (auto simp: agent_turn_def turn_ok_def feeds_aside aside_refl tied_def split: option.split)
  from feeds_trans [OF this IH] Cons.prems t(2) [of ev] show ?case
    by (auto simp: tied_def dest: order_less_le_trans)
qed

lemma joined_started [simp]: "f < length (aFws w) \<Longrightarrow> joined w f evs = w"
  by (cases evs) simp_all

lemma joined_append: "f < length (aFws (foldl agent_turn w xs)) \<Longrightarrow> joined w f (xs @ ys) = joined w f xs"
  by (induction xs arbitrary: w) simp_all

lemma joined_reached:
  "tied w \<Longrightarrow> f < length (aFws (foldl agent_turn w evs)) \<Longrightarrow> tied (joined w f evs) \<and> f < length (aFws (joined w f evs))"
  by (induction evs arbitrary: w) (simp_all add: tied_turn)

text \<open>Only an attach starts a forwarder, so its own turn does not print.\<close>

lemma new_turn_silent:
  assumes "f < length (aFws (agent_turn w ev))" "length (aFws w) \<le> f"
  shows "concat (map to_log (turn_ops (agent_turn w ev) f ev)) = []"
proof (cases ev)
  case (EvOutput t d reset)
  then have "aFws (agent_turn w ev) = aFws w"
    by (auto simp: agent_turn_def output_step_def Let_def case_prod_beta split: option.split)
  with assms show ?thesis by simp
qed (simp_all add: turn_ops_def)

lemma due_append:
  assumes "ring_inv (ring (stream_of w f))" "concat (map to_log ops) = []"
  shows "due w f (ops @ ops') = due w f ops @ due w f ops'"
proof -
  have "length (ring_Snapshot (ring (stream_of w f))) \<le> ring_size (ring (stream_of w f))"
    using assms(1) by (rule ring_Snapshot_bound)
  with expected_events_append [OF this, of f ops ops'] assms(2) show ?thesis by (simp add: due_def)
qed

lemma true_events_due: "true_events w f evs = due (joined w f evs) f (run_ops w f evs)"
  by (simp add: true_events_def due_def stream_Snapshot_def Let_def)

lemma run_gets:
  assumes "tied w" "f < length (aFws w) \<Longrightarrow> got w f = []" "f < length (aFws (foldl agent_turn w evs))"
    and "\<not> aDone (foldl agent_turn w evs)" "\<not> fExited (aFws (foldl agent_turn w evs) ! f)"
  shows "got (foldl agent_turn w evs) f = true_events w f evs"
  using assms
proof (induction evs arbitrary: w)
  case Nil
  then show ?case by (simp add: true_events_due due_def)
next
  case (Cons ev evs)
  let ?w1 = "agent_turn w ev" and ?w' = "foldl agent_turn (agent_turn w ev) evs"
  have t1: "tied ?w1" using Cons.prems(1) by (rule tied_turn)
  show ?case
  proof (cases "f < length (aFws w)")
    case True
    then show ?thesis
      using run_feeds [OF Cons.prems(1) True, of "ev # evs"] Cons.prems(2,4,5) unfolding true_events_due
      by (simp add: feeds_def due_def)
  next
    case new: False
    show ?thesis
    proof (cases "f < length (aFws ?w1)")
      case True
      have step: "agent_step w ev \<noteq> None" using True new by (auto simp: agent_turn_def split: option.splits)
      then have ok: "turn_ok w ev ?w1" using turn_ok_step [OF Cons.prems(1), of ev] by (auto simp: agent_turn_def)
      have feeds: "feeds ?w1 f (run_ops ?w1 f evs) ?w'" using t1 True by (rule run_feeds)
      then have "\<not> aDone ?w1" using Cons.prems(4) by (auto simp: feeds_def)
      then have "got ?w1 f = due ?w1 f (turn_ops ?w1 f ev)" using ok True new by (simp add: turn_ok_def)
      moreover have "got ?w' f = got ?w1 f @ due ?w1 f (run_ops ?w1 f evs)"
        using feeds Cons.prems(4,5) by (simp add: feeds_def due_def)
      moreover have "ring_inv (ring (stream_of ?w1 f))" using t1 True by (simp add: tied_def linked_ring)
      ultimately show ?thesis
        using new True step new_turn_silent [OF True] by (simp add: true_events_due due_append)
    next
      case False
      then have "got ?w' f = true_events ?w1 f evs" using t1 Cons.prems(3-5) by (intro Cons.IH) simp_all
      with new False show ?thesis by (simp add: true_events_due)
    qed
  qed
qed

text \<open>The true events of a longer run continue those of a shorter one.\<close>

lemma true_events_prefix:
  assumes "tied w" "f < length (aFws (foldl agent_turn w xs))"
  shows "prefix (true_events w f xs) (true_events w f (xs @ ys))"
proof -
  let ?j = "joined w f xs"
  have "ring_inv (ring (stream_of ?j f))" using joined_reached [OF assms] by (simp add: tied_def linked_ring)
  then have "length (ring_Snapshot (ring (stream_of ?j f))) \<le> ring_size (ring (stream_of ?j f))" by (rule ring_Snapshot_bound)
  from expected_events_append [OF this, of f "run_ops w f xs"] show ?thesis
    using assms(2) by (simp add: true_events_due due_def joined_append run_ops_append)
qed

section \<open>From the forwarder to the relay\<close>

text \<open>Only a forwarder's own turn queues messages of its own, and only while it and the connection go on.\<close>

definition queues_main :: "agent \<Rightarrow> agent \<Rightarrow> bool" where
  "queues_main w w' \<longleftrightarrow> (\<forall>f. prefix (from_fw f (outbound w')) (from_fw f (outbound w)))"

lemma queues_same: "outbound w' = outbound w \<Longrightarrow> queues_main w w'"
  by (auto simp: queues_main_def)

lemma queues_trans: "queues_main w w' \<Longrightarrow> queues_main w' w'' \<Longrightarrow> queues_main w w''"
  unfolding queues_main_def by (metis prefix_order.trans)

lemma queues_sends: "main_sends w w' \<Longrightarrow> queues_main w w'"
  by (auto simp: main_sends_def queues_main_def)

lemma queues_attach: "queues_main w (fst (attach_activate e w msg))"
proof -
  have act: "queues_main w (fst (lazy_activate e w ls c r))" for ls c r by (rule queues_same) (simp add: outbound_def)
  have "queues_main w (startForwarder ((early_end e (fst (lazy_activate e w ls c r)) s)\<lparr>aModes := ms\<rparr>) s)" for ls c r s ms
    by (rule queues_same) (simp add: outbound_def)
  then have "queues_main w ((sendSessionAdd (startForwarder ((early_end e (fst (lazy_activate e w ls c r)) s)\<lparr>aModes := ms\<rparr>) s)
      ls a c' r')\<lparr>aLazy := x\<rparr>)" for ls c r s ms a c' r' x
    using queues_trans queues_sends [OF main_sends_update(1) [OF main_sends_sessions(1)]] by blast
  moreover have "queues_main w (rejectAttach (fst (lazy_activate e w ls c r)) ls cl)" for ls c r cl
    using act queues_sends [OF main_sends_reject] by (rule queues_trans)
  moreover have "queues_main w (w\<lparr>aLazy := x\<rparr>)" "queues_main w w" for x by (simp_all add: queues_same outbound_def)
  ultimately show ?thesis by (simp add: attach_activate_def Let_def case_prod_beta split: option.split)
qed

lemma queues_handle:
  assumes "handleServerMsg e w msg = Some w'" shows "queues_main w w'"
proof (cases "rType msg = ''client_attach''")
  case True
  then obtain w1 where w1: "finishIfEnded w (rSessionID msg) = Some w1"
    and w': "w' = (let (w2, go_on) = attach_activate e w1 msg in
      if go_on then requestSnapshot w2 (rSessionID msg) (rClientID msg) else w2)"
    using assms by (auto simp: handleServerMsg_def handle_attach_def Let_def split: option.splits prod.splits)
  have "main_sends w w1"
    using w1 main_sends_finish by (auto simp: finishIfEnded_def main_sends_refl split: option.splits)
  from queues_trans [OF queues_sends [OF this] queues_attach]
  have "queues_main w (fst (attach_activate e w1 msg))" .
  moreover from queues_trans [OF this queues_sends [OF main_sends_request]]
  have "queues_main w (requestSnapshot (fst (attach_activate e w1 msg)) (rSessionID msg) (rClientID msg))" .
  ultimately show ?thesis by (simp add: w' Let_def case_prod_beta)
next
  case False
  with assms show ?thesis
    by (auto simp: handleServerMsg_def handle_input_def handle_resize_def outbound_def queues_same
        split: if_splits option.splits)
qed

lemma queues_turn:
  assumes "agent_step w ev = Some w'" "\<And>g. ev \<noteq> EvQueue g" shows "queues_main w w'"
proof (cases ev)
  case (EvServer e msg)
  with assms(1) queues_handle show ?thesis by simp
next
  case (EvTake g)
  with assms(1) show ?thesis
    by (auto simp: fw_take_def set_fw_def Let_def outbound_def split: if_splits option.splits intro!: queues_same)
next
  case (EvStop g)
  with assms(1) show ?thesis by (auto simp: fw_stop_def set_fw_def Let_def outbound_def split: if_splits intro!: queues_same)
next
  case (EvNotify g)
  with assms(1) show ?thesis by (auto simp: fw_notify_def set_fw_def Let_def outbound_def split: if_splits intro!: queues_same)
qed (use assms main_turns in \<open>auto simp del: reg_step.simps intro: queues_sends\<close>)

lemma stopped_queues_nothing:
  assumes "agent_step w ev = Some w'" "aDone w' \<or> fExited (aFws w' ! f)"
  shows "prefix (from_fw f (outbound w')) (from_fw f (outbound w))"
proof (cases "\<exists>g. ev = EvQueue g")
  case True
  then obtain g where g: "fw_send w g = Some w'" using assms(1) by auto
  then show ?thesis
    using assms(2)
    by (cases "g = f") (auto simp: fw_send_def sendWait_def set_fw_def chan_try_send_def Let_def outbound_def
        split: if_splits list.splits)
next
  case False
  with queues_turn [OF assms(1)] show ?thesis by (auto simp: queues_main_def)
qed

lemma wire_is_true:
  assumes tied: "tied w0" and wire: "wire_inv w0" and none: "\<And>f. f < length (aFws w0) \<Longrightarrow> got w0 f = []"
  shows "f < length (aFws (foldl agent_turn w0 evs)) \<Longrightarrow>
    prefix (from_fw f (outbound (foldl agent_turn w0 evs)))
      (concat (map (event_msgs (fID (aFws (foldl agent_turn w0 evs) ! f))) (true_events w0 f evs)))"
proof (induction evs rule: rev_induct)
  case Nil
  then have "fTaken (aFws w0 ! f) = []" using none by (simp add: got_def)
  with Nil wire show ?case by (auto simp: wire_inv_def owed_msgs_def)
next
  case (snoc ev evs)
  let ?w = "foldl agent_turn w0 evs" and ?w' = "foldl agent_turn w0 (evs @ [ev])"
  have inv: "tied ?w" "wire_inv ?w" "wire_inv ?w'"
    using tied wire delivery_machine.run_inv wire_machine.run_inv by blast+
  show ?case
  proof (cases "aDone ?w' \<or> fExited (aFws ?w' ! f)")
    case False
    then have "got ?w' f = true_events w0 f (evs @ [ev])"
      using run_gets [OF tied none] snoc.prems by blast
    then have "prefix (fTaken (aFws ?w' ! f)) (true_events w0 f (evs @ [ev]))" unfolding got_def by (metis prefixI)
    then have "prefix (owed_msgs (aFws ?w' ! f)) (concat (map (event_msgs (fID (aFws ?w' ! f))) (true_events w0 f (evs @ [ev]))))"
      by (auto simp: owed_msgs_def prefix_def)
    moreover have "prefix (from_fw f (outbound ?w')) (owed_msgs (aFws ?w' ! f))"
      using inv(3) snoc.prems by (simp add: wire_inv_def)
    ultimately show ?thesis by (rule prefix_order.trans [rotated])
  next
    case True
    then have same: "prefix (from_fw f (outbound ?w')) (from_fw f (outbound ?w))"
      using stopped_queues_nothing [of ?w ev] by (auto simp: agent_turn_def split: option.splits)
    show ?thesis
    proof (cases "f < length (aFws ?w)")
      case old: True
      have "fID (aFws ?w' ! f) = fID (aFws ?w ! f)" using run_feeds [OF inv(1) old, of "[ev]"] by (simp add: feeds_def)
      moreover obtain more where "true_events w0 f (evs @ [ev]) = true_events w0 f evs @ more"
        using true_events_prefix [OF tied old] by (auto simp: prefix_def)
      ultimately show ?thesis using snoc.IH [OF old] same by (auto simp: prefix_def)
    next
      case False
      then have "from_fw f (outbound ?w) = []" using inv(2) by (fastforce simp: wire_inv_def from_fw_def filter_empty_conv)
      with same show ?thesis by simp
    qed
  qed
qed

text \<open>One connection, from a registry that is ready for it.\<close>

lemma connection_delivers:
  assumes "ready r"
    and w: "w = foldl agent_turn (agent_connect e r lazy) evs" and f: "f < length (aFws w)"
  defines "sid \<equiv> fID (aFws w ! f)" and "events \<equiv> true_events (agent_connect e r lazy) f evs"
  shows "prefix (from_fw f (aWire w)) (concat (map (event_msgs sid) events)) \<and>
    relay_reads sid (concat (map (event_msgs sid) events)) = Some events \<and>
    (\<not> aDone w \<and> \<not> fExited (aFws w ! f) \<and> queue (aChs w f) = [] \<and> fOut (aFws w ! f) = [] \<and> queue (aSend w) = [] \<longrightarrow>
       relay_reads sid (from_fw f (aWire w)) = Some events)"
proof -
  let ?w0 = "agent_connect e r lazy"
  note start = connect_tied [OF assms(1), of e lazy]
  have none: "got ?w0 g = []" if "g < length (aFws ?w0)" for g using start(2) that by (simp add: fresh_forwarders_def)
  have "prefix (from_fw f (outbound w)) (concat (map (event_msgs sid) events))"
    using wire_is_true [OF start(1) wire_inv_connect none] f by (simp add: w sid_def events_def)
  then have "prefix (from_fw f (aWire w)) (concat (map (event_msgs sid) events))" by (auto simp: outbound_def dest: append_prefixD)
  moreover have reads: "relay_reads sid (concat (map (event_msgs sid) events)) = Some events"
    by (rule relay_reads_events) (simp add: events_def true_events_def proper_expected Let_def)
  moreover have "relay_reads sid (from_fw f (aWire w)) = Some events"
    if "\<not> aDone w" "\<not> fExited (aFws w ! f)" "queue (aChs w f) = []" "fOut (aFws w ! f) = []" "queue (aSend w) = []"
  proof -
    have "got w f = events" unfolding w events_def by (rule run_gets [OF start(1) none]) (use that f w in simp_all)
    moreover have "wire_inv w" unfolding w by (rule wire_machine.run_inv) (rule wire_inv_connect)
    ultimately have "from_fw f (aWire w) = concat (map (event_msgs sid) events)"
      using that f by (auto simp: wire_inv_def outbound_def owed_msgs_def got_def sid_def)
    with reads show ?thesis by simp
  qed
  ultimately show ?thesis by blast
qed

text \<open>A client attaches to a new terminal, which then prints; all of it is sent.\<close>

definition demo_print :: agent where
  "demo_print = agent_turn (demo_attached ModeFull) (EvOutput 0 ''hi'' False)"

definition demo_sending :: "agent_event list" where
  "demo_sending = [EvTake 0, EvQueue 0, EvQueue 0, EvTake 0, EvQueue 0, EvWrite (WakePing True),
     EvWrite (WakeSend True), EvWrite (WakeSend True), EvWrite (WakeSend True), EvWrite (WakeSend True), EvWrite (WakeSend True)]"

lemma demo_print_eq:
  shows "agent_step (demo_attached ModeFull) (EvOutput 0 ''hi'' False) = Some demo_print"
    and "\<exists>x'. demo_print = (demo_attached ModeFull)\<lparr>aReg := set_term demo_reg 0 x',
      aChs := (\<lambda>_. chan_make 0)(0 := \<lparr>cap = 256, queue = [snapshot_event [] ''c'', live_event ''hi'']\<rparr>)\<rparr>"
proof -
  obtain q where w: "demo_attached ModeFull =
   \<lparr>aReg = demo_reg, aChs = (\<lambda>_. chan_make 0)(0 := \<lparr>cap = 256, queue = [snapshot_event [] ''c'']\<rparr>), aModes = [(''s'', ModeFull)],
    aLazy = [], aAvail = [(''s'', demo_lazy ModeFull)], aFwMap = [(''s'', 0)],
    aFws = [\<lparr>fID = ''s'', fTerm = 0, fOut = [], fExited = False, fNotify = False, fTaken = []\<rparr>],
    aSend = \<lparr>cap = 512, queue = q\<rparr>, aWire = [], aDone = False, aErr = None, aEnded = chan_make 64,
    aActivated = [''prod''], aPair = []\<rparr>"
    using demo_attached_eq by blast
  let ?x = "term_at demo_reg 0" and ?chs = "aChs (demo_attached ModeFull)"
  obtain x' chs' fired where emit: "term_emit ?x ''hi'' False ?chs = (x', chs', fired)" by (metis prod_cases3)
  have sub: "stream_inv (term_stream ?x)" "subs (term_stream ?x) = [(0, Some tooSlow)]"
    by (simp_all add: demo_reg_def term_at_def term_Subscribe_def stream_Subscribe_def demo_pty_def pty_New_def stream_New_def stream_inv_def)
  have "(chs', fired) = ((\<lambda>_. chan_make 0)(0 := \<lparr>cap = 256, queue = [snapshot_event [] ''c'', live_event ''hi'']\<rparr>), [])"
    using emit_stream(4) [OF sub(1) emit] by (simp add: sub(2) w chan_try_send_def)
  then have step: "agent_step (demo_attached ModeFull) (EvOutput 0 ''hi'' False) = Some ((demo_attached ModeFull)
     \<lparr>aReg := set_term demo_reg 0 x',
      aChs := (\<lambda>_. chan_make 0)(0 := \<lparr>cap = 256, queue = [snapshot_event [] ''c'', live_event ''hi'']\<rparr>)\<rparr>)"
    using emit by (simp add: output_step_def w demo_reg_def)
  then show "agent_step (demo_attached ModeFull) (EvOutput 0 ''hi'' False) = Some demo_print"
    by (simp only: demo_print_def agent_turn_def option.case)
  have "demo_print = (demo_attached ModeFull)\<lparr>aReg := set_term demo_reg 0 x',
      aChs := (\<lambda>_. chan_make 0)(0 := \<lparr>cap = 256, queue = [snapshot_event [] ''c'', live_event ''hi'']\<rparr>)\<rparr>"
    using step by (simp only: demo_print_def agent_turn_def option.case)
  then show "\<exists>x'. demo_print = (demo_attached ModeFull)\<lparr>aReg := set_term demo_reg 0 x',
      aChs := (\<lambda>_. chan_make 0)(0 := \<lparr>cap = 256, queue = [snapshot_event [] ''c'', live_event ''hi'']\<rparr>)\<rparr>" ..
qed

lemma demo_sent:
  "let w = foldl agent_turn demo_print demo_sending in
     \<not> aDone w \<and> length (aFws w) = 1 \<and> fID (aFws w ! 0) = ''s'' \<and> \<not> fExited (aFws w ! 0) \<and> queue (aChs w 0) = [] \<and>
     fOut (aFws w ! 0) = [] \<and> queue (aSend w) = []"
proof -
  obtain q where q: "map fst q = [None, None]" and w: "demo_attached ModeFull =
   \<lparr>aReg = demo_reg, aChs = (\<lambda>_. chan_make 0)(0 := \<lparr>cap = 256, queue = [snapshot_event [] ''c'']\<rparr>), aModes = [(''s'', ModeFull)],
    aLazy = [], aAvail = [(''s'', demo_lazy ModeFull)], aFwMap = [(''s'', 0)],
    aFws = [\<lparr>fID = ''s'', fTerm = 0, fOut = [], fExited = False, fNotify = False, fTaken = []\<rparr>],
    aSend = \<lparr>cap = 512, queue = q\<rparr>, aWire = [], aDone = False, aErr = None, aEnded = chan_make 64,
    aActivated = [''prod''], aPair = []\<rparr>"
    using demo_attached_eq [of ModeFull] by (elim exE conjE) (rule that)
  obtain m1 m2 where q: "q = [(None, m1), (None, m2)]" using q by (auto simp: map_eq_Cons_conv)
  have msgs: "event_msgs ''s'' (snapshot_event [] ''c'') = [snapshot_start ''s'' ''c'' 0, snapshot_end ''s'' ''c'' 0]"
    "event_msgs ''s'' (live_event ''hi'') = [output_msg ''s'' ''hi'']"
    by (simp_all add: event_msgs_def sendSnapshot_all snapshot_msgs_def chunk_unfold)
  obtain x' where p: "demo_print = (demo_attached ModeFull) \<lparr>aReg := set_term demo_reg 0 x',
      aChs := (\<lambda>_. chan_make 0)(0 := \<lparr>cap = 256, queue = [snapshot_event [] ''c'', live_event ''hi'']\<rparr>)\<rparr>"
    using demo_print_eq(2) by (rule exE)
  show ?thesis
    by (simp add: Let_def demo_sending_def p w q agent_turn_def fw_take_def fw_send_def sendWait_def writer_step_def
        chan_try_recv_def chan_try_send_def set_fw_def msgs)
qed

lemma demo_true_events:
  "true_events (demo_connect ModeFull) 0 (EvServer demo_env (demo_msg ''client_attach'' []) # EvOutput 0 ''hi'' False # demo_sending) =
     [snapshot_event [] ''c'', live_event ''hi'']"
proof -
  let ?a = "EvServer demo_env (demo_msg ''client_attach'' [])"
  have new: "aFws (demo_connect ModeFull) = []" by (subst demo_connect_eq) simp
  have att: "agent_turn (demo_connect ModeFull) ?a = demo_attached ModeFull" by (simp add: demo_attached_def)
  note facts = demo_attached_facts [of ModeFull]
  have step: "agent_step (demo_connect ModeFull) ?a \<noteq> None"
    using att new facts(5) by (auto simp: agent_turn_def split: option.splits)
  have out: "agent_step (demo_attached ModeFull) (EvOutput 0 ''hi'' False) \<noteq> None"
    unfolding demo_print_eq(1) by simp
  have fws: "aFws demo_print = aFws (demo_attached ModeFull)" using demo_print_eq(2) by (elim exE) (erule ssubst, simp)
  have "run_ops w 0 demo_sending = []" for w by (simp add: demo_sending_def turn_ops_def)
  then have "run_ops (demo_connect ModeFull) 0 (?a # EvOutput 0 ''hi'' False # demo_sending) = [OpRequest 0 ''c'', OpEmit ''hi'']"
    using step out fws facts
    by (simp add: att demo_print_def [symmetric] turn_ops_def emit_op_def del: agent_step.simps) (simp add: demo_msg_def)
  moreover have "joined (demo_connect ModeFull) 0 (?a # EvOutput 0 ''hi'' False # demo_sending) = demo_attached ModeFull"
    using new facts(5) by (simp add: att)
  moreover have "aReg (demo_attached ModeFull) = demo_reg" using demo_attached_eq [of ModeFull] by (elim exE conjE) simp
  ultimately show ?thesis
    using facts(10) by (simp add: true_events_due due_def stream_of_def term_at_def demo_reg_def demo_screen)
qed

end
