(* ===== verification/Auth_Identity.thy ===== *)
theory Auth_Identity
  imports Multiplexers Go_Encoding
begin

text \<open>
  The agent's identity files, \<^verbatim>\<open>src/internal/auth\<close>: the UID and the Ed25519 key, created once and never
  replaced.

  A file is what \<^verbatim>\<open>os.Lstat\<close> finds at its path.  \<open>disk\<close> says which of the system calls of one attempt
  succeed, what the random source gives, and what another process may have put at the path between the
  look-up and the exclusive creation.  Both loaders start over when that happened, so they consume a list
  of attempts; \<open>None\<close> means they are still trying.  Ed25519 itself is an argument.
\<close>

section \<open>Files\<close>

datatype node = Absent | NotRegular | Regular bytes

record disk =
  prepare_ok :: bool
  lstat_ok :: bool
  chmod_ok :: bool
  read_ok :: bool
  random :: "bytes option"
  race :: node
  open_ok :: bool
  write_ok :: bool

datatype auth_error = DirError | ReadError | InvalidFile | GenerateError | SaveError

text \<open>\<open>Inr None\<close> is a missing file.\<close>

definition readPrivateFile :: "disk \<Rightarrow> node \<Rightarrow> auth_error + bytes option" where
  "readPrivateFile d n =
     (if n = Absent \<and> lstat_ok d then Inr None
      else if \<not> lstat_ok d then Inl ReadError
      else case n of
          Regular data \<Rightarrow>
            if \<not> chmod_ok d then Inl ReadError
            else if \<not> read_ok d then Inl ReadError
            else Inr (Some data)
        | _ \<Rightarrow> Inl ReadError)"

datatype create_result = Created | Exists | CreateFailed

text \<open>
  Exclusive creation: an existing path is left alone, and a file that could not be written is removed.
\<close>

definition createPrivateFile :: "disk \<Rightarrow> node \<Rightarrow> bytes \<Rightarrow> node \<times> create_result" where
  "createPrivateFile d n data =
     (if n \<noteq> Absent then (n, Exists)
      else if \<not> open_ok d then (n, CreateFailed)
      else if \<not> write_ok d then (Absent, CreateFailed)
      else (Regular data, Created))"

section \<open>Loading\<close>

text \<open>
  The common shape of both loaders: \<open>parse\<close> judges an existing file, \<open>fresh\<close> turns random bytes into a new
  identity and the line that is saved.
\<close>

fun load_or_create ::
    "(bytes \<Rightarrow> 'i option) \<Rightarrow> (bytes \<Rightarrow> 'i \<times> string) \<Rightarrow> disk list \<Rightarrow> node \<Rightarrow>
     (node \<times> (auth_error + 'i)) option" where
  "load_or_create parse fresh [] n = None"
| "load_or_create parse fresh (d # ds) n =
     (if \<not> prepare_ok d then Some (n, Inl DirError)
      else case readPrivateFile d n of
          Inl e \<Rightarrow> Some (n, Inl e)
        | Inr (Some data) \<Rightarrow>
            Some (n, case parse data of Some i \<Rightarrow> Inr i | None \<Rightarrow> Inl InvalidFile)
        | Inr None \<Rightarrow>
            (case random d of
               None \<Rightarrow> Some (n, Inl GenerateError)
             | Some rnd \<Rightarrow>
                 let (i, line) = fresh rnd;
                     n1 = (if race d \<noteq> Absent then race d else n)
                 in case createPrivateFile d n1 (line @ [CHR 0x0A]) of
                      (n2, Exists) \<Rightarrow> load_or_create parse fresh ds n2
                    | (n2, CreateFailed) \<Rightarrow> Some (n2, Inl SaveError)
                    | (n2, Created) \<Rightarrow> Some (n2, Inr i)))"

definition parse_uid :: "bytes \<Rightarrow> string option" where
  "parse_uid data =
     (let uid = TrimSpace data in
      case hex_decode uid of
        Some decoded \<Rightarrow> if length decoded = 16 then Some uid else None
      | None \<Rightarrow> None)"

definition LoadOrCreateUID :: "disk list \<Rightarrow> node \<Rightarrow> (node \<times> (auth_error + string)) option" where
  "LoadOrCreateUID ds n = load_or_create parse_uid (\<lambda>rnd. (hex_encode rnd, hex_encode rnd)) ds n"

definition SeedSize :: nat where "SeedSize = 32"

definition parse_key :: "(bytes \<Rightarrow> 'k) \<Rightarrow> bytes \<Rightarrow> 'k option" where
  "parse_key NewKeyFromSeed data =
     (case hex_decode (TrimSpace data) of
        Some seed \<Rightarrow> if length seed = SeedSize then Some (NewKeyFromSeed seed) else None
      | None \<Rightarrow> None)"

text \<open>\<^verbatim>\<open>GenerateKey\<close> makes the key of a random seed, which \<^verbatim>\<open>Seed\<close> returns.\<close>

definition LoadOrCreateKey ::
    "(bytes \<Rightarrow> 'k) \<Rightarrow> disk list \<Rightarrow> node \<Rightarrow> (node \<times> (auth_error + 'k)) option" where
  "LoadOrCreateKey NewKeyFromSeed ds n =
     load_or_create (parse_key NewKeyFromSeed) (\<lambda>seed. (NewKeyFromSeed seed, hex_encode seed)) ds n"

definition PublicKeyHex :: "('k \<Rightarrow> bytes) \<Rightarrow> 'k \<Rightarrow> string" where
  "PublicKeyHex public priv = hex_encode (public priv)"

section \<open>Identities that last\<close>

text \<open>
  The contract: what a loader saves for good random bytes is what it parses back.
\<close>

locale lasting_identity =
  fixes parse :: "bytes \<Rightarrow> 'i option"
    and fresh :: "bytes \<Rightarrow> 'i \<times> string"
    and good :: "bytes \<Rightarrow> bool"
  assumes parse_fresh: "good rnd \<Longrightarrow> parse (snd (fresh rnd) @ [CHR 0x0A]) = Some (fst (fresh rnd))"
begin

lemma never_replaced:
  "load_or_create parse fresh ds n = Some (n', res) \<Longrightarrow> n \<noteq> Absent \<Longrightarrow> n' = n"
  by (cases ds) (auto simp: readPrivateFile_def split: if_splits node.splits)

lemma race_respected:
  "load_or_create parse fresh (d # ds) Absent = Some (n', res) \<Longrightarrow> race d \<noteq> Absent \<Longrightarrow> n' = Absent \<or> n' = race d"
  by (auto simp: readPrivateFile_def createPrivateFile_def Let_def split: if_splits option.splits prod.splits
      dest: never_replaced)

lemma loaded_parses:
  assumes "load_or_create parse fresh ds n = Some (n', Inr i)"
    and "\<And>d rnd. d \<in> set ds \<Longrightarrow> random d = Some rnd \<Longrightarrow> good rnd"
  shows "\<exists>data. n' = Regular data \<and> parse data = Some i"
  using assms
proof (induction ds arbitrary: n)
  case (Cons d ds)
  show ?case
  proof (cases "readPrivateFile d n")
    case (Inl e)
    with Cons.prems(1) show ?thesis by (auto split: if_splits)
  next
    case (Inr r)
    show ?thesis
    proof (cases r)
      case (Some data)
      then have "n = Regular data"
        using Inr by (auto simp: readPrivateFile_def split: if_splits node.splits)
      with Cons.prems(1) Inr Some show ?thesis by (auto split: if_splits option.splits)
    next
      case None
      obtain rnd where rnd: "random d = Some rnd"
        using Cons.prems(1) Inr None by (auto split: if_splits option.splits)
      let ?n1 = "if race d \<noteq> Absent then race d else n"
      show ?thesis
      proof (cases "snd (createPrivateFile d ?n1 (snd (fresh rnd) @ [CHR 0x0A]))")
        case Created
        then have "createPrivateFile d ?n1 (snd (fresh rnd) @ [CHR 0x0A]) =
            (Regular (snd (fresh rnd) @ [CHR 0x0A]), Created)"
          by (auto simp: createPrivateFile_def split: if_splits)
        then show ?thesis
          using Cons.prems Inr None rnd parse_fresh
          by (auto simp: case_prod_beta Let_def split: if_splits)
      next
        case Exists
        with Cons Inr None rnd show ?thesis
          by (auto simp: case_prod_beta Let_def split: if_splits)
      next
        case CreateFailed
        with Cons.prems(1) Inr None rnd show ?thesis
          by (auto simp: case_prod_beta Let_def split: if_splits)
      qed
    qed
  qed
qed simp

lemma reload_same:
  assumes "load_or_create parse fresh ds n = Some (n', Inr i)"
    and "\<And>d rnd. d \<in> set ds \<Longrightarrow> random d = Some rnd \<Longrightarrow> good rnd"
    and "prepare_ok d" "lstat_ok d" "chmod_ok d" "read_ok d"
  shows "load_or_create parse fresh (d # ds') n' = Some (n', Inr i)"
proof -
  obtain data where "n' = Regular data" "parse data = Some i" using loaded_parses assms(1,2) by blast
  with assms(3-6) show ?thesis by (simp add: readPrivateFile_def)
qed

end

lemma hex_digit_visible: "n < 16 \<Longrightarrow> visible_char (hex_digit n)"
  by (auto simp: hex_digit_def visible_char_def)

lemma hex_encode_visible: "c \<in> set (hex_encode bs) \<Longrightarrow> visible_char c"
proof (induction bs)
  case (Cons b bs)
  have "of_char b < (256 :: nat)" by simp
  then have "byte_code b div 16 < 16" by (simp add: less_mult_imp_div_less)
  with Cons show ?case by (auto simp: hex_digit_visible)
qed simp

lemma TrimSpace_hex:
  assumes "0 < length bs" shows "TrimSpace (hex_encode bs @ [CHR 0x0A]) = hex_encode bs"
proof -
  have "hex_encode bs \<noteq> []" using assms by (cases bs) simp_all
  then show ?thesis by (intro TrimSpace_line hex_encode_visible [of _ bs]) simp_all
qed

interpretation uid_file:
  lasting_identity parse_uid "\<lambda>rnd. (hex_encode rnd, hex_encode rnd)" "\<lambda>rnd. length rnd = 16"
proof unfold_locales
  fix rnd :: bytes
  assume len: "length rnd = 16"
  then have "TrimSpace (hex_encode rnd @ [CHR 0x0A]) = hex_encode rnd" by (intro TrimSpace_hex) simp
  with len show "parse_uid (snd (hex_encode rnd, hex_encode rnd) @ [CHR 0x0A]) =
      Some (fst (hex_encode rnd, hex_encode rnd))"
    by (simp add: parse_uid_def hex_roundtrip)
qed

interpretation key_file:
  lasting_identity "parse_key NewKeyFromSeed" "\<lambda>seed. (NewKeyFromSeed seed, hex_encode seed)"
    "\<lambda>seed. length seed = SeedSize"
proof unfold_locales
  fix seed :: bytes
  assume len: "length seed = SeedSize"
  then have "TrimSpace (hex_encode seed @ [CHR 0x0A]) = hex_encode seed"
    by (intro TrimSpace_hex) (simp add: SeedSize_def)
  with len show "parse_key NewKeyFromSeed (snd (NewKeyFromSeed seed, hex_encode seed) @ [CHR 0x0A]) =
      Some (fst (NewKeyFromSeed seed, hex_encode seed))"
    by (simp add: parse_key_def hex_roundtrip)
qed

section \<open>Properties\<close>

text \<open>The disk delivers as many random bytes as asked for.\<close>

definition random_bytes :: "nat \<Rightarrow> disk list \<Rightarrow> bool" where
  "random_bytes k ds \<longleftrightarrow> list_all (\<lambda>d. case random d of Some rnd \<Rightarrow> length rnd = k | None \<Rightarrow> True) ds"

definition disk_works :: "disk \<Rightarrow> bool" where
  "disk_works d \<longleftrightarrow> prepare_ok d \<and> lstat_ok d \<and> chmod_ok d \<and> read_ok d"


definition demo_disk :: "bytes \<Rightarrow> disk" where
  "demo_disk rnd = \<lparr>prepare_ok = True, lstat_ok = True, chmod_ok = True, read_ok = True, random = Some rnd,
     race = Absent, open_ok = True, write_ok = True\<rparr>"


end
