(* ===== verification/Agent_Reconnect.thy ===== *)
theory Agent_Reconnect
  imports Agent_Teardown Auth_Identity
begin

text \<open>
  One connection from dialling to its end, and the loop of connections of \<^verbatim>\<open>main\<close>: the prologue of \<^verbatim>\<open>runAgent\<close> in
  \<^verbatim>\<open>src/cmd/scomp/main.go\<close> (dialling, hello, challenge, refresh and snapshot of the session source), what stays when it
  returns, and the next attempt.  The last section is \<^verbatim>\<open>deadlineReader\<close>, which ends a
  connection gone silent, and the deadline of the handshake.
\<close>

section \<open>The session source\<close>

text \<open>
  The interface \<^verbatim>\<open>sessionSource\<close> has two implementations: the catalog and the fixed list of fakeshell mode.  A listing is
  the time of a scan and what tmux and Screen show.  Subscriber channels are numbered; each connection takes number 0,
  free again once the one before has unsubscribed.
\<close>

type_synonym listing = "int \<times> tmux_session list \<times> screen_session list"

datatype source = ScannedSource catalog | FixedSource "lazy_session list"

type_synonym life = "source \<times> string registry"

definition source_refresh :: "(nat \<Rightarrow> bytes) \<Rightarrow> listing \<Rightarrow> life \<Rightarrow> life" where
  "source_refresh rnd l s =
     (case (s, l) of
        ((ScannedSource c, r), (tm, tmuxNow, screenNow)) \<Rightarrow>
          (case catalog_refresh rnd tm tmuxNow screenNow (c, r) of (c', r', _) \<Rightarrow> (ScannedSource c', r'))
      | ((FixedSource ls, r), _) \<Rightarrow> (FixedSource (fake_refresh ls), r))"

definition source_subscribe :: "source \<Rightarrow> source \<times> lazy_session list" where
  "source_subscribe src =
     (case src of
        ScannedSource c \<Rightarrow> (case snapshotAndSubscribe c 0 of (c', ls) \<Rightarrow> (ScannedSource c', ls))
      | FixedSource ls \<Rightarrow> (FixedSource ls, fake_sessions ls))"

definition source_unsubscribe :: "source \<Rightarrow> source" where
  "source_unsubscribe src =
     (case src of ScannedSource c \<Rightarrow> ScannedSource (catalog_unsubscribe c 0) | FixedSource ls \<Rightarrow> FixedSource ls)"

text \<open>
  The scans of the watcher while a connection runs: their changes and removals are events of the connection
  (\<open>EvChange\<close>, \<open>EvRemove\<close>); here is what they make of the catalog.
\<close>

definition source_scan :: "(nat \<Rightarrow> bytes) \<Rightarrow> source \<Rightarrow> listing \<Rightarrow> source" where
  "source_scan rnd src l =
     (case (src, l) of
        (ScannedSource c, (tm, tmuxNow, screenNow)) \<Rightarrow>
          ScannedSource (fst (scan_locked rnd tm c (scan_found tmuxNow screenNow) True))
      | (FixedSource ls, _) \<Rightarrow> FixedSource ls)"

section \<open>One connection\<close>

record 'k identity =
  idVersion :: string
  idUID :: string
  idHost :: string
  idKey :: 'k
  idPublic :: "'k \<Rightarrow> bytes"
  idSign :: "'k \<Rightarrow> bytes \<Rightarrow> bytes"

text \<open>
  What an attempt meets: events of terminals, cleanups and scans before it (\<open>atBefore\<close>), whether dialling and the two
  writes of the handshake succeed, the relay's first message, the listing of the refresh, and the events and scans
  until the connection returns.
\<close>

record attempt =
  atBefore :: "agent_event list"
  atDial :: bool
  atHello :: bool
  atReply :: "server_msg option"
  atAuth :: bool
  atListing :: listing
  atEnv :: env
  atEvents :: "agent_event list"
  atScans :: "listing list"

datatype ending = DialFailed | HelloFailed | HandshakeFailed challenge_error | AuthFailed | Disconnected "string option"

definition agent_hello :: "'k identity \<Rightarrow> agent_msg" where
  "agent_hello i = newAgentHello (idVersion i) (idUID i) (idHost i) (PublicKeyHex (idPublic i) (idKey i))"

text \<open>The registry while no connection is open.\<close>

definition offline :: "agent_event list \<Rightarrow> string registry \<Rightarrow> string registry" where
  "offline evs r = aReg (foldl agent_turn (agent_New r) evs)"

definition connection :: "(nat \<Rightarrow> bytes) \<Rightarrow> attempt \<Rightarrow> life \<Rightarrow> source \<times> agent" where
  "connection rnd at s =
     (case source_refresh rnd (atListing at) s of
        (src1, r1) \<Rightarrow>
          (case source_subscribe src1 of
             (src2, lazy) \<Rightarrow> (src2, foldl agent_turn (agent_connect (atEnv at) r1 lazy) (atEvents at))))"

text \<open>\<open>runAgent\<close> gives what is left, the messages that reached the relay, and how it ended.\<close>

definition runAgent :: "(nat \<Rightarrow> bytes) \<Rightarrow> 'k identity \<Rightarrow> attempt \<Rightarrow> life \<Rightarrow> life \<times> agent_msg list \<times> ending" where
  "runAgent rnd i at s =
     (if \<not> atDial at then (s, [], DialFailed)
      else if \<not> atHello at then (s, [], HelloFailed)
      else case answerChallenge (idSign i) (idKey i) (atReply at) of
          Inl err \<Rightarrow> (s, [agent_hello i], HandshakeFailed err)
        | Inr auth \<Rightarrow>
            if \<not> atAuth at then (s, [agent_hello i], AuthFailed)
            else (case connection rnd at s of
                (src, w) \<Rightarrow>
                  ((source_unsubscribe (foldl (source_scan rnd) src (atScans at)), aReg w),
                   agent_hello i # auth # map snd (aWire w), Disconnected (aErr w))))"

definition life_turn :: "(nat \<Rightarrow> bytes) \<Rightarrow> 'k identity \<Rightarrow> life \<Rightarrow> attempt \<Rightarrow> life" where
  "life_turn rnd i s at = (case s of (src, r) \<Rightarrow> fst (runAgent rnd i at (src, offline (atBefore at) r)))"

text \<open>The loop of \<^verbatim>\<open>main\<close>.\<close>

definition main_loop :: "(nat \<Rightarrow> bytes) \<Rightarrow> 'k identity \<Rightarrow> life \<Rightarrow> attempt list \<Rightarrow> life" where
  "main_loop rnd i s ats = foldl (life_turn rnd i) s ats"

section \<open>What an attempt leaves\<close>

definition connected :: "'k identity \<Rightarrow> attempt \<Rightarrow> bool" where
  "connected i at \<longleftrightarrow> atDial at \<and> atHello at \<and> atAuth at \<and>
     (case answerChallenge (idSign i) (idKey i) (atReply at) of Inr _ \<Rightarrow> True | Inl _ \<Rightarrow> False)"

lemma runAgent_life:
  "fst (runAgent rnd i at s) =
     (if connected i at
      then (source_unsubscribe (foldl (source_scan rnd) (fst (connection rnd at s)) (atScans at)), aReg (snd (connection rnd at s)))
      else s)"
  by (auto simp: runAgent_def connected_def case_prod_beta split: sum.split)

text \<open>What may happen to the registry while no connection is open.\<close>

fun outside :: "agent_event \<Rightarrow> bool" where
  "outside (EvOutput _ _ _) \<longleftrightarrow> True"
| "outside (EvTermEnd _) \<longleftrightarrow> True"
| "outside (EvCleanup _) \<longleftrightarrow> True"
| "outside (EvRemove _) \<longleftrightarrow> True"
| "outside _ \<longleftrightarrow> False"

lemma outside_lazies: "outside ev \<Longrightarrow> event_lazies_in Q ev"
  by (cases ev) simp_all

lemma outside_fws: "outside ev \<Longrightarrow> aFws (agent_turn w ev) = aFws w"
  by (cases ev) (auto simp: agent_turn_def output_step_def Let_def case_prod_beta split: option.split)

lemma offline_no_subs:
  assumes "no_subs r" "list_all outside evs" shows "no_subs (offline evs r)"
proof -
  have "aFws (foldl agent_turn w evs) = aFws w" for w
    using assms(2) by (induction evs arbitrary: w) (simp_all add: outside_fws)
  then have "aFws (foldl agent_turn (agent_New r) evs) = []" by (simp add: agent_New_def)
  moreover have "sub_inv (agent_New r)" using assms(1) by (auto simp: sub_inv_def agent_New_def subs_owned_def no_subs_def)
  then have "sub_inv (foldl agent_turn (agent_New r) evs)" by (rule subscription_machine.run_inv)
  ultimately show ?thesis by (auto simp: sub_inv_def subs_owned_def no_subs_def offline_def)
qed

lemma fst_scan_remove:
  "fst (scan_remove r (e # es)) =
     (if reg_Get r (lID e) = None then fst (scan_remove r es) else fst (scan_remove (reg_Remove r (lID e)) es))"
  by (simp add: case_prod_beta Let_def split: option.split)

lemma scan_remove_no_subs: "subs_shrink r (fst (scan_remove r es))"
proof (induction es arbitrary: r)
  case (Cons e es)
  from Cons [of r] subs_shrink_trans [OF subs_shrink_rules(6) Cons [of "reg_Remove r (lID e)"]] show ?case
    unfolding fst_scan_remove by simp
qed (simp add: subs_shrink_same)

lemma refresh_no_subs: "no_subs r \<Longrightarrow> no_subs (snd (source_refresh rnd l (src, r)))"
  using scan_remove_no_subs [of r]
  by (cases src; cases l)
    (auto simp: source_refresh_def catalog_refresh_def catalog_scan_def case_prod_beta Let_def no_subs_def subs_shrink_def)

text \<open>The sessions a connection offers, and those that appear on it.\<close>

definition offers :: "(lazy_session \<Rightarrow> bool) \<Rightarrow> (nat \<Rightarrow> bytes) \<Rightarrow> attempt \<Rightarrow> life \<Rightarrow> bool" where
  "offers Q rnd at s \<longleftrightarrow>
     list_all Q (snd (source_subscribe (fst (source_refresh rnd (atListing at) s)))) \<and> list_all (event_lazies_in Q) (atEvents at)"

text \<open>
  A life of the agent: between connections only terminals, cleanups and scans act, and every connection returns
  before the next attempt; \<open>Q\<close> holds of all sessions that are ever offered.
\<close>

fun life_ok :: "(lazy_session \<Rightarrow> bool) \<Rightarrow> (nat \<Rightarrow> bytes) \<Rightarrow> 'k identity \<Rightarrow> life \<Rightarrow> attempt list \<Rightarrow> bool" where
  "life_ok Q rnd i s [] \<longleftrightarrow> True"
| "life_ok Q rnd i s (at # ats) \<longleftrightarrow>
     list_all outside (atBefore at) \<and>
     (connected i at \<longrightarrow>
        returned (snd (connection rnd at (fst s, offline (atBefore at) (snd s)))) \<and>
        offers Q rnd at (fst s, offline (atBefore at) (snd s))) \<and>
     life_ok Q rnd i (life_turn rnd i s at) ats"

text \<open>The same while the last connection may still be open.\<close>

fun life_open :: "(lazy_session \<Rightarrow> bool) \<Rightarrow> (nat \<Rightarrow> bytes) \<Rightarrow> 'k identity \<Rightarrow> life \<Rightarrow> attempt list \<Rightarrow> bool" where
  "life_open Q rnd i s [] \<longleftrightarrow> True"
| "life_open Q rnd i s (at # ats) \<longleftrightarrow>
     list_all outside (atBefore at) \<and>
     (connected i at \<longrightarrow>
        (ats \<noteq> [] \<longrightarrow> returned (snd (connection rnd at (fst s, offline (atBefore at) (snd s))))) \<and>
        offers Q rnd at (fst s, offline (atBefore at) (snd s))) \<and>
     life_open Q rnd i (life_turn rnd i s at) ats"

lemma life_ok_open: "life_ok Q rnd i s ats \<Longrightarrow> life_open Q rnd i s ats"
  by (induction ats arbitrary: s) simp_all

lemma life_ok_mono: "life_ok Q rnd i s ats \<Longrightarrow> (\<And>ls. Q ls \<Longrightarrow> Q' ls) \<Longrightarrow> life_ok Q' rnd i s ats"
proof (induction ats arbitrary: s)
  case (Cons at ats)
  have "event_lazies_in Q ev \<Longrightarrow> event_lazies_in Q' ev" for ev
    using Cons.prems(2) by (cases ev) (auto split: option.splits)
  then have "offers Q rnd at s' \<Longrightarrow> offers Q' rnd at s'" for s'
    using Cons.prems(2) by (auto simp: offers_def list_all_iff)
  with Cons show ?case by auto
qed simp

lemma connection_no_subs:
  assumes "no_subs r" "returned (snd (connection rnd at (src, r)))"
  shows "no_subs (aReg (snd (connection rnd at (src, r))))"
proof -
  obtain src1 r1 where ref: "source_refresh rnd (atListing at) (src, r) = (src1, r1)" by force
  have "no_subs r1" using refresh_no_subs [OF assms(1), of rnd "atListing at" src] ref by simp
  then have "sub_inv (snd (connection rnd at (src, r)))"
    by (auto simp: connection_def ref case_prod_beta intro!: subscription_machine.run_inv sub_inv_connect)
  with assms(2) show ?thesis by (simp add: returned_no_subs)
qed

lemma life_turn_reg:
  "snd (life_turn rnd i (src, r) at) =
     (if connected i at then aReg (snd (connection rnd at (src, offline (atBefore at) r))) else offline (atBefore at) r)"
  by (simp add: life_turn_def runAgent_life)

lemma life_no_subs: "life_ok Q rnd i s ats \<Longrightarrow> no_subs (snd s) \<Longrightarrow> no_subs (snd (main_loop rnd i s ats))"
proof (induction ats arbitrary: s)
  case (Cons at ats)
  obtain src r where s: "s = (src, r)" by force
  have "no_subs (offline (atBefore at) r)" using Cons.prems s by (simp add: offline_no_subs)
  then have "no_subs (snd (life_turn rnd i s at))"
    using Cons.prems by (simp add: s life_turn_reg connection_no_subs)
  with Cons show ?case by (simp add: main_loop_def)
qed (simp add: main_loop_def)

text \<open>The same for every relation the registry respects.\<close>

context registry_view
begin

lemma R_scan_remove: "R r (fst (scan_remove r es))"
proof (induction es arbitrary: r)
  case (Cons e es)
  from Cons [of r] R_trans [OF R_Remove Cons [of "reg_Remove r (lID e)"]] show ?case
    unfolding fst_scan_remove by simp
qed (simp add: R_refl)

lemma R_refresh: "R r (snd (source_refresh rnd l (src, r)))"
  by (cases src; cases l)
    (simp_all add: source_refresh_def catalog_refresh_def catalog_scan_def case_prod_beta Let_def R_refl R_scan_remove)

lemma R_offline:
  assumes "list_all outside evs" shows "R r (offline evs r)"
proof -
  have "list_all (event_lazies_in Q) evs" using assms by (auto simp: list_all_iff outside_lazies)
  moreover have "lazies_in Q (agent_New r)" by (simp add: lazies_in_def agent_New_def all_values_def)
  ultimately have "R (aReg (agent_New r)) (offline evs r)" unfolding offline_def using R_run by blast
  then show ?thesis by (simp add: agent_New_def)
qed

lemma R_attempt:
  assumes "offers Q rnd at s" shows "R (snd s) (aReg (snd (connection rnd at s)))"
proof -
  obtain src r where s: "s = (src, r)" by force
  obtain src1 r1 where ref: "source_refresh rnd (atListing at) s = (src1, r1)" by force
  obtain src2 lazy where sub: "source_subscribe src1 = (src2, lazy)" by force
  have "R r1 (aReg (foldl agent_turn (agent_connect (atEnv at) r1 lazy) (atEvents at)))"
    using assms ref sub by (intro R_connection) (auto simp: offers_def)
  moreover have "R r r1" using R_refresh [of r rnd "atListing at" src] ref s by simp
  ultimately show ?thesis using R_trans ref sub s by (simp add: connection_def)
qed

lemma R_life: "life_open Q rnd i s ats \<Longrightarrow> R (snd s) (snd (main_loop rnd i s ats))"
proof (induction ats arbitrary: s)
  case (Cons at ats)
  obtain src r where s: "s = (src, r)" by force
  have off: "R r (offline (atBefore at) r)" using Cons.prems by (simp add: R_offline)
  have "R (offline (atBefore at) r) (snd (life_turn rnd i s at))"
    using Cons.prems R_attempt [of rnd at "(src, offline (atBefore at) r)"] by (auto simp: s life_turn_reg R_refl)
  then have "R r (snd (life_turn rnd i s at))" using off R_trans by blast
  moreover have "R (snd (life_turn rnd i s at)) (snd (main_loop rnd i (life_turn rnd i s at) ats))"
    using Cons by simp
  ultimately have "R r (snd (main_loop rnd i (life_turn rnd i s at) ats))" by (rule R_trans)
  then show ?case by (simp add: main_loop_def s)
qed (simp add: main_loop_def R_refl)

end

section \<open>The whole life of an agent\<close>

text \<open>
  C9. However often the agent reconnects, it stays in order.  After any number of attempts - whatever they meet, whatever
  the relays send, in every interleaving - no terminal has a subscriber left over from a connection that has returned,
  and the outstanding cleanups remove exactly the ended sessions.  If moreover every offered session runs its own
  multiplexer command, then every running process is still registered under a session id, and two ids of the same
  multiplexer session always show the same process: reconnecting neither leaks nor duplicates one.
\<close>

theorem main_loop_sound:
  assumes "life_ok (\<lambda>_. True) rnd i (src, registry_New) ats" "main_loop rnd i (src, registry_New) ats = (src', r)"
  shows "no_subs r \<and> entries (run_cleanups r) = filter (\<lambda>(sid, e). reg_alive r (eSession e)) (entries r) \<and>
    (life_ok (runs_source src_of) rnd i (src, registry_New) ats \<longrightarrow>
       (\<forall>t < length (terms r). reg_alive r t \<longrightarrow> (\<exists>sid. reg_Get r sid = Some t)) \<and>
       (\<forall>sid sid' t t'. reg_Get r sid = Some t \<longrightarrow> reg_Get r sid' = Some t' \<longrightarrow> src_of sid = src_of sid' \<longrightarrow> t = t'))"
proof -
  have "no_subs registry_New" by (simp add: no_subs_def registry_New_def)
  then have "no_subs r" using life_no_subs [OF assms(1)] assms(2) by simp
  moreover have "reg_moves registry_New r" using table_view.R_life [OF life_ok_open [OF assms(1)]] assms(2) by simp
  then have "reg_inv r" by (rule reg_moves_inv) simp
  moreover have "accounted src_of registry_New"
    unfolding accounted_def by (intro exI [of _ "[]"]) simp
  then have "accounted src_of r" if "life_ok (runs_source src_of) rnd i (src, registry_New) ats"
    using process_view.R_life [OF life_ok_open [OF that]] assms(2) by simp
  ultimately show ?thesis using cleanup_exact accounted_processes by blast
qed

text \<open>
  An attempt that cannot dial, and one on which a client attaches to a tmux session before the read fails.
\<close>

definition demo_identity :: "bytes identity" where
  "demo_identity =
     \<lparr>idVersion = ''1'', idUID = ''u'', idHost = ''h'', idKey = [], idPublic = (\<lambda>k. k), idSign = (\<lambda>k n. n)\<rparr>"

definition demo_challenge :: server_msg where
  "demo_challenge = (demo_msg ''challenge'' [])\<lparr>rNonce := ''00''\<rparr>"

definition demo_attempt :: "bool \<Rightarrow> attempt" where
  "demo_attempt dial =
     \<lparr>atBefore = [], atDial = dial, atHello = True, atReply = Some demo_challenge, atAuth = True, atListing = (0, [], []),
      atEnv = demo_env,
      atEvents = [EvServer demo_env (demo_msg ''client_attach'' []), EvConnError ''read'', EvQueue 0, EvStop 0, EvNotify 0],
      atScans = []\<rparr>"

definition demo_source :: source where
  "demo_source = FixedSource [demo_lazy ModeFull]"

lemma demo_connected: "connected demo_identity (demo_attempt dial) \<longleftrightarrow> dial"
  by (simp add: connected_def demo_attempt_def demo_identity_def answerChallenge_def demo_challenge_def demo_msg_def
      hex_decode.simps hex_value_def)

lemma demo_life: "life_ok (runs_source (\<lambda>_. ''tmux:scomp-prod'')) (\<lambda>_. []) demo_identity (demo_source, registry_New)
    [demo_attempt False, demo_attempt True]"
proof -
  let ?w = "closeConnection (demo_attached ModeFull) ''read''"
  have run: "snd (connection (\<lambda>_. []) (demo_attempt True) (demo_source, registry_New)) =
      foldl agent_turn ?w [EvQueue 0, EvStop 0, EvNotify 0]"
    by (simp add: connection_def demo_attempt_def demo_source_def source_refresh_def source_subscribe_def fake_refresh_def
        fake_sessions_def demo_attached_def demo_connect_def agent_turn_def)
  have "length (aFws ?w) = 1" by (simp add: demo_attached_facts)
  then have "returned (snd (connection (\<lambda>_. []) (demo_attempt True) (demo_source, registry_New)))"
    unfolding run by (intro winding_returns) simp_all
  moreover have "offers (runs_source (\<lambda>_. ''tmux:scomp-prod'')) (\<lambda>_. []) (demo_attempt True) (demo_source, registry_New)"
    by (simp add: offers_def demo_attempt_def demo_source_def source_refresh_def source_subscribe_def fake_refresh_def
        fake_sessions_def runs_source_def demo_lazy_def sourceKey_linked)
  moreover have "atBefore (demo_attempt d) = []" for d by (simp add: demo_attempt_def)
  moreover have "offline [] registry_New = registry_New" by (simp add: offline_def agent_New_def)
  moreover have "life_turn (\<lambda>_. []) demo_identity (demo_source, registry_New) (demo_attempt False) = (demo_source, registry_New)"
    using calculation(3,4) by (simp add: life_turn_def runAgent_life demo_connected)
  ultimately show ?thesis by (simp add: demo_connected)
qed

theorem main_loop_sound_witness:
  "no_subs (snd (main_loop (\<lambda>_. []) demo_identity (demo_source, registry_New) [demo_attempt False, demo_attempt True]))"
proof -
  have ok: "life_ok (\<lambda>_. True) (\<lambda>_. []) demo_identity (demo_source, registry_New) [demo_attempt False, demo_attempt True]"
    using demo_life by (rule life_ok_mono) simp
  obtain src' r where run: "main_loop (\<lambda>_. []) demo_identity (demo_source, registry_New) [demo_attempt False, demo_attempt True] = (src', r)"
    by force
  from main_loop_sound [OF ok run] run show ?thesis by simp
qed

section \<open>Nothing before the handshake\<close>

text \<open>
  C12. A relay that does not get through the handshake learns nothing but the hello and changes nothing: no session is
  named, no terminal and no catalog entry is touched.  When it does, the first two messages are the hello and the
  signature of exactly the nonce it sent, before anything else.
\<close>

theorem handshake_gates:
  "case runAgent rnd i at s of (s', sent, e) \<Rightarrow>
     (case e of
        Disconnected _ \<Rightarrow>
          (\<exists>msg nonce rest. atReply at = Some msg \<and> rType msg = ''challenge'' \<and> hex_decode (rNonce msg) = Some nonce \<and>
             sent = agent_hello i # (msg_of ''auth'')\<lparr>mSig := hex_encode (idSign i (idKey i) nonce)\<rparr> # rest)
      | _ \<Rightarrow> s' = s \<and> sent \<in> {[], [agent_hello i]})"
proof (cases "answerChallenge (idSign i) (idKey i) (atReply at)")
  case (Inr auth)
  then obtain msg nonce where "atReply at = Some msg" "rType msg = ''challenge''" "hex_decode (rNonce msg) = Some nonce"
      "auth = (msg_of ''auth'')\<lparr>mSig := hex_encode (idSign i (idKey i) nonce)\<rparr>"
    by (auto simp: answerChallenge_def split: option.splits if_splits)
  with Inr show ?thesis by (simp add: runAgent_def case_prod_beta)
qed (simp add: runAgent_def)

section \<open>Silent connections\<close>

text \<open>
  \<^verbatim>\<open>deadlineReader\<close> over the WebSocket: the frames with the times at which they are read, in order; afterwards
  nothing arrives any more.  Pings and pongs are handled inside \<^verbatim>\<open>ReadMessage\<close>; a frame over the read limit, a broken one
  or a failed reply to a ping is a read error, and so is the deadline.  The result is what the successive calls return
  (\<open>None\<close> is the error that ends the connection) and the time of the error.
\<close>

definition agentReadTimeout :: int where "agentReadTimeout = 90 * 10 ^ 9"
definition readLimit :: nat where "readLimit = 2 ^ 20"

datatype frame = FData bytes | FPing bool | FPong | FBroken

definition extend :: "int \<Rightarrow> int" where "extend t = t + agentReadTimeout"

fun deadline_reads :: "int \<Rightarrow> (int \<times> frame) list \<Rightarrow> bytes option list \<times> int" where
  "deadline_reads deadline [] = ([None], deadline)"
| "deadline_reads deadline ((t, f) # fs) =
     (if deadline \<le> t then ([None], deadline)
      else case f of
          FData p \<Rightarrow>
            if readLimit < length p then ([None], t)
            else (case deadline_reads (extend t) fs of (rs, e) \<Rightarrow> (Some p # rs, e))
        | FPing answered \<Rightarrow> if answered then deadline_reads (extend t) fs else ([None], t)
        | FPong \<Rightarrow> deadline_reads (extend t) fs
        | FBroken \<Rightarrow> ([None], t))"

definition newDeadlineReader :: "int \<Rightarrow> (int \<times> frame) list \<Rightarrow> bytes option list \<times> int" where
  "newDeadlineReader tm fs = deadline_reads (extend tm) fs"

text \<open>
  The read of the handshake has one fixed deadline, which pings and pongs do not move; the result is the challenge's
  bytes and the time of the return.
\<close>

definition challengeTimeout :: int where "challengeTimeout = 10 * 10 ^ 9"

fun handshake_read :: "int \<Rightarrow> (int \<times> frame) list \<Rightarrow> bytes option \<times> int" where
  "handshake_read deadline [] = (None, deadline)"
| "handshake_read deadline ((t, f) # fs) =
     (if deadline \<le> t then (None, deadline)
      else case f of
          FData p \<Rightarrow> if readLimit < length p then (None, t) else (Some p, t)
        | FPing answered \<Rightarrow> if answered then handshake_read deadline fs else (None, t)
        | FPong \<Rightarrow> handshake_read deadline fs
        | FBroken \<Rightarrow> (None, t))"

text \<open>What \<^verbatim>\<open>answerChallenge\<close> works on (\<open>atReply\<close>), for the frames that arrive after the hello.\<close>

definition challenge_reply :: "(bytes \<Rightarrow> server_msg option) \<Rightarrow> int \<Rightarrow> (int \<times> frame) list \<Rightarrow> server_msg option" where
  "challenge_reply unmarshal tm fs = Option.bind (fst (handshake_read (tm + challengeTimeout) fs)) unmarshal"

lemma handshake_read_bound: "snd (handshake_read deadline fs) \<le> deadline"
  by (induction deadline fs rule: handshake_read.induct) (auto split: frame.split)

fun frame_data :: "frame \<Rightarrow> bytes list" where
  "frame_data (FData p) = [p]"
| "frame_data _ = []"

fun frame_ok :: "frame \<Rightarrow> bool" where
  "frame_ok (FData p) \<longleftrightarrow> length p \<le> readLimit"
| "frame_ok (FPing answered) \<longleftrightarrow> answered"
| "frame_ok FPong \<longleftrightarrow> True"
| "frame_ok FBroken \<longleftrightarrow> False"

text \<open>Frames that are sound and never further apart than the timeout.\<close>

fun lively :: "int \<Rightarrow> (int \<times> frame) list \<Rightarrow> bool" where
  "lively last_read [] \<longleftrightarrow> True"
| "lively last_read ((t, f) # fs) \<longleftrightarrow> t < extend last_read \<and> frame_ok f \<and> lively t fs"

lemma lively_reads:
  "lively tm fs \<Longrightarrow> deadline_reads (extend tm) fs =
     (map Some (concat (map (frame_data \<circ> snd) fs)) @ [None], extend (last (tm # map fst fs)))"
proof (induction fs arbitrary: tm)
  case (Cons x fs)
  obtain t f where x: "x = (t, f)" by force
  with Cons show ?case by (cases f) auto
qed simp

lemma silent_reads:
  "extend (last (tm # map fst pre)) \<le> t \<Longrightarrow> deadline_reads (extend tm) (pre @ (t, f) # post) = deadline_reads (extend tm) pre"
proof (induction pre arbitrary: tm)
  case (Cons x pre)
  obtain u g where x: "x = (u, g)" by force
  have "deadline_reads (extend u) (pre @ (t, f) # post) = deadline_reads (extend u) pre"
    using Cons.prems by (intro Cons.IH) (simp add: x split: if_splits)
  then show ?case by (simp add: x split: frame.split)
qed simp

text \<open>
  C13. No silent relay holds the agent up.  As long as sound frames of any kind keep arriving within the timeout, every
  data message is delivered in order, and the read fails exactly 90 seconds after the last frame; after a silence of
  that length nothing is read any more.  The handshake waits for its challenge no longer than ten seconds, whatever
  arrives, and a challenge that comes later is not answered.
\<close>

theorem silence_ends_connection:
  "(lively tm fs \<longrightarrow>
      newDeadlineReader tm fs =
        (map Some (concat (map (frame_data \<circ> snd) fs)) @ [None], extend (last (tm # map fst fs)))) \<and>
   (extend (last (tm # map fst pre)) \<le> t \<longrightarrow>
      newDeadlineReader tm (pre @ (t, f) # post) = newDeadlineReader tm pre) \<and>
   snd (handshake_read (tm + challengeTimeout) fs) \<le> tm + challengeTimeout \<and>
   (list_all (\<lambda>(u, g). frame_data g = [] \<or> tm + challengeTimeout \<le> u) fs \<longrightarrow>
      (case answerChallenge sign key (challenge_reply unmarshal tm fs) of Inl _ \<Rightarrow> True | Inr _ \<Rightarrow> False))"
proof -
  have "fst (handshake_read (tm + challengeTimeout) fs) = None"
    if "list_all (\<lambda>(u, g). frame_data g = [] \<or> tm + challengeTimeout \<le> u) fs"
    using that by (induction fs) (auto split: frame.split)
  then show ?thesis
    by (simp add: newDeadlineReader_def lively_reads silent_reads handshake_read_bound challenge_reply_def answerChallenge_def)
qed

theorem silence_ends_connection_witness:
  "newDeadlineReader 0 [(5, FData ''a''), (6, FPing True), (7, FData ''b'')] =
     ([Some ''a'', Some ''b'', None], 7 + 90 * 10 ^ 9)"
proof -
  have "lively 0 [(5, FData ''a''), (6, FPing True), (7, FData ''b'')]"
    by (simp add: extend_def agentReadTimeout_def readLimit_def)
  with silence_ends_connection [of 0 "[(5, FData ''a''), (6, FPing True), (7, FData ''b'')]" "[]" 0 FPong "[]"
      "\<lambda>k n. n" "()" "\<lambda>_. None"]
  show ?thesis by (simp add: extend_def agentReadTimeout_def)
qed

end
