(* ===== verification/Agent_Life.thy ===== *)
theory Agent_Life
  imports Agent_Delivery Agent_Reconnect
begin

text \<open>
  The delivery of a session's output in any connection of the agent's life: between connections the registry is always
  ready for the next one.
\<close>

section \<open>Ready for the next connection\<close>

lemma ready_New: "ready registry_New"
  by (simp add: ready_def streams_ok_def no_subs_def registry_New_def [THEN arg_cong, of terms])

lemma ready_run:
  assumes "ready r" "w = foldl agent_turn (agent_connect e r lazy) evs" "no_subs (aReg w)" shows "ready (aReg w)"
proof -
  have "tied w" unfolding assms(2) by (intro delivery_machine.run_inv connect_tied assms(1))
  with assms(3) show ?thesis by (simp add: ready_def tied_def linked_def)
qed

lemma kept_scan: "streams_kept r (fst (scan_remove r es))"
proof (induction es arbitrary: r)
  case (Cons e es)
  from Cons [of r] kept_trans [OF kept_Remove Cons [of "reg_Remove r (lID e)"]] show ?case
    unfolding fst_scan_remove by simp
qed (simp add: kept_same)

lemma ready_refresh:
  assumes "ready r" shows "ready (snd (source_refresh rnd l (src, r)))"
proof -
  have "streams_kept r (snd (source_refresh rnd l (src, r)))"
    by (cases src; cases l)
      (simp_all add: source_refresh_def catalog_refresh_def catalog_scan_def case_prod_beta Let_def kept_same kept_scan)
  then show ?thesis
    using assms streams_ok_kept refresh_no_subs table_view.R_refresh reg_moves_inv unfolding ready_def by metis
qed

lemma ready_offline: "ready r \<Longrightarrow> list_all outside evs \<Longrightarrow> ready (offline evs r)"
  using ready_run [of r _ undefined "[]" evs] offline_no_subs [of r evs]
  by (simp add: offline_def agent_connect_def ready_def)

lemma ready_connection:
  assumes "ready r" "returned (snd (connection rnd at (src, r)))"
  shows "ready (aReg (snd (connection rnd at (src, r))))"
proof -
  obtain src1 r1 where ref: "source_refresh rnd (atListing at) (src, r) = (src1, r1)" by force
  have "ready r1" using ready_refresh [OF assms(1), of rnd "atListing at" src] ref by simp
  moreover have "no_subs (aReg (snd (connection rnd at (src, r))))"
    using connection_no_subs assms by (simp add: ready_def)
  ultimately show ?thesis
    by (intro ready_run [of r1 _ "atEnv at" "snd (source_subscribe src1)" "atEvents at"])
      (simp_all add: connection_def ref case_prod_beta)
qed

lemma ready_life: "life_ok Q rnd i s ats \<Longrightarrow> ready (snd s) \<Longrightarrow> ready (snd (main_loop rnd i s ats))"
proof (induction ats arbitrary: s)
  case (Cons at ats)
  obtain src r where s: "s = (src, r)" by force
  have "ready (offline (atBefore at) r)" using Cons.prems s by (simp add: ready_offline)
  then have "ready (snd (life_turn rnd i s at))"
    using Cons.prems by (simp add: s life_turn_reg ready_connection)
  with Cons show ?case by (simp add: main_loop_def)
qed (simp add: main_loop_def)

section \<open>What the relay sees\<close>

text \<open>
  C1. The relay sees exactly what the terminal shows.  In any connection of the agent's life, whatever is
  sent, attached, resized or interrupted, what a forwarder has put on the wire is a prefix of the true messages of its terminal: the snapshots
  its clients asked for, each with the last bytes printed up to that very point since the last reset of the screen, and
  between them all output in order.  A relay that follows the protocol decodes these messages back
  to those events.  When the connection is up and nothing is on its way any more, it has all of them: nothing is lost,
  repeated, reordered or mixed with another session's output.
\<close>

theorem relay_sees_terminal:
  assumes "life_ok (\<lambda>_. True) rnd i (src, registry_New) ats" "main_loop rnd i (src, registry_New) ats = (src', r)"
    and w: "w = foldl agent_turn (agent_connect e r lazy) evs" and f: "f < length (aFws w)"
  defines "sid \<equiv> fID (aFws w ! f)" and "events \<equiv> true_events (agent_connect e r lazy) f evs"
  shows "prefix (from_fw f (aWire w)) (concat (map (event_msgs sid) events)) \<and>
    relay_reads sid (concat (map (event_msgs sid) events)) = Some events \<and>
    (\<not> aDone w \<and> \<not> fExited (aFws w ! f) \<and> queue (aChs w f) = [] \<and> fOut (aFws w ! f) = [] \<and> queue (aSend w) = [] \<longrightarrow>
       relay_reads sid (from_fw f (aWire w)) = Some events)"
proof -
  have "ready r" using ready_life [OF assms(1)] assms(2) by (simp add: ready_New)
  from connection_delivers [OF this w f] show ?thesis unfolding sid_def events_def .
qed

theorem relay_sees_terminal_witness:
  "\<exists>w. w = foldl agent_turn (demo_connect ModeFull)
        (EvServer demo_env (demo_msg ''client_attach'' []) # EvOutput 0 ''hi'' False # demo_sending) \<and>
     relay_reads ''s'' (from_fw 0 (aWire w)) = Some [snapshot_event [] ''c'', live_event ''hi'']"
proof -
  define w where "w = foldl agent_turn (agent_connect demo_env registry_New [demo_lazy ModeFull])
        (EvServer demo_env (demo_msg ''client_attach'' []) # EvOutput 0 ''hi'' False # demo_sending)"
  have run: "w = foldl agent_turn demo_print demo_sending"
    by (simp add: w_def demo_connect_def [symmetric] demo_attached_def demo_print_def)
  have life: "life_ok (\<lambda>_. True) (\<lambda>_. []) demo_identity (demo_source, registry_New) [demo_attempt False]"
    using demo_life by (simp add: demo_connected)
  have new: "main_loop (\<lambda>_. []) demo_identity (demo_source, registry_New) [demo_attempt False] = (demo_source, registry_New)"
    by (simp add: main_loop_def life_turn_def runAgent_life demo_connected offline_def agent_New_def) (simp add: demo_attempt_def)
  note sent = demo_sent [unfolded Let_def, folded run]
  from relay_sees_terminal [OF life new w_def, of 0] sent
  have "relay_reads ''s'' (from_fw 0 (aWire w)) = Some [snapshot_event [] ''c'', live_event ''hi'']"
    by (simp add: demo_true_events demo_connect_def [symmetric])
  then show ?thesis by (auto simp: w_def demo_connect_def)
qed

end
