(* ===== verification/Agent_Exit.thy ===== *)
theory Agent_Exit
  imports Agent_Reconnect
begin

text \<open>
  The end of the agent: the signal handler of \<^verbatim>\<open>main\<close> in \<^verbatim>\<open>src/cmd/scomp/main.go\<close> runs the cleanup of
  \<^verbatim>\<open>startMultiplexerSource\<close> (\<^verbatim>\<open>multiplexer.go\<close>) with the names that \<^verbatim>\<open>onTmuxActivated\<close> collected over all
  connections, then exits.
\<close>

section \<open>Leaving\<close>

text \<open>What the connection of an attempt activates; \<open>onTmuxActivated\<close> appends each name to one list of the whole run.\<close>

definition activated_in :: "(nat \<Rightarrow> bytes) \<Rightarrow> 'k identity \<Rightarrow> life \<Rightarrow> attempt \<Rightarrow> string list" where
  "activated_in rnd i s at =
     (if connected i at then aActivated (snd (connection rnd at (fst s, offline (atBefore at) (snd s)))) else [])"

fun activated :: "(nat \<Rightarrow> bytes) \<Rightarrow> 'k identity \<Rightarrow> life \<Rightarrow> attempt list \<Rightarrow> string list" where
  "activated rnd i s [] = []"
| "activated rnd i s (at # ats) = activated_in rnd i s at @ activated rnd i (life_turn rnd i s at) ats"

text \<open>
  The signal may come at any time: the last attempt is then the connection as far as it got.  In fakeshell mode the
  cleanup does nothing.
\<close>

definition agent_exit ::
    "bool \<Rightarrow> (nat \<Rightarrow> bytes) \<Rightarrow> 'k identity \<Rightarrow> life \<Rightarrow> attempt list \<Rightarrow> string list \<times> (string \<times> string list) list" where
  "agent_exit fake rnd i s ats =
     (if fake then (activated rnd i s ats, []) else multiplexer_cleanup (activated rnd i s ats))"

section \<open>Activated sessions\<close>

text \<open>The tmux sessions whose linked session the registry knows, and what a step may do to them.\<close>

definition linked_to :: "'cb registry \<Rightarrow> string set" where
  "linked_to r = {name. ''tmux:'' @ LinkedSessionName name \<in> dom (map_of (sourceToID r))}"

definition records :: "agent \<Rightarrow> agent \<Rightarrow> bool" where
  "records w w' \<longleftrightarrow> (\<exists>names. aActivated w' = aActivated w @ names \<and> linked_to (aReg w') \<subseteq> linked_to (aReg w) \<union> set names)"

lemma records_same: "aActivated w' = aActivated w \<Longrightarrow> linked_to (aReg w') \<subseteq> linked_to (aReg w) \<Longrightarrow> records w w'"
  by (auto simp: records_def intro: exI [of _ "[]"])

lemma records_trans:
  assumes "records w w'" "records w' w''" shows "records w w''"
proof -
  obtain a b where "aActivated w' = aActivated w @ a" "linked_to (aReg w') \<subseteq> linked_to (aReg w) \<union> set a"
      "aActivated w'' = aActivated w' @ b" "linked_to (aReg w'') \<subseteq> linked_to (aReg w') \<union> set b"
    using assms by (auto simp: records_def)
  then show ?thesis unfolding records_def by (intro exI [of _ "a @ b"]) auto
qed

lemma linked_set_term [simp]: "linked_to (set_term r t x) = linked_to r"
  by (simp add: linked_to_def set_term_def)

lemma linked_close [simp]: "linked_to (close_term r t) = linked_to r"
  by (simp add: close_term_def)

lemma linked_drop: "linked_to (drop_entry r sid e) \<subseteq> linked_to r"
  by (auto simp: linked_to_def drop_entry_def Let_def AList.delete_conv dom_def split: if_splits)

lemma linked_Remove: "linked_to (reg_Remove r sid) \<subseteq> linked_to r"
  using linked_drop [of r sid] by (auto simp: reg_Remove_def split: option.splits)

lemma linked_cleanup: "linked_to (reg_step r (RCleanup k)) \<subseteq> linked_to r"
proof -
  have "linked_to (r\<lparr>cleanups := cs\<rparr>) = linked_to r" for r :: "'a registry" and cs by (simp add: linked_to_def)
  then show ?thesis
    using linked_drop by (fastforce simp: run_cleanup_def forgetWhenDone_def split: option.splits if_splits)
qed

lemma linked_put:
  "linked_to (reg_put r sid e) \<subseteq> linked_to r \<union> {name. eSource e = ''tmux:'' @ LinkedSessionName name}"
  by (auto simp: linked_to_def reg_put_def AList.update_conv' dom_def split: if_splits)

lemma linked_CreateWithID:
  "case reg_CreateWithID r ok n sid cmd args c rs of (r', res) \<Rightarrow>
     linked_to r' \<subseteq> linked_to r \<union> {name. res \<noteq> None \<and> sourceKey cmd args = ''tmux:'' @ LinkedSessionName name}"
proof -
  have new: "linked_to (fst (new_term r x)) = linked_to r" for r :: "'a registry" and x
    by (simp add: linked_to_def new_term_def)
  have "linked_to (reg_alias r sid e) \<subseteq> linked_to r" for e
    using linked_put by (fastforce simp: reg_alias_def)
  moreover have "linked_to (fst (reg_spawn r ok n sid cmd src c rs)) \<subseteq>
      linked_to r \<union> {name. snd (reg_spawn r ok n sid cmd src c rs) \<noteq> None \<and> src = ''tmux:'' @ LinkedSessionName name}" for src
    using linked_put new [of r] by (fastforce simp: reg_spawn_def case_prod_beta Let_def split: option.splits)
  ultimately show ?thesis
    by (auto simp: reg_CreateWithID_def Let_def case_prod_beta split: option.split)
qed

lemma linked_Add: "linked_to (fst (reg_Add (fst (new_term r x)) n sid cmd t)) \<subseteq> linked_to r"
proof -
  have "linked_to (fst (reg_Add r' n sid cmd t)) \<subseteq> linked_to r'" for r' :: "'a registry"
    using linked_put [of r' sid "\<lparr>eInfo = \<lparr>iID = sid, iCmd = cmd, iCreated = n, iMode = []\<rparr>, eSession = t, eSource = []\<rparr>"]
    by (simp add: reg_Add_def Let_def split: option.split)
  from this [of "fst (new_term r x)"] show ?thesis by (simp add: linked_to_def new_term_def)
qed

section \<open>Steps\<close>

lemma activated_frame [simp]:
  "aActivated (closeConnection w err) = aActivated w" "aActivated (send_msg w m) = aActivated w"
  "aActivated (foldl closeConnection w errs) = aActivated w"
  "aActivated (sendSessionAdd w ls a c r) = aActivated w" "aActivated (sendSessionRemove w sid) = aActivated w"
  "aActivated (rejectAttach w ls cl) = aActivated w" "aActivated (requestSnapshot w sid cl) = aActivated w"
  "aActivated (startForwarder w sid) = aActivated w" "aActivated (early_end e w sid) = aActivated w"
proof -
  have close: "aActivated (closeConnection v err) = aActivated v" for v err by (simp add: closeConnection_def)
  then have send: "aActivated (send_msg v m) = aActivated v" for v m by (simp add: send_msg_def split: option.split)
  show "aActivated (foldl closeConnection w errs) = aActivated w" by (induction errs arbitrary: w) (simp_all add: close)
  from close send show "aActivated (closeConnection w err) = aActivated w" "aActivated (send_msg w m) = aActivated w"
    "aActivated (sendSessionAdd w ls a c r) = aActivated w" "aActivated (sendSessionRemove w sid) = aActivated w"
    "aActivated (rejectAttach w ls cl) = aActivated w" "aActivated (requestSnapshot w sid cl) = aActivated w"
    by (simp_all add: sendSessionAdd_def sendSessionRemove_def rejectAttach_def empty_snapshot_sends requestSnapshot_def
        Let_def case_prod_beta split: option.split)
qed (simp_all add: startForwarder_def early_end_def Let_def split: option.split)

lemma linked_name: "''tmux:'' @ LinkedSessionName a = ''tmux:scomp-'' @ a"
  by (simp add: LinkedSessionName_def sccompPrefix_def)

lemma records_activate: "records w (fst (lazy_activate e w ls c rs))"
proof (cases "lActivate ls")
  case (ActTmux name)
  obtain cmd args where link: "LinkedSessionArgs name = (cmd, args)" by force
  obtain r' res where made: "reg_CreateWithID (aReg w) (sys_ok e) (now e) (lID ls) cmd args c rs = (r', res)" by force
  have "sourceKey cmd args = ''tmux:'' @ LinkedSessionName a \<longleftrightarrow> a = name" for a
    using sourceKey_linked [of name] link by (auto simp: LinkedSessionName_def sccompPrefix_def)
  then have "linked_to r' \<subseteq> linked_to (aReg w) \<union> (if res = None then {} else {name})"
    using linked_CreateWithID [of "aReg w" cmd args "sys_ok e" "now e" "lID ls" c rs] made by auto
  then show ?thesis
    using ActTmux link made by (cases res) (auto simp: lazy_activate_def records_def)
next
  case (ActScreen fullName)
  obtain cmd args where link: "screen_AttachArgs fullName = (cmd, args)" by force
  obtain r' res where made: "reg_CreateWithID (aReg w) (sys_ok e) (now e) (lID ls) cmd args c rs = (r', res)" by force
  have "sourceKey cmd args \<noteq> ''tmux:'' @ LinkedSessionName a" for a
    using sourceKey_screen [of fullName] link by (auto simp: linked_name)
  then have "linked_to r' \<subseteq> linked_to (aReg w)"
    using linked_CreateWithID [of "aReg w" cmd args "sys_ok e" "now e" "lID ls" c rs] made by auto
  with ActScreen link made show ?thesis by (intro records_same) (simp_all add: lazy_activate_def)
next
  case (ActFake p)
  then show ?thesis
    using linked_Add by (intro records_same) (simp_all add: lazy_activate_def case_prod_beta Let_def new_term_def)
qed

lemma linked_frame [simp]:
  "linked_to (aReg (startForwarder w sid)) = linked_to (aReg w)" "linked_to (aReg (early_end e w sid)) = linked_to (aReg w)"
  by (simp_all add: startForwarder_def early_end_def Let_def split: option.split)

lemma records_attach: "records w (fst (attach_activate e w msg))"
proof (cases "map_of (aLazy w) (rSessionID msg)")
  case (Some ls)
  then show ?thesis
    using records_activate [of w e ls] by (auto simp: attach_activate_def Let_def case_prod_beta records_def)
qed (simp add: attach_activate_def records_same)

lemma records_finish: "finishSession w f = Some w' \<Longrightarrow> aReg w' = aReg w \<and> aActivated w' = aActivated w"
  by (auto simp: finishSession_def Let_def restoreLazySession_def split: if_splits option.splits)

lemma records_handle: "handleServerMsg e w msg = Some w' \<Longrightarrow> records w w'"
proof -
  assume handled: "handleServerMsg e w msg = Some w'"
  have "records w w1" if "handle_attach e w msg = Some w1" for w1
  proof -
    obtain w0 where w0: "finishIfEnded w (rSessionID msg) = Some w0"
      and w1: "w1 = (let (w2, go_on) = attach_activate e w0 msg in
        if go_on then requestSnapshot w2 (rSessionID msg) (rClientID msg) else w2)"
      using \<open>handle_attach e w msg = Some w1\<close> by (auto simp: handle_attach_def Let_def split: option.splits prod.splits)
    have "aReg w0 = aReg w \<and> aActivated w0 = aActivated w"
      using w0 records_finish by (auto simp: finishIfEnded_def split: option.splits)
    then show ?thesis using records_attach [of w0 e msg] by (auto simp: w1 Let_def case_prod_beta records_def)
  qed
  moreover have "records w (handle_input e w msg)" "records w (handle_resize e w msg)"
    by (rule records_same; simp add: handle_input_def handle_resize_def split: option.split)+
  ultimately show ?thesis using handled by (auto simp: handleServerMsg_def split: if_splits intro: records_same)
qed

lemma records_step: "agent_step w ev = Some w' \<Longrightarrow> records w w'"
proof (cases ev)
  case (EvServer e msg)
  moreover assume "agent_step w ev = Some w'"
  ultimately show ?thesis using records_handle by simp
next
  case EvEnded
  moreover assume "agent_step w ev = Some w'"
  ultimately show ?thesis by (auto split: option.splits intro!: records_same dest!: records_finish)
next
  case (EvCleanup k)
  moreover assume "agent_step w ev = Some w'"
  ultimately show ?thesis using linked_cleanup [of "aReg w" k] by (auto simp del: reg_step.simps intro!: records_same dest: subsetD)
qed (rule records_same; use linked_Remove in \<open>force simp: handle_change_def fw_take_def fw_send_def fw_notify_def
    fw_stop_def sendWait_def set_fw_def output_step_def Let_def case_prod_beta
    split: if_splits option.splits list.splits dest!: writer_stepD\<close>)+

lemma records_run: "records w (foldl agent_turn w evs)"
proof (induction evs arbitrary: w)
  case (Cons ev evs)
  have "records w (agent_turn w ev)"
    using records_step by (auto simp: agent_turn_def records_same split: option.split)
  with Cons show ?case by (auto intro: records_trans)
qed (simp add: records_same)

lemma records_connect: "records (agent_New r) (agent_connect e r lazy)"
proof -
  have "records w (foldl (advertise e) w lazy)" for w
  proof (induction lazy arbitrary: w)
    case (Cons ls lazy)
    have "records w (advertise e w ls)" by (rule records_same) (simp_all add: advertise_def Let_def)
    with Cons show ?case by (auto intro: records_trans)
  qed (simp add: records_same)
  then show ?thesis by (simp add: agent_connect_def)
qed

section \<open>The whole run\<close>

lemma linked_refresh: "linked_to (snd (source_refresh rnd l (src, r))) \<subseteq> linked_to r"
proof -
  have "linked_to (fst (scan_remove r es)) \<subseteq> linked_to r" for es
  proof (induction es arbitrary: r)
    case (Cons e es)
    show ?case
      using Cons [of r] Cons [of "reg_Remove r (lID e)"] linked_Remove [of r "lID e"] unfolding fst_scan_remove by auto
  qed simp
  then show ?thesis
    by (cases src; cases l) (auto simp: source_refresh_def catalog_refresh_def catalog_scan_def case_prod_beta Let_def)
qed

lemma linked_offline: "list_all outside evs \<Longrightarrow> linked_to (offline evs r) \<subseteq> linked_to r"
proof -
  have "aActivated (agent_turn w ev) = aActivated w" if "outside ev" for w ev
    using that by (cases ev) (auto simp: agent_turn_def output_step_def Let_def case_prod_beta split: option.split)
  then have "aActivated (foldl agent_turn w evs) = aActivated w" if "list_all outside evs" for w
    using that by (induction evs arbitrary: w) simp_all
  then show "linked_to (offline evs r) \<subseteq> linked_to r" if "list_all outside evs"
    using that records_run [of "agent_New r" evs] by (auto simp: records_def offline_def agent_New_def)
qed

lemma linked_connection:
  "linked_to (aReg (snd (connection rnd at s))) \<subseteq> linked_to (snd s) \<union> set (aActivated (snd (connection rnd at s)))"
proof -
  obtain src r where s: "s = (src, r)" by force
  obtain src1 r1 where ref: "source_refresh rnd (atListing at) (src, r) = (src1, r1)" by force
  define w where "w = snd (connection rnd at s)"
  have "records (agent_New r1) w"
    using records_trans [OF records_connect records_run] by (simp add: w_def connection_def s ref case_prod_beta)
  then have "linked_to (aReg w) \<subseteq> linked_to (snd s) \<union> set (aActivated w)"
    using linked_refresh [of rnd "atListing at" src r] ref s by (auto simp: records_def agent_New_def)
  then show ?thesis unfolding w_def .
qed

lemma linked_life: "life_open Q rnd i s ats \<Longrightarrow>
  linked_to (snd (main_loop rnd i s ats)) \<subseteq> linked_to (snd s) \<union> set (activated rnd i s ats)"
proof (induction ats arbitrary: s)
  case (Cons at ats)
  obtain src r where s: "s = (src, r)" by force
  let ?r = "offline (atBefore at) r"
  have "linked_to ?r \<subseteq> linked_to r" using Cons.prems s by (intro linked_offline) simp
  then have "linked_to (snd (life_turn rnd i s at)) \<subseteq> linked_to r \<union> set (activated_in rnd i s at)"
    using linked_connection [of rnd at "(src, ?r)"] by (auto simp: s life_turn_reg activated_in_def)
  moreover have "linked_to (snd (main_loop rnd i s (at # ats))) \<subseteq>
      linked_to (snd (life_turn rnd i s at)) \<union> set (activated rnd i (life_turn rnd i s at) ats)"
    using Cons by (simp add: main_loop_def)
  ultimately show ?case by (auto simp: s)
qed (simp add: main_loop_def)

section \<open>Nothing stays behind\<close>

lemma accounted_linked:
  assumes "accounted src_of r" "reg_Get r sid = Some t" "src_of sid = ''tmux:'' @ LinkedSessionName name"
  shows "name \<in> linked_to r"
proof -
  obtain g where g: "dedup_inv src_of (r, g)" "[] \<notin> set g" using assms(1) by (auto simp: accounted_def)
  have "t < length (terms r)" "reg_alive r t" "g ! t = src_of sid"
    using assms(2) g(1) by (auto simp: reg_Get_def dedup_inv_def split: option.splits if_splits)
  moreover have "g ! u \<noteq> []" if "u < length (terms r)" for u
    using g that by (auto simp: dedup_inv_def in_set_conv_nth)
  ultimately have "found_at r (src_of sid) t" using g(1) by (auto simp: dedup_inv_def)
  with assms(3) show ?thesis by (auto simp: found_at_def linked_to_def)
qed


text \<open>An attempt that cannot dial, then a connection that is still open with a client attached.\<close>

definition demo_open :: attempt where
  "demo_open = (demo_attempt True)\<lparr>atEvents := [EvServer demo_env (demo_msg ''client_attach'' [])]\<rparr>"


end
