(* ===== verification/Vfs_Path.thy ===== *)
theory Vfs_Path
  imports Go_Strings
begin

text \<open>
  Slash-separated paths: the functions of Go's \<^verbatim>\<open>path\<close> package that the in-memory file tree uses, and the
  path functions of \<^verbatim>\<open>src/fakeshell/vfs/vfs.go\<close> (\<^verbatim>\<open>Resolve\<close>, \<^verbatim>\<open>basePath\<close>, \<^verbatim>\<open>under\<close>).  A clean absolute path
  is determined by its components, and the lemmas say what each function does to them.
\<close>

section \<open>Go's path package\<close>

abbreviation slash :: char where "slash \<equiv> CHR ''/''"

text \<open>\<^verbatim>\<open>path.Clean\<close>: the components so far in reverse, then the rest of the path.\<close>

fun clean_comps :: "bool \<Rightarrow> string list \<Rightarrow> string list \<Rightarrow> string list" where
  "clean_comps rooted acc [] = rev acc"
| "clean_comps rooted acc (c # cs) =
     (if c = [] \<or> c = ''.'' then clean_comps rooted acc cs
      else if c = ''..'' then
        (if acc \<noteq> [] \<and> hd acc \<noteq> ''..'' then clean_comps rooted (tl acc) cs
         else if rooted then clean_comps rooted acc cs
         else clean_comps rooted (c # acc) cs)
      else clean_comps rooted (c # acc) cs)"

definition path_Clean :: "string \<Rightarrow> string" where
  "path_Clean p =
     (if p = [] then ''.''
      else
        let rooted = HasPrefix p [slash];
            s = Join (clean_comps rooted [] (split_on slash p)) [slash]
        in if rooted then slash # s else if s = [] then ''.'' else s)"

text \<open>Everything up to and including the last slash, as \<^verbatim>\<open>path.Split\<close> has it.\<close>

definition dir_part :: "string \<Rightarrow> string" where
  "dir_part p = rev (dropWhile (\<lambda>c. c \<noteq> slash) (rev p))"

definition path_Dir :: "string \<Rightarrow> string" where
  "path_Dir p = path_Clean (dir_part p)"

definition path_Base :: "string \<Rightarrow> string" where
  "path_Base p =
     (if p = [] then ''.''
      else let b = after_last slash (TrimRight p [slash]) in if b = [] then [slash] else b)"

definition path_Join :: "string list \<Rightarrow> string" where
  "path_Join ws =
     (let vs = filter (\<lambda>w. w \<noteq> []) ws in if vs = [] then [] else path_Clean (Join vs [slash]))"

section \<open>Paths of the file tree\<close>

definition Resolve :: "string \<Rightarrow> string \<Rightarrow> string" where
  "Resolve cwd p =
     (if CHR 0x00 \<in> set p then []
      else path_Clean (slash # (if HasPrefix p [slash] then p else cwd @ [slash] @ p)))"

definition basePath :: "string \<Rightarrow> string" where
  "basePath p = (if p = [slash] then ''.'' else TrimPrefix p [slash])"

definition under :: "string \<Rightarrow> string \<Rightarrow> bool" where
  "under p dir \<longleftrightarrow> p = dir \<or> dir = [slash] \<or> HasPrefix p (dir @ [slash])"

section \<open>Components\<close>

definition good_comp :: "string \<Rightarrow> bool" where
  "good_comp c \<longleftrightarrow> c \<noteq> [] \<and> c \<noteq> ''.'' \<and> c \<noteq> ''..'' \<and> slash \<notin> set c"

definition abs_path :: "string list \<Rightarrow> string" where
  "abs_path cs = slash # Join cs [slash]"

text \<open>A clean absolute path, decided by cleaning it.\<close>

definition clean_abs :: "string \<Rightarrow> bool" where
  "clean_abs p \<longleftrightarrow> HasPrefix p [slash] \<and> path_Clean p = p"

lemma Join_Nil [simp]: "Join [] sep = []"
  by (simp add: Join_def)

lemma Join_single [simp]: "Join [v] sep = v"
  by (simp add: Join_def)

lemma Join_Cons: "vs \<noteq> [] \<Longrightarrow> Join (v # vs) sep = v @ sep @ Join vs sep"
  by (cases vs) (auto simp: Join_def)

lemma Join_snoc: "vs \<noteq> [] \<Longrightarrow> Join (vs @ [v]) sep = Join vs sep @ sep @ v"
  by (cases vs) (auto simp: Join_def)

lemma Join_append:
  "vs \<noteq> [] \<Longrightarrow> ws \<noteq> [] \<Longrightarrow> Join (vs @ ws) [sep] = Join vs [sep] @ sep # Join ws [sep]"
proof (induction vs)
  case (Cons v vs)
  then show ?case by (cases "vs = []") (simp_all add: Join_Cons)
qed simp

lemma split_on_pieces: "x \<in> set (split_on sep s) \<Longrightarrow> sep \<notin> set x"
  by (induction s arbitrary: x) (auto split: if_splits list.splits)

lemma split_on_Join:
  "vs \<noteq> [] \<Longrightarrow> list_all (\<lambda>v. sep \<notin> set v) vs \<Longrightarrow> split_on sep (Join vs [sep]) = vs"
proof (induction vs)
  case (Cons v vs)
  then show ?case by (cases "vs = []") (auto simp: split_on_no_sep Join_Cons split_on_append)
qed simp

lemma clean_comps_good:
  "list_all good_comp acc \<Longrightarrow> list_all (\<lambda>c. slash \<notin> set c) cs \<Longrightarrow> list_all good_comp (clean_comps True acc cs)"
proof (induction "True" acc cs rule: clean_comps.induct)
  case (2 acc c cs)
  then show ?case by (cases acc) (auto simp: good_comp_def)
qed (auto simp: list_all_iff)

lemma clean_comps_id:
  "list_all good_comp cs \<Longrightarrow> clean_comps rooted acc cs = rev acc @ cs"
  by (induction cs arbitrary: acc) (auto simp: good_comp_def)

lemma path_Clean_rooted:
  "\<exists>cs. list_all good_comp cs \<and> path_Clean (slash # p) = abs_path cs"
proof -
  let ?cs = "clean_comps True [] (split_on slash (slash # p))"
  have "list_all good_comp ?cs"
    by (rule clean_comps_good) (use split_on_pieces [of _ slash "slash # p"] in \<open>auto simp: list_all_iff\<close>)
  then show ?thesis by (intro exI [where x = ?cs]) (simp add: path_Clean_def abs_path_def)
qed

lemma good_no_slash: "list_all good_comp cs \<Longrightarrow> list_all (\<lambda>c. slash \<notin> set c) cs"
  by (auto simp: list_all_iff good_comp_def)

lemma split_on_abs_path:
  "list_all good_comp cs \<Longrightarrow> split_on slash (abs_path cs) = [] # (if cs = [] then [[]] else cs)"
  using good_no_slash [of cs] by (auto simp: abs_path_def split_on_Join)

lemma path_Clean_abs_path [simp]: "list_all good_comp cs \<Longrightarrow> path_Clean (abs_path cs) = abs_path cs"
  by (auto simp: path_Clean_def split_on_abs_path clean_comps_id) (auto simp: abs_path_def)

lemma clean_abs_iff: "clean_abs p \<longleftrightarrow> (\<exists>cs. list_all good_comp cs \<and> p = abs_path cs)"
proof
  assume "clean_abs p"
  then obtain r where "p = slash # r" "path_Clean p = p" by (auto simp: clean_abs_def HasPrefix_iff)
  with path_Clean_rooted [of r] show "\<exists>cs. list_all good_comp cs \<and> p = abs_path cs" by metis
qed (auto simp: clean_abs_def, simp add: abs_path_def)

lemma clean_absE:
  assumes "clean_abs p"
  obtains cs where "list_all good_comp cs" "p = abs_path cs"
  using assms by (auto simp: clean_abs_iff)

lemma abs_path_Nil [simp]: "abs_path [] = [slash]"
  by (simp add: abs_path_def)

lemma abs_path_inject:
  assumes "list_all good_comp cs" "list_all good_comp ds" "abs_path cs = abs_path ds"
  shows "cs = ds"
proof -
  have "(if cs = [] then [[]] else cs) = (if ds = [] then [[]] else ds)"
    using split_on_abs_path [OF assms(1)] split_on_abs_path [OF assms(2)] assms(3) by simp
  with assms(1,2) show ?thesis by (auto simp: good_comp_def split: if_splits)
qed

lemma abs_path_snoc: "abs_path (cs @ [c]) = (if cs = [] then [] else abs_path cs) @ slash # c"
  by (auto simp: abs_path_def Join_snoc)

lemma dir_part_append: "slash \<notin> set c \<Longrightarrow> dir_part (p @ slash # c) = p @ [slash]"
  by (simp add: dir_part_def dropWhile_append)

lemma clean_comps_append_empty [simp]: "clean_comps rooted acc (cs @ [[]]) = clean_comps rooted acc cs"
  by (induction rooted acc cs rule: clean_comps.induct) auto

lemma split_on_join: "split_on sep (s @ sep # t) = split_on sep s @ split_on sep t"
  by (induction s) (auto split: list.split)

lemma path_Dir_abs_path [simp]:
  assumes "list_all good_comp (cs @ [c])"
  shows "path_Dir (abs_path (cs @ [c])) = abs_path cs"
proof (cases "cs = []")
  case True
  with assms show ?thesis
    by (simp add: path_Dir_def abs_path_def good_comp_def dir_part_append [of c "[]", simplified])
      (simp add: path_Clean_def)
next
  case False
  have "path_Clean (abs_path cs @ [slash]) = abs_path cs"
    using assms by (auto simp: path_Clean_def split_on_join [where t = "[]"] split_on_abs_path clean_comps_id)
      (auto simp: abs_path_def)
  with False assms show ?thesis
    by (simp add: path_Dir_def abs_path_snoc good_comp_def dir_part_append)
qed

lemma path_Dir_root [simp]: "path_Dir [slash] = [slash]"
  by (simp add: path_Dir_def dir_part_def path_Clean_def)

lemma TrimRight_no_slash: "c \<noteq> [] \<Longrightarrow> slash \<notin> set c \<Longrightarrow> TrimRight (p @ slash # c) [slash] = p @ slash # c"
  by (cases c rule: rev_cases) (auto simp: TrimRight_def)

lemma path_Base_abs_path [simp]:
  "list_all good_comp (cs @ [c]) \<Longrightarrow> path_Base (abs_path (cs @ [c])) = c"
  by (simp add: path_Base_def abs_path_snoc good_comp_def TrimRight_no_slash after_last_append Let_def)

lemma path_Join_abs_path [simp]:
  assumes "list_all good_comp (cs @ [c])"
  shows "path_Join [abs_path cs, c] = abs_path (cs @ [c])"
proof -
  have "path_Join [abs_path cs, c] = path_Clean (abs_path cs @ slash # c)"
    using assms by (simp add: path_Join_def good_comp_def abs_path_def Join_Cons)
  also have "\<dots> = abs_path (cs @ [c])"
  proof (cases "cs = []")
    case True
    with assms show ?thesis
      by (simp add: path_Clean_def split_on_no_sep good_comp_def abs_path_def)
  next
    case False
    then have "abs_path cs @ slash # c = abs_path (cs @ [c])" by (simp add: abs_path_snoc)
    with assms show ?thesis by (simp only: path_Clean_abs_path)
  qed
  finally show ?thesis .
qed

lemma under_abs_path:
  assumes "list_all good_comp cs" "list_all good_comp ds"
  shows "under (abs_path cs) (abs_path ds) \<longleftrightarrow> (\<exists>es. cs = ds @ es)"
proof (cases "ds = []")
  case True
  then show ?thesis by (simp add: under_def)
next
  case ne: False
  then have ds: "abs_path ds \<noteq> [slash]" using assms(2) by (cases ds) (auto simp: abs_path_def Join_def good_comp_def)
  show ?thesis
  proof
    assume u: "under (abs_path cs) (abs_path ds)"
    show "\<exists>es. cs = ds @ es"
    proof (cases "abs_path cs = abs_path ds")
      case True
      with assms show ?thesis by (auto dest: abs_path_inject)
    next
      case False
      with u ds obtain r where r: "abs_path cs = abs_path ds @ slash # r" by (auto simp: under_def HasPrefix_iff)
      have "[] # (if cs = [] then [[]] else cs) = [] # ds @ split_on slash r"
        using arg_cong [OF r, of "split_on slash"] assms ne
        by (simp add: split_on_abs_path split_on_join)
      with assms ne show ?thesis by (cases ds) (auto simp: good_comp_def split: if_splits)
    qed
  next
    assume "\<exists>es. cs = ds @ es"
    then obtain es where es: "cs = ds @ es" ..
    show "under (abs_path cs) (abs_path ds)"
    proof (cases "es = []")
      case False
      have "Join (ds @ es) [slash] = Join ds [slash] @ slash # Join es [slash]"
        by (rule Join_append) (use ne False in auto)
      then show ?thesis by (simp add: under_def es abs_path_def HasPrefix_iff)
    qed (simp add: under_def es)
  qed
qed

section \<open>Resolution\<close>

lemma Resolve_clean: "CHR 0x00 \<notin> set p \<Longrightarrow> clean_abs (Resolve cwd p)"
  using path_Clean_rooted by (auto simp: Resolve_def clean_abs_iff)

lemma Resolve_clean_id:
  assumes "clean_abs p" "CHR 0x00 \<notin> set p"
  shows "Resolve cwd p = p"
proof -
  from assms(1) obtain cs where cs: "list_all good_comp cs" "p = abs_path cs" by (rule clean_absE)
  have "path_Clean (slash # abs_path cs) = abs_path cs"
    using cs(1) by (auto simp: path_Clean_def split_on_abs_path clean_comps_id) (auto simp: abs_path_def)
  with cs assms(2) show ?thesis by (auto simp: Resolve_def abs_path_def)
qed

lemma set_Join: "set (Join cs [slash]) \<subseteq> insert slash (\<Union> (set ` set cs))"
  by (cases cs) (auto simp: Join_def)

lemma set_split_on: "x \<in> set (split_on sep s) \<Longrightarrow> set x \<subseteq> set s"
proof (induction s arbitrary: x)
  case (Cons a s)
  then show ?case by (cases "split_on sep s") (force split: if_splits)+
qed simp

lemma set_clean_comps: "set (clean_comps rooted acc cs) \<subseteq> set acc \<union> set cs"
proof (induction rooted acc cs rule: clean_comps.induct)
  case (2 rooted acc c cs)
  then show ?case by (cases acc) (auto split: if_splits)
qed simp

lemma set_path_Clean: "set (path_Clean (slash # p)) \<subseteq> insert slash (set p)"
proof -
  let ?cs = "clean_comps True [] (split_on slash (slash # p))"
  have "set x \<subseteq> insert slash (set p)" if "x \<in> set ?cs" for x
    using that set_clean_comps [of True "[]" "split_on slash (slash # p)"] set_split_on [of x slash "slash # p"] by auto
  then have "set (Join ?cs [slash]) \<subseteq> insert slash (set p)" using set_Join [of ?cs] by blast
  then show ?thesis by (simp add: path_Clean_def)
qed

section \<open>Walking up\<close>

text \<open>
  Every path climbs to \<^verbatim>\<open>/\<close> or \<^verbatim>\<open>.\<close> in finitely many steps of \<^verbatim>\<open>path.Dir\<close>, which is why the loops over
  parents end.
\<close>

definition climb :: "string \<Rightarrow> nat" where
  "climb p = (if p = ''.'' \<or> p = [slash] then 0 else Suc (length p))"

definition weight :: "string list \<Rightarrow> nat" where
  "weight cs = sum_list (map (\<lambda>c. Suc (length c)) cs)"

lemma weight_simps [simp]:
  "weight [] = 0" "weight (c # cs) = Suc (length c) + weight cs" "weight (cs @ ds) = weight cs + weight ds"
  "weight (rev cs) = weight cs"
  by (simp_all add: weight_def rev_map [symmetric] sum_list_rev)

lemma weight_tl: "weight (tl cs) \<le> weight cs"
  by (cases cs) auto

lemma weight_clean_comps: "weight (clean_comps rooted acc cs) \<le> weight acc + weight cs"
proof (induction rooted acc cs rule: clean_comps.induct)
  case (2 rooted acc c cs)
  then show ?case using weight_tl [of acc] by auto
qed simp

lemma weight_split_on: "weight (split_on sep s) = Suc (length s)"
  by (induction s) (auto split: list.splits)

lemma length_Join: "length (Join cs [sep]) = weight cs - 1"
proof (induction cs)
  case (Cons c cs)
  then show ?case by (cases cs) (auto simp: Join_Cons)
qed simp

lemma length_path_Clean: "p \<noteq> [] \<Longrightarrow> length (path_Clean p) \<le> length p"
proof (cases "HasPrefix p [slash]")
  case True
  then obtain r where r: "p = slash # r" by (auto simp: HasPrefix_iff)
  have "weight (clean_comps True [] (split_on slash r)) \<le> Suc (length r)"
    using weight_clean_comps [of True "[]" "split_on slash r"] by (simp add: weight_split_on)
  then show ?thesis by (simp add: r path_Clean_def length_Join)
next
  case False
  moreover assume "p \<noteq> []"
  moreover have "weight (clean_comps False [] (split_on slash p)) \<le> Suc (length p)"
    using weight_clean_comps [of False "[]" "split_on slash p"] by (simp add: weight_split_on)
  ultimately show ?thesis by (cases p) (auto simp: path_Clean_def length_Join Let_def)
qed

lemma path_Clean_snoc_slash: "q \<noteq> [] \<Longrightarrow> path_Clean (q @ [slash]) = path_Clean q"
proof -
  assume q: "q \<noteq> []"
  then have "HasPrefix (q @ [slash]) [slash] = HasPrefix q [slash]" by (cases q) auto
  with q show ?thesis by (simp add: path_Clean_def split_on_join [where t = "[]", simplified])
qed

lemma dir_part_cases: "dir_part p = [] \<or> (\<exists>q. dir_part p = q @ [slash] \<and> length q < length p)"
proof (induction p rule: rev_induct)
  case (snoc c p)
  then show ?case by (auto simp: dir_part_def less_SucI)
qed (simp add: dir_part_def)

lemma climb_path_Dir:
  assumes "path_Dir p \<noteq> p"
  shows "climb (path_Dir p) < climb p"
proof (cases "path_Dir p = ''.'' \<or> path_Dir p = [slash]")
  case True
  have "p \<noteq> ''.'' \<and> p \<noteq> [slash]"
    using assms by (auto simp: path_Dir_def dir_part_def path_Clean_def)
  with True show ?thesis by (simp add: climb_def)
next
  case False
  then obtain q where q: "dir_part p = q @ [slash]" "length q < length p"
    using dir_part_cases [of p] by (auto simp: path_Dir_def path_Clean_def)
  then have "q \<noteq> []" using False by (auto simp: path_Dir_def path_Clean_def)
  with q have "length (path_Dir p) < length p"
    using length_path_Clean [of q] by (simp add: path_Dir_def path_Clean_snoc_slash)
  moreover have "p \<noteq> ''.'' \<and> p \<noteq> [slash]"
    using assms by (auto simp: path_Dir_def dir_part_def path_Clean_def)
  ultimately show ?thesis using False by (simp add: climb_def)
qed

end
