(* ===== verification/Session_Watch.thy ===== *)
theory Session_Watch
  imports Session_Catalog Vfs_Path
begin

text \<open>
  The session watcher, \<^verbatim>\<open>src/cmd/scomp/session_watch.go\<close>: filesystem events on the socket directories and the
  notifications of a tmux control client make the catalog scan.

  The loop, the monitor goroutine and its end are the alternatives of one step function, so a list of events is an
  interleaving of them.  What \<^verbatim>\<open>watcher.Add\<close> answers, the session lists and the clock at the time of an event are
  its \<open>watch_world\<close>.  \<^verbatim>\<open>filepath.Dir\<close> is \<^verbatim>\<open>path.Dir\<close> on the supported systems.
\<close>

section \<open>Directories\<close>

datatype add_result = AddOk | AddNotExist | AddFailed

definition watchDir :: "(string \<Rightarrow> add_result) \<Rightarrow> string \<Rightarrow> string set \<Rightarrow> string set" where
  "watchDir add dir watched =
     (if dir = [] \<or> dir \<in> watched then watched
      else case add dir of
          AddOk \<Rightarrow> insert dir watched
        | AddFailed \<Rightarrow> watched
        | AddNotExist \<Rightarrow>
            let parent = path_Dir dir in
            if parent \<noteq> dir \<and> parent \<notin> watched \<and> add parent = AddOk then insert parent watched else watched)"

section \<open>The monitor\<close>

definition monitor_args :: "string \<Rightarrow> string \<times> string list" where
  "monitor_args target =
     (''tmux'', [''-C'', ''attach-session'', ''-f'', ''read-only,ignore-size,no-output,no-detach-on-destroy'',
                ''-t'', ExactTarget target])"

text \<open>How the control client ended; the result is whether \<^verbatim>\<open>monitorTmuxSessions\<close> returns an error.\<close>

datatype monitor_end = NotStarted | ScanFailed | Exited bool

fun monitor_error :: "bool \<Rightarrow> monitor_end \<Rightarrow> bool" where
  "monitor_error ctxDone NotStarted = True"
| "monitor_error ctxDone ScanFailed = True"
| "monitor_error ctxDone (Exited failed) = (failed \<and> \<not> ctxDone)"

definition notify_change :: "unit chan \<Rightarrow> unit chan" where
  "notify_change c = (case chan_try_send c () of Some c' \<Rightarrow> c' | None \<Rightarrow> c)"

section \<open>The loop\<close>

record watch_world =
  wwAdd :: "string \<Rightarrow> add_result"
  wwTmux :: "tmux_session list"
  wwScreen :: "screen_session list"
  wwTargets :: "tmux_session list"
  wwTime :: int

text \<open>
  \<open>wTarget\<close> is the session a running monitor is attached to; \<open>wErrors\<close> counts the errors of monitors that were
  logged.
\<close>

record sess_watch =
  wTmuxDir :: string
  wScreenDir :: string
  wWatched :: "string set"
  wRunning :: bool
  wTarget :: "string option"
  wChanged :: "unit chan"
  wDone :: "bool chan"
  wCat :: catalog
  wReg :: "string registry"
  wKills :: "string list"
  wErrors :: nat
  wEnded :: bool

definition watchDirs :: "watch_world \<Rightarrow> sess_watch \<Rightarrow> sess_watch" where
  "watchDirs wd s =
     s\<lparr>wWatched := watchDir (wwAdd wd) (wScreenDir s) (watchDir (wwAdd wd) (wTmuxDir s) (wWatched s))\<rparr>"

definition watch_scan :: "(nat \<Rightarrow> bytes) \<Rightarrow> watch_world \<Rightarrow> sess_watch \<Rightarrow> sess_watch" where
  "watch_scan rnd wd s =
     (let (c, r, kills) = catalog_scan rnd (wwTime wd) (wwTmux wd) (wwScreen wd) True (wCat s, wReg s)
      in s\<lparr>wCat := c, wReg := r, wKills := wKills s @ kills\<rparr>)"

text \<open>\<^verbatim>\<open>List\<close> is called again for the monitor, so its answer may differ from what the scan saw.\<close>

definition startTmuxMonitor :: "watch_world \<Rightarrow> sess_watch \<Rightarrow> sess_watch" where
  "startTmuxMonitor wd s =
     (if wRunning s then s
      else case wwTargets wd of [] \<Rightarrow> s | t # _ \<Rightarrow> s\<lparr>wRunning := True, wTarget := Some (tName t)\<rparr>)"

datatype watch_event =
    WFile bool bool bool string
  | WEventsClosed
  | WChanged
  | WDone bool
  | WError
  | WErrorsClosed
  | WCancelled
  | MLine string
  | MEnd bool monitor_end

definition loop_step :: "(nat \<Rightarrow> bytes) \<Rightarrow> watch_world \<Rightarrow> watch_event \<Rightarrow> sess_watch \<Rightarrow> sess_watch" where
  "loop_step rnd wd ev s =
     (case ev of
        WFile created removed renamed name \<Rightarrow>
          if \<not> created \<and> \<not> removed \<and> \<not> renamed then s
          else
            let s1 = (if removed \<or> renamed then s\<lparr>wWatched := wWatched s - {name}\<rparr> else s)
            in startTmuxMonitor wd (watch_scan rnd wd (watchDirs wd s1))
      | WChanged \<Rightarrow>
          (case chan_try_recv (wChanged s) of
             None \<Rightarrow> s
           | Some (_, c) \<Rightarrow> watch_scan rnd wd (s\<lparr>wChanged := c\<rparr>))
      | WDone ctxDone \<Rightarrow>
          (case chan_try_recv (wDone s) of
             None \<Rightarrow> s
           | Some (err, c) \<Rightarrow>
               let s1 = watch_scan rnd wd (s\<lparr>wDone := c, wRunning := False\<rparr>)
               in if err \<and> \<not> ctxDone then s1\<lparr>wErrors := wErrors s1 + 1\<rparr> else s1)
      | WError \<Rightarrow> s
      | _ \<Rightarrow> s\<lparr>wEnded := True\<rparr>)"

fun watch_step :: "(nat \<Rightarrow> bytes) \<Rightarrow> sess_watch \<Rightarrow> watch_world \<times> watch_event \<Rightarrow> sess_watch" where
  "watch_step rnd s (wd, MLine l) =
     (if wTarget s \<noteq> None \<and> isTmuxSessionChange l then s\<lparr>wChanged := notify_change (wChanged s)\<rparr> else s)"
| "watch_step rnd s (wd, MEnd ctxDone e) =
     (if wTarget s = None then s
      else case chan_try_send (wDone s) (monitor_error ctxDone e) of
          None \<Rightarrow> s
        | Some c \<Rightarrow> s\<lparr>wDone := c, wTarget := None\<rparr>)"
| "watch_step rnd s (wd, ev) = (if wEnded s then s else loop_step rnd wd ev s)"

definition watchSessions ::
    "bool \<Rightarrow> string \<Rightarrow> string \<Rightarrow> watch_world \<Rightarrow> catalog \<Rightarrow> string registry \<Rightarrow> sess_watch" where
  "watchSessions watcher_ok tmuxDir screenDir wd c r =
     (let s = \<lparr>wTmuxDir = tmuxDir, wScreenDir = screenDir, wWatched = {}, wRunning = False, wTarget = None,
               wChanged = chan_make 1, wDone = chan_make 1, wCat = c, wReg = r, wKills = [], wErrors = 0,
               wEnded = \<not> watcher_ok\<rparr>
      in if watcher_ok then startTmuxMonitor wd (watchDirs wd s) else s)"

section \<open>One monitor at a time\<close>

text \<open>A monitor is running, or its result waits for the loop, exactly while the loop believes so.\<close>

definition watch_inv :: "sess_watch \<Rightarrow> bool" where
  "watch_inv s \<longleftrightarrow>
     chan_ok 1 (wChanged s) \<and> chan_ok 1 (wDone s) \<and>
     (wTarget s \<noteq> None \<longrightarrow> queue (wDone s) = []) \<and>
     (wRunning s \<longleftrightarrow> wTarget s \<noteq> None \<or> queue (wDone s) \<noteq> [])"

lemma notify_change_ok: "chan_ok n c \<Longrightarrow> chan_ok n (notify_change c)"
  by (auto simp: notify_change_def split: option.split intro: chan_ok_ops)

lemma notify_change_pending: "chan_ok 1 c \<Longrightarrow> queue (notify_change c) \<noteq> []"
  by (auto simp: notify_change_def chan_try_send_def chan_ok_def split: option.split)

lemma watch_scan_fields [simp]:
  "wChanged (watch_scan rnd wd s) = wChanged s" "wDone (watch_scan rnd wd s) = wDone s"
  "wTarget (watch_scan rnd wd s) = wTarget s" "wRunning (watch_scan rnd wd s) = wRunning s"
  "wEnded (watch_scan rnd wd s) = wEnded s"
  by (simp_all add: watch_scan_def case_prod_beta)

lemma watchDirs_fields [simp]:
  "wChanged (watchDirs wd s) = wChanged s" "wDone (watchDirs wd s) = wDone s"
  "wTarget (watchDirs wd s) = wTarget s" "wRunning (watchDirs wd s) = wRunning s"
  "wEnded (watchDirs wd s) = wEnded s" "wCat (watchDirs wd s) = wCat s" "wReg (watchDirs wd s) = wReg s"
  by (simp_all add: watchDirs_def)

lemma watch_inv_scan [simp]: "watch_inv (watch_scan rnd wd s) = watch_inv s"
  by (simp add: watch_inv_def)

lemma watch_inv_dirs [simp]: "watch_inv (watchDirs wd s) = watch_inv s"
  by (simp add: watch_inv_def)

lemma watch_inv_start: "watch_inv s \<Longrightarrow> watch_inv (startTmuxMonitor wd s)"
  by (auto simp: watch_inv_def startTmuxMonitor_def split: list.split)

lemma watch_inv_loop: "watch_inv s \<Longrightarrow> watch_inv (loop_step rnd wd ev s)"
proof (cases ev)
  case (WDone b)
  assume "watch_inv s"
  then show ?thesis
    by (auto simp: WDone loop_step_def watch_inv_def chan_try_recv_def chan_ok_def Let_def split: list.splits)
next
  case (WFile created removed renamed name)
  assume inv: "watch_inv s"
  then have "watch_inv (s\<lparr>wWatched := W\<rparr>)" for W by (simp add: watch_inv_def)
  with inv show ?thesis by (simp add: WFile loop_step_def Let_def watch_inv_start)
next
  case WChanged
  assume "watch_inv s"
  then show ?thesis
    by (auto simp: WChanged loop_step_def watch_inv_def chan_try_recv_def chan_ok_def split: list.splits)
qed (simp_all add: loop_step_def watch_inv_def)

lemma watch_inv_step: "watch_inv s \<Longrightarrow> watch_inv (watch_step rnd s e)"
proof (cases e)
  case (Pair wd ev)
  assume inv: "watch_inv s"
  show ?thesis
  proof (cases ev)
    case (MLine l)
    with inv show ?thesis by (simp add: Pair watch_inv_def notify_change_ok)
  next
    case (MEnd b f)
    with inv show ?thesis
      by (auto simp: Pair watch_inv_def chan_try_send_def chan_ok_def)
  qed (use inv in \<open>simp_all add: Pair watch_inv_loop\<close>)
qed

interpretation watcher: invariant_machine "watch_step rnd" watch_inv for rnd
  by unfold_locales (rule watch_inv_step)

lemma watch_inv_init: "watch_inv (watchSessions watcher_ok tmuxDir screenDir wd c r)"
proof -
  let ?s = "\<lparr>wTmuxDir = tmuxDir, wScreenDir = screenDir, wWatched = {}, wRunning = False, wTarget = None,
     wChanged = chan_make 1, wDone = chan_make 1, wCat = c, wReg = r, wKills = [], wErrors = 0,
     wEnded = \<not> watcher_ok\<rparr>"
  have "watch_inv ?s" by (simp add: watch_inv_def chan_make_def chan_ok_def)
  then show ?thesis by (cases watcher_ok) (simp_all add: watchSessions_def Let_def watch_inv_start)
qed

section \<open>No change is missed\<close>

definition shows_sessions :: "watch_world \<Rightarrow> sess_watch \<Rightarrow> bool" where
  "shows_sessions wd s \<longleftrightarrow>
     (\<forall>key. map_of (cEntries (wCat s)) key \<noteq> None \<longleftrightarrow> key \<in> fst ` set (scan_found (wwTmux wd) (wwScreen wd)))"

text \<open>Nothing waits for the loop.\<close>

definition settled :: "sess_watch \<Rightarrow> bool" where
  "settled s \<longleftrightarrow> queue (wChanged s) = [] \<and> queue (wDone s) = []"

text \<open>What tells of a change: an event on a socket, a notification of tmux, or the end of the monitor.\<close>

fun signals :: "sess_watch \<Rightarrow> watch_event \<Rightarrow> bool" where
  "signals s (WFile created removed renamed name) = (\<not> wEnded s \<and> (created \<or> removed \<or> renamed))"
| "signals s (MLine l) = (wTarget s \<noteq> None \<and> isTmuxSessionChange l)"
| "signals s (MEnd _ _) = (wTarget s \<noteq> None)"
| "signals s _ = False"

lemma watch_scan_shows: "shows_sessions wd (watch_scan rnd wd s)"
proof -
  obtain c' changes removed where scan:
    "scan_locked rnd (wwTime wd) (wCat s) (scan_found (wwTmux wd) (wwScreen wd)) True = (c', changes, removed)"
    by (metis prod_cases3)
  then have "wCat (watch_scan rnd wd s) = c'"
    by (simp add: watch_scan_def catalog_scan_def case_prod_beta)
  then show ?thesis using scan_lookup(1) [OF scan] by (simp add: shows_sessions_def)
qed

lemma startTmuxMonitor_cat [simp]: "wCat (startTmuxMonitor wd s) = wCat s"
  by (auto simp: startTmuxMonitor_def split: list.split)

lemma shows_same_cat: "wCat s = wCat s' \<Longrightarrow> shows_sessions wd s = shows_sessions wd s'"
  by (simp add: shows_sessions_def)

text \<open>A step scans, or it leaves the catalog and what waits for the loop.\<close>

lemma loop_step_scans:
  assumes "watch_inv s"
  shows "shows_sessions wd (loop_step rnd wd ev s) \<or>
     wCat (loop_step rnd wd ev s) = wCat s \<and> wChanged (loop_step rnd wd ev s) = wChanged s \<and>
     wDone (loop_step rnd wd ev s) = wDone s"
proof (cases ev)
  case (WFile created removed renamed name)
  then show ?thesis
    using watch_scan_shows [of wd rnd] by (simp add: loop_step_def Let_def shows_same_cat [OF startTmuxMonitor_cat])
next
  case WChanged
  then show ?thesis
    using watch_scan_shows [of wd rnd] by (simp add: loop_step_def split: option.split prod.split)
next
  case (WDone b)
  have "shows_sessions wd (watch_scan rnd wd s'\<lparr>wErrors := n\<rparr>)" for s' n
    using watch_scan_shows [of wd rnd s'] by (simp add: shows_sessions_def)
  then show ?thesis
    using WDone watch_scan_shows [of wd rnd] by (simp add: loop_step_def Let_def split: option.split prod.split)
qed (simp_all add: loop_step_def)

lemma watch_step_scans:
  assumes "watch_inv s" "\<not> settled s"
  shows "shows_sessions wd (watch_step rnd s (wd, ev)) \<or>
     wCat (watch_step rnd s (wd, ev)) = wCat s \<and> \<not> settled (watch_step rnd s (wd, ev))"
proof (cases ev)
  case (MLine l)
  with assms show ?thesis
    using notify_change_pending [of "wChanged s"] by (auto simp: settled_def watch_inv_def)
next
  case (MEnd b e)
  with assms show ?thesis
    by (auto simp: settled_def watch_inv_def chan_try_send_def)
qed (use loop_step_scans [OF assms(1), of wd rnd ev] assms(2) in \<open>auto simp: settled_def\<close>)

lemma run_shows:
  assumes "watch_inv s" "settled s \<Longrightarrow> shows_sessions w0 s" "settled (foldl (watch_step rnd) s evs)"
  shows "\<exists>wd \<in> insert w0 (fst ` set evs). shows_sessions wd (foldl (watch_step rnd) s evs)"
  using assms(3)
proof (induction evs rule: rev_induct)
  case Nil
  with assms(2) show ?case by simp
next
  case (snoc e evs)
  obtain wd ev where e: "e = (wd, ev)" by force
  let ?t = "foldl (watch_step rnd) s evs"
  have inv: "watch_inv ?t" using assms(1) by (rule watcher.run_inv)
  show ?case
  proof (cases "settled ?t")
    case False
    with watch_step_scans [OF inv False, of wd rnd ev] snoc.prems show ?thesis by (auto simp: e)
  next
    case True
    then obtain w1 where old: "w1 \<in> insert w0 (fst ` set evs)" "shows_sessions w1 ?t" using snoc.IH by blast
    have "shows_sessions wd (watch_step rnd ?t (wd, ev)) \<or> wCat (watch_step rnd ?t (wd, ev)) = wCat ?t"
    proof (cases ev)
      case (MEnd b f)
      then show ?thesis by (auto split: option.split)
    qed (use loop_step_scans [OF inv, of wd rnd ev] in auto)
    then show ?thesis
    proof
      assume "wCat (watch_step rnd ?t (wd, ev)) = wCat ?t"
      with old(2) have "shows_sessions w1 (watch_step rnd ?t (wd, ev))" by (simp add: shows_sessions_def)
      with old(1) show ?thesis by (auto simp: e)
    qed (auto simp: e)
  qed
qed

lemma signal_pending:
  assumes "watch_inv s" "signals s ev"
  shows "\<not> settled (watch_step rnd s (wd, ev)) \<or> shows_sessions wd (watch_step rnd s (wd, ev))"
proof (cases ev)
  case (MLine l)
  with assms show ?thesis using notify_change_pending [of "wChanged s"] by (auto simp: settled_def watch_inv_def)
next
  case (MEnd b e)
  with assms show ?thesis
    by (auto simp: settled_def watch_inv_def chan_try_send_def chan_ok_def)
next
  case (WFile created removed renamed name)
  with assms have "created \<or> removed \<or> renamed" by simp
  with WFile assms show ?thesis
    using watch_scan_shows [of wd rnd] by (auto simp: loop_step_def Let_def shows_same_cat [OF startTmuxMonitor_cat])
qed (use assms in simp_all)

lemma signal_shown:
  assumes "watch_inv s" "signals s ev" "settled (foldl (watch_step rnd) s ((wd, ev) # evs))"
  shows "\<exists>wd' \<in> fst ` set ((wd, ev) # evs). shows_sessions wd' (foldl (watch_step rnd) s ((wd, ev) # evs))"
proof -
  have "\<exists>wd' \<in> insert wd (fst ` set evs). shows_sessions wd' (foldl (watch_step rnd) (watch_step rnd s (wd, ev)) evs)"
    by (rule run_shows [OF watch_inv_step [OF assms(1)]])
       (use signal_pending [OF assms(1,2)] assms(3) in auto)
  then show ?thesis by simp
qed

text \<open>
  C18. No session change is missed.  After a socket event, a tmux notification or the end of the tmux monitor, in any
  interleaving with anything else, as soon as nothing waits for the watcher's loop the catalog lists exactly the
  sessions that existed at that event or a later one.
\<close>

theorem watch_no_change_missed:
  assumes "s = foldl (watch_step rnd) (watchSessions watcher_ok tmuxDir screenDir wd0 c r) before"
    and "signals s ev" "settled (foldl (watch_step rnd) s ((wd, ev) # after))"
  shows "\<exists>wd' \<in> fst ` set ((wd, ev) # after).
           \<forall>key. map_of (cEntries (wCat (foldl (watch_step rnd) s ((wd, ev) # after)))) key \<noteq> None \<longleftrightarrow>
                 key \<in> fst ` set (scan_found (wwTmux wd') (wwScreen wd'))"
proof -
  have inv: "watch_inv s" unfolding assms(1) by (rule watcher.run_inv [OF watch_inv_init])
  have "\<exists>wd' \<in> fst ` set ((wd, ev) # after). shows_sessions wd' (foldl (watch_step rnd) s ((wd, ev) # after))"
    using signal_shown [OF inv assms(2,3)] .
  then show ?thesis by (simp only: shows_sessions_def)
qed

definition demo_watch_world :: "string list \<Rightarrow> watch_world" where
  "demo_watch_world names =
     (let ss = map (\<lambda>n. \<lparr>tName = n, tWindows = 1\<rparr>) names
      in \<lparr>wwAdd = (\<lambda>_. AddOk), wwTmux = ss, wwScreen = [], wwTargets = ss, wwTime = 0\<rparr>)"

definition demo_watch :: sess_watch where
  "demo_watch =
     watchSessions True ''/tmp/tmux-1'' [] (demo_watch_world [''a''])
       \<lparr>cMode = ModeReadonly, cEntries = [], cSubs = [], cDraws = 0\<rparr> registry_New"

definition demo_watch_events :: "(watch_world \<times> watch_event) list" where
  "demo_watch_events = [(demo_watch_world [''a''], MLine ''%sessions-changed''), (demo_watch_world [''a'', ''b''], WChanged)]"

theorem watch_no_change_missed_witness:
  "settled (foldl (watch_step (\<lambda>n. [char_of n])) demo_watch demo_watch_events) \<and>
   map_of (cEntries (wCat (foldl (watch_step (\<lambda>n. [char_of n])) demo_watch demo_watch_events))) ''tmux:c'' = None"
proof -
  let ?rnd = "\<lambda>n. [char_of n]"
  have s: "wTarget demo_watch = Some ''a''" "wEnded demo_watch = False"
    "wChanged demo_watch = chan_make 1" "wDone demo_watch = chan_make 1"
    by (simp_all add: demo_watch_def watchSessions_def startTmuxMonitor_def demo_watch_world_def Let_def)
  have l: "isTmuxSessionChange ''%sessions-changed''" by code_simp
  have settled: "settled (foldl (watch_step ?rnd) demo_watch demo_watch_events)"
    by (simp add: demo_watch_events_def s l settled_def notify_change_def chan_try_send_def chan_try_recv_def
        chan_make_def loop_step_def)
  have sig: "signals demo_watch (MLine ''%sessions-changed'')" by (simp add: s l)
  have "\<exists>wd \<in> fst ` set demo_watch_events. \<forall>key.
      map_of (cEntries (wCat (foldl (watch_step ?rnd) demo_watch demo_watch_events))) key \<noteq> None \<longleftrightarrow>
        key \<in> fst ` set (scan_found (wwTmux wd) (wwScreen wd))"
    unfolding demo_watch_events_def
    by (rule watch_no_change_missed [where before = "[]", OF _ sig settled [unfolded demo_watch_events_def]])
       (simp add: demo_watch_def)
  then obtain wd where wd: "wd \<in> fst ` set demo_watch_events"
    and "map_of (cEntries (wCat (foldl (watch_step ?rnd) demo_watch demo_watch_events))) ''tmux:c'' \<noteq> None \<longleftrightarrow>
       ''tmux:c'' \<in> fst ` set (scan_found (wwTmux wd) (wwScreen wd))"
    by blast
  moreover have "''tmux:c'' \<notin> fst ` set (scan_found (wwTmux wd) (wwScreen wd))"
    using wd by (auto simp: demo_watch_events_def demo_watch_world_def Let_def scan_found_def tmux_found_def)
  ultimately show ?thesis using settled by simp
qed

text \<open>
  At most one tmux monitor runs, its result never waits for room in its channel, and the loop starts a new one
  only when the last has ended and its result was taken.
\<close>

theorem watch_one_monitor:
  fixes rnd evs watcher_ok tmuxDir screenDir wd c r
  defines "s \<equiv> foldl (watch_step rnd) (watchSessions watcher_ok tmuxDir screenDir wd c r) evs"
  shows "length (queue (wDone s)) + (if wTarget s = None then 0 else 1) = (if wRunning s then 1 else 0) \<and>
     (wTarget s \<noteq> None \<longrightarrow> chan_try_send (wDone s) b \<noteq> None)"
proof -
  have "watch_inv s" unfolding s_def by (rule watcher.run_inv [OF watch_inv_init])
  then show ?thesis
    by (cases "queue (wDone s)") (auto simp: watch_inv_def chan_ok_def chan_try_send_def)
qed

end
