(* ===== verification/Agent_Startup.thy ===== *)
theory Agent_Startup
  imports Session_Watch Auth_Identity
begin

text \<open>
  Start of the agent, \<^verbatim>\<open>main\<close> of \<^verbatim>\<open>src/cmd/scomp/main.go\<close> up to its connection loop, \<^verbatim>\<open>startMultiplexerSource\<close> of
  \<^verbatim>\<open>multiplexer.go\<close> and its stand-in in \<^verbatim>\<open>multiplexer_stub.go\<close>: modes, the identity directory, the identity, the
  session source and what is printed for the phone.

  \<open>files\<close> is what \<^verbatim>\<open>os.Lstat\<close> finds at every path.  Directories, the system calls of the loaders, the host name, the
  listings of the multiplexers, SHA-256 and the QR code are arguments.
\<close>

section \<open>The identity directory\<close>

definition IsAbs :: "string \<Rightarrow> bool" where
  "IsAbs p \<longleftrightarrow> HasPrefix p [slash]"

definition agentConfigDir :: "string option \<Rightarrow> string option \<Rightarrow> string option" where
  "agentConfigDir home userConfig =
     (case home of
        Some h \<Rightarrow>
          if IsAbs h then Some (path_Join [h, ''.config'', ''scomp''])
          else (case userConfig of
              Some d \<Rightarrow> if IsAbs d then Some (path_Join [d, ''scomp'']) else None
            | None \<Rightarrow> None)
      | None \<Rightarrow>
          (case userConfig of
              Some d \<Rightarrow> if IsAbs d then Some (path_Join [d, ''scomp'']) else None
            | None \<Rightarrow> None))"

section \<open>Builds\<close>

text \<open>The regular build, and the one with the tag \<^verbatim>\<open>fakeshellonly\<close>.\<close>

datatype build = RegularBuild | FakeshellOnly

definition multiplexerSupported :: "build \<Rightarrow> bool" where
  "multiplexerSupported b = (b = RegularBuild)"

definition defaultModeFlag :: "build \<Rightarrow> string" where
  "defaultModeFlag b = (case b of RegularBuild \<Rightarrow> ''readonly'' | FakeshellOnly \<Rightarrow> ''fakeshell'')"

record watch_setup =
  suRandom :: "nat \<Rightarrow> bytes"
  suWatcher :: bool
  suTmuxDir :: string
  suScreenDir :: string
  suWorld :: watch_world

text \<open>The source starts with a scan; the watcher takes over the catalog and the registry it left.\<close>

definition startMultiplexerSource ::
    "build \<Rightarrow> watch_setup \<Rightarrow> session_mode \<Rightarrow> string registry \<Rightarrow> sess_watch option" where
  "startMultiplexerSource b su m r =
     (case b of
        FakeshellOnly \<Rightarrow> None
      | RegularBuild \<Rightarrow>
          let (c, r1, kills) = newSessionCatalog (suRandom su) (wwTime (suWorld su)) m (wwTmux (suWorld su)) (wwScreen (suWorld su)) r
          in Some (watchSessions (suWatcher su) (suTmuxDir su) (suScreenDir su) (suWorld su) c r1))"

section \<open>Starting\<close>

datatype agent_source = FakeSource "lazy_session list" | Multiplexers sess_watch

record 'k started =
  stDir :: string
  stUID :: string
  stKey :: 'k
  stHost :: string
  stSource :: agent_source

datatype startup_error =
    BadMode | Unsupported | NoConfigDir | UIDError auth_error | KeyError auth_error | SourceError

record 'k host =
  hHome :: "string option"
  hUserConfig :: "string option"
  hName :: string
  hUidDisk :: "disk list"
  hKeyDisk :: "disk list"
  hNewKey :: "bytes \<Rightarrow> 'k"
  hSha256 :: "bytes \<Rightarrow> bytes"
  hClock :: int
  hWatch :: watch_setup

definition uid_path :: "string \<Rightarrow> string" where "uid_path dir = path_Join [dir, ''uid'']"
definition key_path :: "string \<Rightarrow> string" where "key_path dir = path_Join [dir, ''key'']"

text \<open>\<open>None\<close> while a loader still retries against other processes.\<close>

definition load_identity ::
    "'k host \<Rightarrow> string \<Rightarrow> (string \<Rightarrow> node) \<Rightarrow> ((string \<Rightarrow> node) \<times> (startup_error + string \<times> 'k)) option" where
  "load_identity h dir files =
     (case LoadOrCreateUID (hUidDisk h) (files (uid_path dir)) of
        None \<Rightarrow> None
      | Some (n, Inl err) \<Rightarrow> Some (files(uid_path dir := n), Inl (UIDError err))
      | Some (n, Inr uid) \<Rightarrow>
          let files1 = files(uid_path dir := n) in
          (case LoadOrCreateKey (hNewKey h) (hKeyDisk h) (files1 (key_path dir)) of
             None \<Rightarrow> None
           | Some (n', Inl err) \<Rightarrow> Some (files1(key_path dir := n'), Inl (KeyError err))
           | Some (n', Inr key) \<Rightarrow> Some (files1(key_path dir := n'), Inr (uid, key))))"

definition start_source ::
    "build \<Rightarrow> 'k host \<Rightarrow> session_mode option \<Rightarrow> string \<Rightarrow> string registry \<Rightarrow> agent_source option" where
  "start_source b h m uid r =
     (case m of
        None \<Rightarrow> Some (FakeSource (newFakeSource (hSha256 h) (hClock h) uid))
      | Some md \<Rightarrow> map_option Multiplexers (startMultiplexerSource b (hWatch h) md r))"

text \<open>The mode is \<open>None\<close> for \<^verbatim>\<open>fakeshell\<close>.\<close>

definition start_mode :: "build \<Rightarrow> string \<Rightarrow> startup_error + session_mode option" where
  "start_mode b modeFlag =
     (if modeFlag = ''fakeshell'' then Inr None
      else case parseSessionMode modeFlag of
          None \<Rightarrow> Inl BadMode
        | Some m \<Rightarrow> if multiplexerSupported b then Inr (Some m) else Inl Unsupported)"

definition agent_start ::
    "build \<Rightarrow> 'k host \<Rightarrow> string \<Rightarrow> string \<Rightarrow> (string \<Rightarrow> node) \<Rightarrow>
     ((string \<Rightarrow> node) \<times> (startup_error + 'k started)) option" where
  "agent_start b h modeFlag hostnameFlag files =
     (case start_mode b modeFlag of
        Inl err \<Rightarrow> Some (files, Inl err)
      | Inr m \<Rightarrow>
          (case agentConfigDir (hHome h) (hUserConfig h) of
             None \<Rightarrow> Some (files, Inl NoConfigDir)
           | Some base \<Rightarrow>
               let dir = (if m = None then path_Join [base, ''fakeshell''] else base) in
               (case load_identity h dir files of
                  None \<Rightarrow> None
                | Some (files', Inl err) \<Rightarrow> Some (files', Inl err)
                | Some (files', Inr (uid, key)) \<Rightarrow>
                    (case start_source b h m uid registry_New of
                       None \<Rightarrow> Some (files', Inl SourceError)
                     | Some src \<Rightarrow>
                         Some (files', Inr \<lparr>stDir = dir, stUID = uid, stKey = key,
                           stHost = agentHostname (hName h) hostnameFlag (m = None), stSource = src\<rparr>)))))"

section \<open>What the phone is shown\<close>

text \<open>What the agent uses of a parsed \<^verbatim>\<open>net/url\<close>: user information and host in their escaped form.\<close>

record url =
  uScheme :: string
  uOpaque :: string
  uUser :: "string option"
  uHost :: string
  uPath :: string
  uOmitHost :: bool
  uForceQuery :: bool
  uRawQuery :: string
  uFragment :: string

definition url_String :: "url \<Rightarrow> string" where
  "url_String u =
     (if uScheme u \<noteq> [] then uScheme u @ '':'' else []) @
     (if uOpaque u \<noteq> [] then uOpaque u
      else
        (if (uScheme u \<noteq> [] \<or> uHost u \<noteq> [] \<or> uUser u \<noteq> None) \<and> \<not> (uOmitHost u \<and> uHost u = [] \<and> uUser u = None)
         then (if uHost u \<noteq> [] \<or> uPath u \<noteq> [] \<or> uUser u \<noteq> None then ''//'' else []) @
              (case uUser u of Some ui \<Rightarrow> ui @ ''@'' | None \<Rightarrow> []) @ uHost u
         else []) @
        (if uPath u \<noteq> [] \<and> hd (uPath u) \<noteq> slash \<and> uHost u \<noteq> [] then [slash] else []) @ uPath u) @
     (if uForceQuery u \<or> uRawQuery u \<noteq> [] then ''?'' @ uRawQuery u else []) @
     (if uFragment u \<noteq> [] then ''#'' @ uFragment u else [])"

definition serverBaseURL :: "(string \<Rightarrow> url option) \<Rightarrow> string \<Rightarrow> string" where
  "serverBaseURL parse wsURL =
     (case parse wsURL of
        None \<Rightarrow> wsToHTTP wsURL
      | Some u \<Rightarrow>
          TrimRight (url_String (u\<lparr>uScheme := (if uScheme u = ''wss'' then ''https'' else ''http''),
            uPath := [], uRawQuery := [], uFragment := []\<rparr>)) ''/'')"

definition mobileURL :: "(string \<Rightarrow> url option) \<Rightarrow> string \<Rightarrow> string \<Rightarrow> string" where
  "mobileURL parse serverURL uid = serverBaseURL parse serverURL @ ''/?uid='' @ uid"

definition printBanner :: "(string \<Rightarrow> string option) \<Rightarrow> string \<Rightarrow> string \<Rightarrow> string \<Rightarrow> bool \<Rightarrow> string list" where
  "printBanner qr uid serverURL mobile noQR =
     [[], ''  Scomp Agent'', ''  UID:    '' @ uid, ''  Server: '' @ serverURL, ''  URL:    '' @ mobile, []] @
     (if noQR then [] else case qr mobile of Some code \<Rightarrow> [code] | None \<Rightarrow> []) @
     [''  Scan the QR code with your phone or open the URL.'', []]"

section \<open>Where the identity lies\<close>

lemma Join_rooted: "IsAbs h \<Longrightarrow> ws \<noteq> [] \<Longrightarrow> \<exists>r. Join (h # ws) [slash] = slash # r"
  by (cases ws) (auto simp: IsAbs_def HasPrefix_iff Join_Cons)

lemma agentConfigDir_clean:
  assumes "agentConfigDir home userConfig = Some base"
  shows "clean_abs base"
proof -
  have "clean_abs (path_Join (h # ws))" if h: "IsAbs h" and ws: "ws \<noteq> []" "\<forall>w \<in> set ws. w \<noteq> []" for h ws
  proof -
    have ne: "h \<noteq> []" using h by (auto simp: IsAbs_def HasPrefix_def)
    obtain r where "Join (h # ws) [slash] = slash # r" using Join_rooted [OF h ws(1)] by blast
    moreover have "filter (\<lambda>w. w \<noteq> []) (h # ws) = h # ws" using ws(2) ne by (simp add: filter_id_conv)
    ultimately have "path_Join (h # ws) = path_Clean (slash # r)" unfolding path_Join_def by simp
    then show ?thesis using path_Clean_rooted [of r] by (auto simp: clean_abs_iff)
  qed
  then show ?thesis using assms by (auto simp: agentConfigDir_def split: option.splits if_splits)
qed

text \<open>A file of the simulated host's identity is never one of the real agent's.\<close>

lemma identity_paths:
  assumes "clean_abs base"
  shows "clean_abs (path_Join [base, ''fakeshell''])"
    "{uid_path (path_Join [base, ''fakeshell'']), key_path (path_Join [base, ''fakeshell''])} \<inter>
     {uid_path base, key_path base} = {}"
proof -
  obtain cs where cs: "list_all good_comp cs" "base = abs_path cs" using assms by (rule clean_absE)
  have good: "good_comp ''fakeshell''" "good_comp ''uid''" "good_comp ''key''" by code_simp+
  have fake: "path_Join [base, ''fakeshell''] = abs_path (cs @ [''fakeshell''])" using cs good by simp
  then show "clean_abs (path_Join [base, ''fakeshell''])" 
    unfolding clean_abs_iff using cs(1) good by (intro exI [of _ "cs @ [''fakeshell'']"]) simp
  have files: "uid_path base = abs_path (cs @ [''uid''])" "key_path base = abs_path (cs @ [''key''])"
    using cs good by (simp_all add: uid_path_def key_path_def)
  have fakes: "uid_path (path_Join [base, ''fakeshell'']) = abs_path (cs @ [''fakeshell'', ''uid''])"
    "key_path (path_Join [base, ''fakeshell'']) = abs_path (cs @ [''fakeshell'', ''key''])"
    using cs good path_Join_abs_path [of "cs @ [''fakeshell'']" "''uid''"] path_Join_abs_path [of "cs @ [''fakeshell'']" "''key''"]
    unfolding uid_path_def key_path_def fake by simp_all
  have "abs_path (cs @ [a, b]) \<noteq> abs_path (cs @ [c])" if "good_comp a" "good_comp b" "good_comp c" for a b c
    using abs_path_inject [of "cs @ [a, b]" "cs @ [c]"] cs(1) that by auto
  with good show "{uid_path (path_Join [base, ''fakeshell'']), key_path (path_Join [base, ''fakeshell''])} \<inter>
      {uid_path base, key_path base} = {}"
    unfolding files fakes by blast
qed

lemma load_identity_files:
  assumes "load_identity h dir files = Some (files', res)" "files' p \<noteq> files p"
  shows "p \<in> {uid_path dir, key_path dir} \<and> files p = Absent"
proof -
  have uid: "n' = n" if "LoadOrCreateUID ds n = Some (n', r)" "n \<noteq> Absent" for ds n n' r
    using uid_file.never_replaced that unfolding LoadOrCreateUID_def by blast
  have key: "n' = n" if "LoadOrCreateKey (hNewKey h) ds n = Some (n', r)" "n \<noteq> Absent" for ds n n' r
    using key_file.never_replaced that unfolding LoadOrCreateKey_def by blast
  show ?thesis
    using assms
    by (auto simp: load_identity_def Let_def split: option.splits sum.splits prod.splits if_splits) (metis uid key)+
qed

definition simulated :: "agent_source \<Rightarrow> bool" where
  "simulated src =
     (case src of FakeSource ls \<Rightarrow> list_all (\<lambda>l. \<exists>p. lActivate l = ActFake p) ls | Multiplexers _ \<Rightarrow> False)"

lemma start_mode_fake: "start_mode b modeFlag = Inr m \<Longrightarrow> m = None \<longleftrightarrow> modeFlag = ''fakeshell''"
  by (auto simp: start_mode_def split: if_splits option.splits) metis

lemma start_source_simulated: "start_source b h m uid r = Some src \<Longrightarrow> simulated src \<longleftrightarrow> m = None"
  by (cases m) (auto simp: start_source_def simulated_def newFakeSource_def list_all_iff)

text \<open>The two ways a start can go.\<close>

lemma agent_start_cases:
  assumes "agent_start b h modeFlag hostnameFlag files = Some (files', res)"
    and "agentConfigDir (hHome h) (hUserConfig h) = Some base"
    and dir: "dir = (if modeFlag = ''fakeshell'' then path_Join [base, ''fakeshell''] else base)"
  obtains (refused) err where "start_mode b modeFlag = Inl err" "files' = files" "res = Inl err"
    | (loaded) m r where "start_mode b modeFlag = Inr m" "load_identity h dir files = Some (files', r)"
      "\<And>st. res = Inr st \<Longrightarrow> stDir st = dir \<and> (\<exists>uid. start_source b h m uid registry_New = Some (stSource st))"
proof (cases "start_mode b modeFlag")
  case (Inr m)
  then show ?thesis
    using assms(1,2) start_mode_fake [OF Inr] loaded [OF Inr] unfolding agent_start_def dir
    by (cases "modeFlag = ''fakeshell''") (auto simp: Let_def split: option.splits sum.splits, blast+)
qed (use assms(1) refused in \<open>simp add: agent_start_def\<close>)

text \<open>
  C20. A simulated host never takes over the identity of a real agent.  Starting changes at most the two identity files
  of the mode's own directory, and those only if they were missing: in fakeshell mode the files of the real agent are
  as before, and an unknown mode or one this build cannot serve is refused before anything is read or created.  A
  started agent has an absolute identity directory, and its sessions are simulated exactly in fakeshell mode.
\<close>

theorem start_identity_separate:
  assumes "agent_start b h modeFlag hostnameFlag files = Some (files', res)"
    and "agentConfigDir (hHome h) (hUserConfig h) = Some base"
    and dir: "dir = (if modeFlag = ''fakeshell'' then path_Join [base, ''fakeshell''] else base)"
  shows "(files' p \<noteq> files p \<longrightarrow> p \<in> {uid_path dir, key_path dir} \<and> files p = Absent) \<and>
    (modeFlag = ''fakeshell'' \<longrightarrow> files' (uid_path base) = files (uid_path base) \<and> files' (key_path base) = files (key_path base)) \<and>
    (start_mode b modeFlag = Inl err \<longrightarrow> files' = files \<and> res = Inl err) \<and>
    (res = Inr st \<longrightarrow> stDir st = dir \<and> IsAbs dir \<and> (simulated (stSource st) \<longleftrightarrow> modeFlag = ''fakeshell'') \<and>
       (b = FakeshellOnly \<longrightarrow> simulated (stSource st)))"
proof -
  have clean: "clean_abs base" using agentConfigDir_clean [OF assms(2)] .
  have abs: "IsAbs dir" using clean identity_paths(1) [OF clean] by (auto simp: dir clean_abs_def IsAbs_def)
  have changed: "q \<in> {uid_path dir, key_path dir} \<and> files q = Absent" if "files' q \<noteq> files q" for q
    using agent_start_cases [OF assms] that load_identity_files [of h dir files files' _ q] by metis
  moreover have "files' q = files q" if "modeFlag = ''fakeshell''" "q \<in> {uid_path base, key_path base}" for q
    using changed [of q] identity_paths(2) [OF clean] that unfolding dir by auto
  moreover have "stDir st = dir \<and> (simulated (stSource st) \<longleftrightarrow> modeFlag = ''fakeshell'') \<and>
      (b = FakeshellOnly \<longrightarrow> simulated (stSource st))" if "res = Inr st"
    using assms
  proof (cases rule: agent_start_cases)
    case (loaded m r)
    have "m = None" if "b = FakeshellOnly"
      using loaded(1) that by (auto simp: start_mode_def multiplexerSupported_def split: if_splits option.splits)
    then show ?thesis
      using loaded(3) [OF that] start_source_simulated start_mode_fake [OF loaded(1)] by metis
  qed (use that in simp)
  moreover have "files' = files \<and> res = Inl err" if "start_mode b modeFlag = Inl err"
    using assms(1) that by (simp add: agent_start_def)
  ultimately show ?thesis using abs by blast
qed

text \<open>A first start of the build without multiplexers.\<close>

definition demo_host :: "bytes host" where
  "demo_host =
     (let d = \<lparr>prepare_ok = True, lstat_ok = True, chmod_ok = True, read_ok = True, random = Some (replicate 16 (CHR ''A'')),
               race = Absent, open_ok = True, write_ok = True\<rparr>
      in \<lparr>hHome = Some ''/home/u'', hUserConfig = None, hName = ''box'', hUidDisk = [d],
          hKeyDisk = [d\<lparr>random := Some (replicate 32 (CHR ''B''))\<rparr>], hNewKey = (\<lambda>seed. seed), hSha256 = (\<lambda>b. b), hClock = 0,
          hWatch = \<lparr>suRandom = (\<lambda>_. []), suWatcher = True, suTmuxDir = [], suScreenDir = [], suWorld = demo_watch_world []\<rparr>\<rparr>)"

lemma demo_started:
  "\<exists>files' st. agent_start FakeshellOnly demo_host ''fakeshell'' [] (\<lambda>_. Absent) = Some (files', Inr st)"
proof -
  have base: "agentConfigDir (Some ''/home/u'') None = Some ''/home/u/.config/scomp''" by code_simp
  have paths: "key_path (path_Join [''/home/u/.config/scomp'', ''fakeshell'']) \<noteq>
      uid_path (path_Join [''/home/u/.config/scomp'', ''fakeshell''])" by code_simp
  show ?thesis
    using paths by (simp add: agent_start_def start_mode_def demo_host_def Let_def base load_identity_def LoadOrCreateUID_def
        LoadOrCreateKey_def readPrivateFile_def createPrivateFile_def start_source_def)
qed

theorem start_identity_separate_witness:
  "\<exists>files' st. agent_start FakeshellOnly demo_host ''fakeshell'' [] (\<lambda>_. Absent) = Some (files', Inr st) \<and>
     files' (key_path ''/home/u/.config/scomp'') = Absent \<and> simulated (stSource st)"
proof -
  obtain files' st where start: "agent_start FakeshellOnly demo_host ''fakeshell'' [] (\<lambda>_. Absent) = Some (files', Inr st)"
    using demo_started by blast
  have base: "agentConfigDir (hHome demo_host) (hUserConfig demo_host) = Some ''/home/u/.config/scomp''" by code_simp
  from start_identity_separate [OF start base refl, of "[]" BadMode st] start show ?thesis by simp
qed

section \<open>The address for the phone\<close>

text \<open>The phone is sent to the root of the relay's host, whatever endpoint the agent connects to.\<close>

lemma serverBaseURL_root:
  assumes "parse wsURL = Some u" "uOpaque u = []" "uUser u = None" "uHost u \<noteq> []" "last (uHost u) \<noteq> slash" "\<not> uForceQuery u"
  shows "serverBaseURL parse wsURL = (if uScheme u = ''wss'' then ''https://'' else ''http://'') @ uHost u"
proof -
  have "TrimRight (x @ uHost u) ''/'' = x @ uHost u" for x
  proof -
    obtain ys y where "uHost u = ys @ [y]" using assms(4) by (metis rev_exhaust)
    with assms(5) show ?thesis by (simp add: TrimRight_def)
  qed
  from this [of "''https://''"] this [of "''http://''"] show ?thesis
    using assms(1-4,6) by (simp add: serverBaseURL_def url_String_def)
qed

end
