(* ===== verification/Pair_Prompter.thy ===== *)
theory Pair_Prompter
  imports Relay_Protocol
begin

text \<open>
  The pairing prompt, \<^verbatim>\<open>src/cmd/scomp/pairing_prompt.go\<close>: one prompt at a time, a PIN typed at the agent's
  own terminal, and its submission on whichever relay connection is current.

  The prompter outlives connections, so a connection's sender is a token; \<open>accepts\<close> of an event is what that
  sender (\<^verbatim>\<open>sendOK\<close>) answers.  The messages printed are kept by kind.  The loop of \<^verbatim>\<open>run\<close> and the reader of stdin are goroutines: each arm of the
  \<^verbatim>\<open>select\<close> is one event, interleaved with requests and connections in any order.
\<close>

section \<open>State\<close>

datatype notice =
    NoTerminal
  | Replaced
  | AskPIN
  | AbortedNoTerminal
  | AbortedEmpty
  | PINSubmitted
  | PINNotSubmitted
  | RequestExpired

record 'c prompter =
  started :: bool
  requests :: "string chan"
  submit :: "'c option"
  gen :: nat
  pairID :: string
  armed :: bool
  noStdin :: bool
  printed :: "notice list"
  submitted :: "('c \<times> agent_msg) list"

definition newPairPrompter :: "'c prompter" where
  "newPairPrompter =
     \<lparr>started = False, requests = chan_make 4, submit = None, gen = 0, pairID = [], armed = False, noStdin = False,
      printed = [], submitted = []\<rparr>"

definition connected :: "'c prompter \<Rightarrow> 'c \<Rightarrow> 'c prompter \<times> nat" where
  "connected p c = (p\<lparr>gen := gen p + 1, submit := Some c\<rparr>, gen p + 1)"

definition disconnected :: "'c prompter \<Rightarrow> nat \<Rightarrow> 'c prompter" where
  "disconnected p g = (if gen p = g then p\<lparr>submit := None\<rparr> else p)"

definition request :: "'c prompter \<Rightarrow> string \<Rightarrow> 'c prompter" where
  "request p pid =
     (let p1 = p\<lparr>started := True\<rparr> in
      case chan_try_send (requests p1) pid of Some ch \<Rightarrow> p1\<lparr>requests := ch\<rparr> | None \<Rightarrow> p1)"

definition pair_submit :: "string \<Rightarrow> string \<Rightarrow> agent_msg" where
  "pair_submit pid pin = (msg_of ''pair_submit'')\<lparr>mPairID := pid, mPIN := pin\<rparr>"

definition prompter_send :: "bool \<Rightarrow> 'c prompter \<Rightarrow> agent_msg \<Rightarrow> 'c prompter \<times> bool" where
  "prompter_send accepts p m =
     (case submit p of
        None \<Rightarrow> (p, False)
      | Some c \<Rightarrow> (p\<lparr>submitted := submitted p @ (if accepts then [(c, m)] else [])\<rparr>, accepts))"

section \<open>The prompt loop\<close>

definition say :: "'c prompter \<Rightarrow> notice \<Rightarrow> 'c prompter" where
  "say p s = p\<lparr>printed := printed p @ [s]\<rparr>"

definition prompt_stop :: "'c prompter \<Rightarrow> 'c prompter" where
  "prompt_stop p = p\<lparr>pairID := [], armed := False\<rparr>"

definition on_request :: "'c prompter \<Rightarrow> string \<Rightarrow> 'c prompter" where
  "on_request p pid =
     (if noStdin p then say p NoTerminal
      else
        let p1 = (if pairID p \<noteq> [] then say p Replaced else p);
            p2 = (prompt_stop p1)\<lparr>pairID := pid, armed := True\<rparr>
        in say p2 AskPIN)"

definition on_line :: "bool \<Rightarrow> 'c prompter \<Rightarrow> string \<Rightarrow> 'c prompter" where
  "on_line accepts p line =
     (if pairID p = [] then p
      else
        let pid = pairID p; p1 = prompt_stop p; pin = TrimSpace line in
        if pin = [] then say p1 AbortedEmpty
        else case prompter_send accepts p1 (pair_submit pid pin) of
            (p2, True) \<Rightarrow> say p2 PINSubmitted
          | (p2, False) \<Rightarrow> say p2 PINNotSubmitted)"

definition on_eof :: "'c prompter \<Rightarrow> 'c prompter" where
  "on_eof p =
     (let p1 = p\<lparr>noStdin := True\<rparr>;
          p2 = (if pairID p1 \<noteq> [] then say p1 AbortedNoTerminal else p1)
      in prompt_stop p2)"

definition on_expired :: "'c prompter \<Rightarrow> 'c prompter" where
  "on_expired p = say (prompt_stop p) RequestExpired"

text \<open>
  Of the arms of the \<^verbatim>\<open>select\<close>, \<open>PShow\<close> needs a queued request, \<open>PExpired\<close> a running timer, and both arms of
  \<^verbatim>\<open>lines\<close> a stdin that has not ended; the loop itself starts with the first request.
\<close>

datatype 'c pair_event =
    PConnected 'c
  | PDisconnected nat
  | PRequest string
  | PShow
  | PLine string bool
  | PEof
  | PExpired

fun pair_step :: "'c prompter \<Rightarrow> 'c pair_event \<Rightarrow> 'c prompter option" where
  "pair_step p (PConnected c) = Some (fst (connected p c))"
| "pair_step p (PDisconnected g) = (if 0 < g \<and> g \<le> gen p then Some (disconnected p g) else None)"
| "pair_step p (PRequest pid) = Some (request p pid)"
| "pair_step p PShow =
     (case chan_try_recv (requests p) of
        Some (pid, ch) \<Rightarrow> if started p then Some (on_request (p\<lparr>requests := ch\<rparr>) pid) else None
      | None \<Rightarrow> None)"
| "pair_step p (PLine line accepts) =
     (if started p \<and> \<not> noStdin p then Some (on_line accepts p line) else None)"
| "pair_step p PEof = (if started p \<and> \<not> noStdin p then Some (on_eof p) else None)"
| "pair_step p PExpired = (if started p \<and> armed p then Some (on_expired p) else None)"

inductive pair_trace :: "'c pair_event list \<Rightarrow> 'c prompter \<Rightarrow> bool" where
  trace_start: "pair_trace [] newPairPrompter"
| trace_step: "pair_trace evs p \<Longrightarrow> pair_step p ev = Some p' \<Longrightarrow> pair_trace (evs @ [ev]) p'"

fun pair_run :: "'c prompter \<Rightarrow> 'c pair_event list \<Rightarrow> 'c prompter option" where
  "pair_run p [] = Some p"
| "pair_run p (ev # evs) = (case pair_step p ev of Some p' \<Rightarrow> pair_run p' evs | None \<Rightarrow> None)"

lemma pair_run_trace: "pair_trace pre p \<Longrightarrow> pair_run p evs = Some p' \<Longrightarrow> pair_trace (pre @ evs) p'"
proof (induction evs arbitrary: pre p)
  case (Cons ev evs)
  then obtain q where "pair_step p ev = Some q" "pair_run q evs = Some p'" by (auto split: option.splits)
  with Cons.IH [OF trace_step [OF Cons.prems(1)]] show ?case by simp
qed simp

lemmas pair_defs =
  newPairPrompter_def connected_def disconnected_def request_def prompter_send_def say_def prompt_stop_def
  on_request_def on_line_def on_eof_def on_expired_def chan_try_recv_def chan_try_send_def chan_make_def Let_def

section \<open>Where a PIN comes from\<close>

text \<open>The events that leave a showing prompt as it is, and the connections of a trace.\<close>

fun keeps_prompt :: "'c pair_event \<Rightarrow> bool" where
  "keeps_prompt (PConnected _) \<longleftrightarrow> True"
| "keeps_prompt (PDisconnected _) \<longleftrightarrow> True"
| "keeps_prompt (PRequest _) \<longleftrightarrow> True"
| "keeps_prompt _ \<longleftrightarrow> False"

fun conns :: "'c pair_event list \<Rightarrow> 'c list" where
  "conns [] = []"
| "conns (PConnected c # evs) = c # conns evs"
| "conns (_ # evs) = conns evs"

lemma conns_append [simp]: "conns (evs @ evs') = conns evs @ conns evs'"
  by (induction evs rule: conns.induct) auto

text \<open>
  The prompt for \<open>pid\<close> is the one the operator sees: its request was taken off the queue, by a loop that can
  read stdin, and no line, timeout, end of input or newer request ended it since.
\<close>

definition showing :: "'c pair_event list \<Rightarrow> string \<Rightarrow> bool" where
  "showing evs pid \<longleftrightarrow>
     (\<exists>pre mid q rest. evs = pre @ PShow # mid \<and> list_all keeps_prompt mid \<and> PRequest pid \<in> set pre \<and>
        pair_trace pre q \<and> queue (requests q) = pid # rest)"

lemma showing_more: "showing evs pid \<Longrightarrow> keeps_prompt ev \<Longrightarrow> showing (evs @ [ev]) pid"
  unfolding showing_def
  by (elim exE conjE, rule exI, rule exI [where x = "_ @ [ev]"]) auto

lemma showing_now:
  "pair_trace evs p \<Longrightarrow> queue (requests p) = pid # rest \<Longrightarrow> PRequest pid \<in> set evs \<Longrightarrow>
   showing (evs @ [PShow]) pid"
  unfolding showing_def
  by (rule exI [where x = evs], rule exI [where x = "[]"]) auto

lemma keeps_prompt_step:
  "keeps_prompt ev \<Longrightarrow> pair_step p ev = Some p' \<Longrightarrow>
   pairID p' = pairID p \<and> noStdin p' = noStdin p \<and> submitted p' = submitted p"
  by (cases ev) (auto simp: pair_defs split: option.splits if_splits)

lemma requests_queued:
  "pair_trace evs p \<Longrightarrow> x \<in> set (queue (requests p)) \<Longrightarrow> PRequest x \<in> set evs"
proof (induction rule: pair_trace.induct)
  case (trace_step evs p ev p')
  then show ?case
    by (cases ev) (auto simp: pair_defs split: option.splits if_splits list.splits prod.splits bool.splits)
qed (simp add: pair_defs)

lemma no_stdin_no_prompt: "pair_trace evs p \<Longrightarrow> noStdin p \<Longrightarrow> pairID p = []"
proof (induction rule: pair_trace.induct)
  case (trace_step evs p ev p')
  then show ?case
    by (cases ev) (auto simp: pair_defs split: option.splits if_splits list.splits prod.splits bool.splits)
qed (simp add: pair_defs)

lemma current_connection:
  "pair_trace evs p \<Longrightarrow> gen p = length (conns evs) \<and> (submit p = Some c \<longrightarrow> conns evs \<noteq> [] \<and> c = last (conns evs))"
proof (induction rule: pair_trace.induct)
  case (trace_step evs p ev p')
  then show ?case
    by (cases ev) (auto simp: pair_defs split: option.splits if_splits list.splits prod.splits bool.splits)
qed (simp add: pair_defs)

lemma prompt_showing: "pair_trace evs p \<Longrightarrow> pairID p \<noteq> [] \<Longrightarrow> showing evs (pairID p)"
proof (induction rule: pair_trace.induct)
  case (trace_step evs p ev p')
  show ?case
  proof (cases "keeps_prompt ev")
    case True
    from keeps_prompt_step [OF True trace_step(2)] trace_step showing_more [OF _ True] show ?thesis by auto
  next
    case False
    show ?thesis
    proof (cases "ev = PShow")
      case True
      with trace_step(2) obtain pid rest where q: "queue (requests p) = pid # rest"
        by (auto simp: chan_try_recv_def split: list.splits)
      with True trace_step(2) have "p' = on_request (p\<lparr>requests := (requests p)\<lparr>queue := rest\<rparr>\<rparr>) pid"
        by (auto simp: chan_try_recv_def split: if_splits)
      then show ?thesis
        using True showing_now [OF trace_step(1) q] requests_queued [OF trace_step(1), of pid] q
          trace_step(4) no_stdin_no_prompt [OF trace_step(1)]
        by (auto simp: on_request_def say_def prompt_stop_def Let_def split: if_splits)
    next
      case no: False
      with False trace_step(2) have "pairID p' = []"
        by (cases ev) (auto simp: pair_defs split: option.splits if_splits prod.splits bool.splits)
      with trace_step(4) show ?thesis by simp
    qed
  qed
qed (simp add: pair_defs)

text \<open>What justifies a submission.\<close>

definition typed_for :: "'c pair_event list \<Rightarrow> 'c \<Rightarrow> agent_msg \<Rightarrow> bool" where
  "typed_for evs c m \<longleftrightarrow>
     (\<exists>pre line post pid. evs = pre @ PLine line True # post \<and> showing pre pid \<and>
        conns pre \<noteq> [] \<and> c = last (conns pre) \<and>
        TrimSpace line \<noteq> [] \<and> m = pair_submit pid (TrimSpace line))"

lemma typed_for_more: "typed_for evs c m \<Longrightarrow> typed_for (evs @ [ev]) c m"
  unfolding typed_for_def by fastforce

lemma on_line_submitted:
  "submitted (on_line accepts p line) =
     submitted p @
       (case submit p of
          Some c \<Rightarrow> if accepts \<and> pairID p \<noteq> [] \<and> TrimSpace line \<noteq> []
                    then [(c, pair_submit (pairID p) (TrimSpace line))] else []
        | None \<Rightarrow> [])"
  by (auto simp: pair_defs split: option.splits prod.splits bool.splits)

lemma other_step_submitted:
  "pair_step p ev = Some p' \<Longrightarrow> (\<And>line accepts. ev \<noteq> PLine line accepts) \<Longrightarrow> submitted p' = submitted p"
  by (cases ev) (auto simp: pair_defs split: option.splits if_splits list.splits)

lemma submissions_typed: "pair_trace evs p \<Longrightarrow> (c, m) \<in> set (submitted p) \<Longrightarrow> typed_for evs c m"
proof (induction rule: pair_trace.induct)
  case (trace_step evs p ev p')
  show ?case
  proof (cases "(c, m) \<in> set (submitted p)")
    case True
    with trace_step.IH show ?thesis by (simp add: typed_for_more)
  next
    case new: False
    then obtain line accepts where ev: "ev = PLine line accepts"
      using other_step_submitted [OF trace_step(2)] trace_step(4) by metis
    with trace_step(2) have "p' = on_line accepts p line" by (auto split: if_splits)
    with new trace_step(4)
    have "submit p = Some c" "accepts" "pairID p \<noteq> []" "TrimSpace line \<noteq> []"
      "m = pair_submit (pairID p) (TrimSpace line)"
      by (auto simp: on_line_submitted split: option.splits if_splits)
    with prompt_showing [OF trace_step(1)] current_connection [OF trace_step(1), of c] ev show ?thesis
      unfolding typed_for_def by blast
  qed
qed (simp add: pair_defs)

lemma one_submission_per_prompt:
  "pair_trace evs p \<Longrightarrow>
   length (submitted p) + (if pairID p \<noteq> [] then 1 else 0) \<le> length (filter (\<lambda>ev. ev = PShow) evs)"
proof (induction rule: pair_trace.induct)
  case (trace_step evs p ev p')
  show ?case
  proof (cases "keeps_prompt ev")
    case True
    from keeps_prompt_step [OF True trace_step(2)] trace_step(3) show ?thesis by auto
  next
    case False
    then show ?thesis using trace_step(2,3)
      by (cases ev) (auto simp: pair_defs split: option.splits if_splits list.splits prod.splits bool.splits)
  qed
qed (simp add: pair_defs)


definition demo_events :: "nat pair_event list" where
  "demo_events =
     [PConnected 1, PRequest ''p1'', PShow, PRequest ''p2'', PConnected 2, PDisconnected 1,
      PLine ''12 '' True]"

definition demo_prompter :: "nat prompter" where
  "demo_prompter =
     \<lparr>started = True, requests = \<lparr>cap = 4, queue = [''p2'']\<rparr>, submit = Some 2, gen = 2, pairID = [],
      armed = False, noStdin = False, printed = [AskPIN, PINSubmitted],
      submitted = [(2, pair_submit ''p1'' ''12'')]\<rparr>"

lemma demo_pair_trace: "pair_trace demo_events demo_prompter"
proof -
  have "TrimSpace ''12 '' = ''12''" by code_simp
  then have "pair_run newPairPrompter demo_events = Some demo_prompter"
    by (simp add: demo_events_def demo_prompter_def pair_defs)
  from pair_run_trace [OF trace_start this] show ?thesis by simp
qed


section \<open>Lines of stdin\<close>

text \<open>
  The goroutine that reads stdin: every line with its newline, at the end a rest without one if there is any, then the
  end of input.  No byte is lost or repeated, and no empty line is ever passed on.
\<close>

fun stdin_from :: "string \<Rightarrow> string \<Rightarrow> string list" where
  "stdin_from acc [] = (if acc = [] then [] else [acc])"
| "stdin_from acc (c # cs) = (if c = CHR 0x0A then (acc @ [c]) # stdin_from [] cs else stdin_from (acc @ [c]) cs)"

lemma stdin_lines: "concat (stdin_from acc s) = acc @ s" "[] \<notin> set (stdin_from acc s)"
  by (induction acc s rule: stdin_from.induct) auto

end
