(* ===== verification/Vfs.thy ===== *)
theory Vfs
  imports Vfs_Path "HOL-Library.AList" "HOL-Library.List_Lexorder" "HOL-Library.Char_ord"
begin

text \<open>
  The in-memory file tree of the simulated shell, \<^verbatim>\<open>src/fakeshell/vfs/vfs.go\<close>: a read-only base, static and
  generated files, and a writable overlay of bounded size.

  Go maps are association lists with distinct keys, and \<^verbatim>\<open>dirs\<close>, which only ever holds \<^verbatim>\<open>true\<close>, is the list of
  its keys.  An \<^verbatim>\<open>fs.FS\<close> is the three queries the code makes of it.  What a call sees of the world outside the
  tree (the clock, the state generated files print) is its argument \<open>e\<close>.  Times are nanoseconds.
\<close>

section \<open>Types\<close>

type_synonym time = int

datatype vfs_error =
    ErrNotExist | ErrExist | ErrNotDir | ErrIsDir | ErrPermission | ErrNotEmpty | ErrNoSpace | ErrInvalid

fun vfs_error_text :: "vfs_error \<Rightarrow> string" where
  "vfs_error_text ErrNotExist = ''No such file or directory''"
| "vfs_error_text ErrExist = ''File exists''"
| "vfs_error_text ErrNotDir = ''Not a directory''"
| "vfs_error_text ErrIsDir = ''Is a directory''"
| "vfs_error_text ErrPermission = ''Permission denied''"
| "vfs_error_text ErrNotEmpty = ''Directory not empty''"
| "vfs_error_text ErrNoSpace = ''No space left on device''"
| "vfs_error_text ErrInvalid = ''Invalid argument''"

definition DefaultMaxEntries :: int where "DefaultMaxEntries = 128"
definition DefaultMaxBytes :: int where "DefaultMaxBytes = 256 * 1024"

record info =
  iName :: string
  iPath :: string
  iDir :: bool
  iMode :: nat
  iOwner :: string
  iSize :: int
  iModTime :: time

record base_fs =
  base_stat :: "string \<Rightarrow> (bool \<times> int) option"
  base_readdir :: "string \<Rightarrow> string list option"
  base_readfile :: "string \<Rightarrow> bytes option"

record 'e vfs_config =
  Base :: "base_fs option"
  ExtraDirs :: "string list"
  Static :: "(string \<times> string) list"
  Generated :: "(string \<times> ('e \<Rightarrow> bytes)) list"
  User :: string
  Home :: string
  Writable :: "string list"
  Private :: "string list"
  BaseTime :: time
  Now :: "'e \<Rightarrow> time"
  MaxEntries :: int
  MaxBytes :: int

record 'e fs =
  cfg :: "'e vfs_config"
  files :: "(string \<times> bytes) list"
  dirs :: "string list"
  mtime :: "(string \<times> time) list"
  used :: int

section \<open>Creation\<close>

definition fs_Reset :: "'e fs \<Rightarrow> 'e fs" where
  "fs_Reset f = f\<lparr>files := [], dirs := [], mtime := [], used := 0\<rparr>"

definition fs_New :: "'e vfs_config \<Rightarrow> 'e fs" where
  "fs_New c =
     (let c = (if MaxEntries c \<le> 0 then c\<lparr>MaxEntries := DefaultMaxEntries\<rparr> else c);
          c = (if MaxBytes c \<le> 0 then c\<lparr>MaxBytes := DefaultMaxBytes\<rparr> else c);
          c = (if User c = [] then c\<lparr>User := ''root''\<rparr> else c)
      in fs_Reset \<lparr>cfg = c, files = [], dirs = [], mtime = [], used = 0\<rparr>)"

section \<open>Attributes\<close>

definition is_private :: "'e fs \<Rightarrow> string \<Rightarrow> bool" where
  "is_private f p \<longleftrightarrow> User (cfg f) \<noteq> ''root'' \<and> list_ex (\<lambda>d. under p d) (Private (cfg f))"

definition owner :: "'e fs \<Rightarrow> string \<Rightarrow> string" where
  "owner f p =
     (if map_of (files f) p \<noteq> None \<or> p \<in> set (dirs f) \<or> (Home (cfg f) \<noteq> [] \<and> under p (Home (cfg f)))
      then User (cfg f) else ''root'')"

definition mode :: "'e fs \<Rightarrow> string \<Rightarrow> bool \<Rightarrow> nat" where
  "mode f p dir =
     (if is_private f p \<and> dir then 0x1C0
      else if is_private f p then 0x180
      else if dir \<and> (p = ''/tmp'' \<or> p = ''/var/tmp'') then 0x1FF
      else if dir then 0x1ED
      else if HasSuffix p ''.sh'' then 0x1ED
      else 0x1A4)"

definition isExtraDir :: "'e fs \<Rightarrow> string \<Rightarrow> bool" where
  "isExtraDir f p \<longleftrightarrow> p \<in> set (ExtraDirs (cfg f))"

definition generatedParent :: "'e fs \<Rightarrow> string \<Rightarrow> bool" where
  "generatedParent f p \<longleftrightarrow>
     list_ex (\<lambda>g. under g p \<and> g \<noteq> p) (map fst (Generated (cfg f))) \<or>
     list_ex (\<lambda>g. under g p \<and> g \<noteq> p) (map fst (Static (cfg f)))"

section \<open>Reading\<close>

definition fs_Stat :: "'e \<Rightarrow> 'e fs \<Rightarrow> string \<Rightarrow> vfs_error + info" where
  "fs_Stat e f p =
     (if p = [] then Inl ErrNotExist
      else
        let inf = \<lparr>iName = path_Base p, iPath = p, iDir = False, iMode = 0, iOwner = owner f p, iSize = 0,
                   iModTime = (case map_of (mtime f) p of Some t \<Rightarrow> t | None \<Rightarrow> BaseTime (cfg f))\<rparr>
        in case map_of (files f) p of
            Some data \<Rightarrow> Inr (inf\<lparr>iSize := int (length data), iMode := mode f p False\<rparr>)
          | None \<Rightarrow>
              if p \<in> set (dirs f) \<or> isExtraDir f p then Inr (inf\<lparr>iDir := True, iMode := mode f p True, iSize := 4096\<rparr>)
              else case map_of (Generated (cfg f)) p of
                  Some gen \<Rightarrow>
                    Inr (inf\<lparr>iSize := int (length (gen e)), iMode := 0x124, iModTime := Now (cfg f) e\<rparr>)
                | None \<Rightarrow>
                    case map_of (Static (cfg f)) p of
                      Some content \<Rightarrow> Inr (inf\<lparr>iSize := int (length content), iMode := mode f p False\<rparr>)
                    | None \<Rightarrow>
                        case Option.bind (Base (cfg f)) (\<lambda>b. base_stat b (basePath p)) of
                          Some (isdir, n) \<Rightarrow>
                            Inr (inf\<lparr>iDir := isdir, iMode := mode f p isdir, iSize := (if isdir then 4096 else n)\<rparr>)
                        | None \<Rightarrow>
                            if generatedParent f p then Inr (inf\<lparr>iDir := True, iMode := 0x16D\<rparr>)
                            else Inl ErrNotExist)"

definition fs_IsDir :: "'e \<Rightarrow> 'e fs \<Rightarrow> string \<Rightarrow> bool" where
  "fs_IsDir e f p = (case fs_Stat e f p of Inr st \<Rightarrow> iDir st | Inl _ \<Rightarrow> False)"

text \<open>
  The name in directory \<open>p\<close> through which \<open>child\<close> is reached.  On a relative path the loop of the code would
  stay at \<^verbatim>\<open>.\<close> forever; overlay and configuration only hold absolute ones, and the function stops there.
\<close>

function name_in :: "string \<Rightarrow> string \<Rightarrow> string option" where
  "name_in p child =
     (if child = [slash] then None
      else if path_Dir child = p then Some (path_Base child)
      else if path_Dir child = child then None
      else name_in p (path_Dir child))"
  by auto
termination by (relation "measure (\<lambda>(p, child). climb child)") (auto intro: climb_path_Dir)

declare name_in.simps [simp del]

definition entry_names :: "'e fs \<Rightarrow> string \<Rightarrow> string list" where
  "entry_names f p =
     remdups
       ((case Option.bind (Base (cfg f)) (\<lambda>b. base_readdir b (basePath p)) of Some ns \<Rightarrow> ns | None \<Rightarrow> []) @
        List.map_filter (name_in p)
          (ExtraDirs (cfg f) @ map fst (Generated (cfg f)) @ map fst (Static (cfg f)) @ dirs f @ map fst (files f)))"

definition fs_ReadDir :: "'e \<Rightarrow> 'e fs \<Rightarrow> string \<Rightarrow> vfs_error + info list" where
  "fs_ReadDir e f p =
     (case fs_Stat e f p of
        Inl err \<Rightarrow> Inl err
      | Inr st \<Rightarrow>
          if \<not> iDir st then Inl ErrNotDir
          else if is_private f p then Inl ErrPermission
          else
            let out = List.map_filter (\<lambda>name. case fs_Stat e f (path_Join [p, name]) of Inr i \<Rightarrow> Some i | Inl _ \<Rightarrow> None)
                        (entry_names f p)
            in Inr (sort_key iName out))"

definition fs_ReadFile :: "'e \<Rightarrow> 'e fs \<Rightarrow> string \<Rightarrow> vfs_error + bytes" where
  "fs_ReadFile e f p =
     (case fs_Stat e f p of
        Inl err \<Rightarrow> Inl err
      | Inr st \<Rightarrow>
          if iDir st then Inl ErrIsDir
          else if is_private f p then Inl ErrPermission
          else case map_of (files f) p of
              Some data \<Rightarrow> Inr data
            | None \<Rightarrow>
                case map_of (Generated (cfg f)) p of
                  Some gen \<Rightarrow> Inr (gen e)
                | None \<Rightarrow>
                    case map_of (Static (cfg f)) p of
                      Some content \<Rightarrow> Inr content
                    | None \<Rightarrow>
                        case Option.bind (Base (cfg f)) (\<lambda>b. base_readfile b (basePath p)) of
                          Some data \<Rightarrow> Inr data
                        | None \<Rightarrow> Inl ErrNotExist)"

section \<open>Writing\<close>

definition writable :: "'e fs \<Rightarrow> string \<Rightarrow> bool" where
  "writable f dir \<longleftrightarrow> User (cfg f) = ''root'' \<or> list_ex (\<lambda>d. under dir d) (Writable (cfg f))"

definition checkCreate :: "'e \<Rightarrow> 'e fs \<Rightarrow> string \<Rightarrow> vfs_error option" where
  "checkCreate e f p =
     (if p = [] \<or> p = [slash] then Some ErrInvalid
      else
        let parent = path_Dir p in
        case fs_Stat e f parent of
          Inl _ \<Rightarrow> Some ErrNotExist
        | Inr pst \<Rightarrow>
            if \<not> iDir pst then Some ErrNotDir
            else if \<not> writable f parent \<or> is_private f parent then Some ErrPermission
            else if int (length (files f)) + int (length (dirs f)) \<ge> MaxEntries (cfg f) then Some ErrNoSpace
            else None)"

definition store_file :: "'e \<Rightarrow> 'e fs \<Rightarrow> string \<Rightarrow> bytes \<Rightarrow> bytes \<Rightarrow> 'e fs \<times> vfs_error option" where
  "store_file e f p old data =
     (if used f - int (length old) + int (length data) > MaxBytes (cfg f) then (f, Some ErrNoSpace)
      else (f\<lparr>used := used f + (int (length data) - int (length old)),
              files := AList.update p data (files f),
              mtime := AList.update p (Now (cfg f) e) (mtime f)\<rparr>, None))"

definition fs_WriteFile :: "'e \<Rightarrow> 'e fs \<Rightarrow> string \<Rightarrow> bytes \<Rightarrow> 'e fs \<times> vfs_error option" where
  "fs_WriteFile e f p data =
     (case map_of (files f) p of
        Some old \<Rightarrow> store_file e f p old data
      | None \<Rightarrow>
          case fs_Stat e f p of
            Inr st \<Rightarrow> (f, Some (if iDir st then ErrIsDir else ErrPermission))
          | Inl _ \<Rightarrow>
              case checkCreate e f p of
                Some err \<Rightarrow> (f, Some err)
              | None \<Rightarrow> store_file e f p [] data)"

definition fs_Touch :: "'e \<Rightarrow> 'e fs \<Rightarrow> string \<Rightarrow> 'e fs \<times> vfs_error option" where
  "fs_Touch e f p =
     (case fs_Stat e f p of
        Inl _ \<Rightarrow> fs_WriteFile e f p []
      | Inr _ \<Rightarrow>
          if map_of (files f) p \<noteq> None \<or> p \<in> set (dirs f)
          then (f\<lparr>mtime := AList.update p (Now (cfg f) e) (mtime f)\<rparr>, None)
          else if \<not> writable f (path_Dir p) then (f, Some ErrPermission)
          else (f, None))"

definition make_dir :: "'e \<Rightarrow> 'e fs \<Rightarrow> string \<Rightarrow> 'e fs \<times> vfs_error option" where
  "make_dir e f p =
     (case fs_Stat e f p of
        Inr _ \<Rightarrow> (f, Some ErrExist)
      | Inl _ \<Rightarrow>
          case checkCreate e f p of
            Some err \<Rightarrow> (f, Some err)
          | None \<Rightarrow>
              (f\<lparr>dirs := List.insert p (dirs f), mtime := AList.update p (Now (cfg f) e) (mtime f)\<rparr>, None))"

function fs_Mkdir :: "'e \<Rightarrow> 'e fs \<Rightarrow> string \<Rightarrow> bool \<Rightarrow> 'e fs \<times> vfs_error option" where
  "fs_Mkdir e f p parents =
     (if parents \<and> fs_IsDir e f p then (f, None)
      else if parents \<and> path_Dir p \<noteq> p \<and> \<not> fs_IsDir e f (path_Dir p) then
        (case fs_Mkdir e f (path_Dir p) True of
           (f1, Some err) \<Rightarrow> (f1, Some err)
         | (f1, None) \<Rightarrow> make_dir e f1 p)
      else make_dir e f p)"
  by auto
termination by (relation "measure (\<lambda>(e, f, p, parents). climb p)") (auto intro: climb_path_Dir)

declare fs_Mkdir.simps [simp del]

text \<open>
  Removal descends into the children it lists.  \<open>n\<close> bounds the depth of the recursion, \<open>None\<close> is a depth
  that was not enough; the number of overlay directories always is.
\<close>

fun remove_each ::
    "('e fs \<Rightarrow> string \<Rightarrow> ('e fs \<times> vfs_error option) option) \<Rightarrow> 'e fs \<Rightarrow> string list \<Rightarrow>
     ('e fs \<times> vfs_error option) option" where
  "remove_each rm f [] = Some (f, None)"
| "remove_each rm f (c # cs) =
     (case rm f c of
        None \<Rightarrow> None
      | Some (f1, Some err) \<Rightarrow> Some (f1, Some err)
      | Some (f1, None) \<Rightarrow> remove_each rm f1 cs)"

fun remove_at :: "nat \<Rightarrow> 'e \<Rightarrow> 'e fs \<Rightarrow> string \<Rightarrow> bool \<Rightarrow> ('e fs \<times> vfs_error option) option" where
  "remove_at 0 e f p recursive = None"
| "remove_at (Suc n) e f p recursive =
     (case fs_Stat e f p of
        Inl err \<Rightarrow> Some (f, Some err)
      | Inr _ \<Rightarrow>
          case map_of (files f) p of
            Some data \<Rightarrow>
              Some (f\<lparr>used := used f - int (length data), files := AList.delete p (files f),
                      mtime := AList.delete p (mtime f)\<rparr>, None)
          | None \<Rightarrow>
              if p \<notin> set (dirs f) then Some (f, Some ErrPermission)
              else
                let children = (case fs_ReadDir e f p of Inr cs \<Rightarrow> cs | Inl _ \<Rightarrow> []) in
                if children \<noteq> [] \<and> \<not> recursive then Some (f, Some ErrNotEmpty)
                else case remove_each (\<lambda>f c. remove_at n e f c True) f (map iPath children) of
                    None \<Rightarrow> None
                  | Some (f1, Some err) \<Rightarrow> Some (f1, Some err)
                  | Some (f1, None) \<Rightarrow>
                      Some (f1\<lparr>dirs := removeAll p (dirs f1), mtime := AList.delete p (mtime f1)\<rparr>, None))"

definition fs_Remove :: "'e \<Rightarrow> 'e fs \<Rightarrow> string \<Rightarrow> bool \<Rightarrow> ('e fs \<times> vfs_error option) option" where
  "fs_Remove e f p recursive = remove_at (Suc (length (dirs f))) e f p recursive"

end
