(* ===== verification/Vfs_Overlay.thy ===== *)
theory Vfs_Overlay
  imports Vfs
begin

text \<open>
  What the file tree promises: the overlay stays within its quota and inside the writable directories, the
  read-only layers never change, a write is read back, and removal takes exactly a subtree.
\<close>

section \<open>Layers\<close>

definition overlay :: "'e fs \<Rightarrow> string set" where
  "overlay f = fst ` set (files f) \<union> set (dirs f)"

definition base_entry :: "'e fs \<Rightarrow> string \<Rightarrow> (bool \<times> int) option" where
  "base_entry f p = Option.bind (Base (cfg f)) (\<lambda>b. base_stat b (basePath p))"

definition ro_entry :: "'e fs \<Rightarrow> string \<Rightarrow> bool" where
  "ro_entry f p \<longleftrightarrow>
     p \<noteq> [] \<and> (isExtraDir f p \<or> map_of (Generated (cfg f)) p \<noteq> None \<or> map_of (Static (cfg f)) p \<noteq> None \<or>
       base_entry f p \<noteq> None \<or> generatedParent f p)"

definition ro_dir :: "'e fs \<Rightarrow> string \<Rightarrow> bool" where
  "ro_dir f p \<longleftrightarrow>
     p \<noteq> [] \<and> (isExtraDir f p \<or>
       (map_of (Generated (cfg f)) p = None \<and> map_of (Static (cfg f)) p = None \<and>
        (case base_entry f p of Some (isdir, _) \<Rightarrow> isdir | None \<Rightarrow> generatedParent f p)))"

text \<open>
  What the tree relies on: absolute clean paths in its configuration, directory listings of single names,
  and read-only layers that form a tree.
\<close>

definition config_paths :: "'e fs \<Rightarrow> bool" where
  "config_paths f \<longleftrightarrow>
     list_all clean_abs (ExtraDirs (cfg f)) \<and> list_all clean_abs (map fst (Generated (cfg f))) \<and>
     list_all clean_abs (map fst (Static (cfg f))) \<and> list_all clean_abs (Private (cfg f))"

definition base_names :: "'e fs \<Rightarrow> bool" where
  "base_names f \<longleftrightarrow>
     (\<forall>p ns. Option.bind (Base (cfg f)) (\<lambda>b. base_readdir b p) = Some ns \<longrightarrow> list_all good_comp ns)"

definition base_tree :: "'e fs \<Rightarrow> bool" where
  "base_tree f \<longleftrightarrow> (\<forall>p. clean_abs p \<longrightarrow> p \<noteq> [slash] \<longrightarrow> ro_entry f p \<longrightarrow> ro_dir f (path_Dir p))"

lemma file_in_overlay: "map_of (files f) p \<noteq> None \<longleftrightarrow> p \<in> fst ` set (files f)"
  by (simp add: map_of_eq_None_iff)

lemma Stat_error: "fs_Stat e f p = Inl err \<longleftrightarrow> err = ErrNotExist \<and> (p = [] \<or> p \<notin> overlay f) \<and> \<not> ro_entry f p"
proof -
  have "p \<notin> overlay f \<longleftrightarrow> map_of (files f) p = None \<and> p \<notin> set (dirs f)"
    using file_in_overlay [of f p] by (auto simp: overlay_def)
  then show ?thesis
    by (auto simp: fs_Stat_def ro_entry_def base_entry_def Let_def split: option.splits if_splits prod.splits)
qed

lemma Stat_path: "fs_Stat e f p = Inr i \<Longrightarrow> iPath i = p"
  by (auto simp: fs_Stat_def Let_def split: option.splits if_splits prod.splits)

lemma Stat_dir:
  "fs_Stat e f p = Inr i \<Longrightarrow> iDir i \<longleftrightarrow> p \<notin> fst ` set (files f) \<and> (p \<in> set (dirs f) \<or> ro_dir f p)"
  using file_in_overlay [of f p]
  by (auto simp: fs_Stat_def ro_dir_def base_entry_def Let_def split: option.splits if_splits prod.splits)

lemma ro_dir_entry: "ro_dir f p \<Longrightarrow> ro_entry f p"
  by (auto simp: ro_dir_def ro_entry_def split: option.splits)

lemma same_cfg:
  assumes "cfg f' = cfg f"
  shows "ro_entry f' = ro_entry f" "ro_dir f' = ro_dir f" "is_private f' = is_private f" "writable f' = writable f"
    "config_paths f' = config_paths f" "base_names f' = base_names f" "base_tree f' = base_tree f"
proof -
  have "isExtraDir f' = isExtraDir f" "generatedParent f' = generatedParent f" "base_entry f' = base_entry f"
    using assms by (simp_all add: fun_eq_iff base_entry_def isExtraDir_def generatedParent_def)
  with assms show ro: "ro_entry f' = ro_entry f" "ro_dir f' = ro_dir f"
    unfolding ro_entry_def [abs_def] ro_dir_def [abs_def] by (simp_all cong: option.case_cong)
  show "is_private f' = is_private f" "writable f' = writable f"
    "config_paths f' = config_paths f" "base_names f' = base_names f"
    using assms by (simp_all add: fun_eq_iff is_private_def writable_def config_paths_def base_names_def)
  show "base_tree f' = base_tree f" by (simp add: base_tree_def ro)
qed

section \<open>The invariant\<close>

definition stored :: "'e fs \<Rightarrow> int" where
  "stored f = int (sum_list (map (length \<circ> snd) (files f)))"

definition within_quota :: "'e fs \<Rightarrow> bool" where
  "within_quota f \<longleftrightarrow>
     used f = stored f \<and> used f \<le> MaxBytes (cfg f) \<and>
     int (length (files f)) + int (length (dirs f)) \<le> MaxEntries (cfg f)"

definition placed :: "'e fs \<Rightarrow> string \<Rightarrow> bool" where
  "placed f p \<longleftrightarrow>
     clean_abs p \<and> p \<noteq> [slash] \<and> \<not> ro_entry f p \<and> writable f (path_Dir p) \<and> \<not> is_private f (path_Dir p) \<and>
     (path_Dir p \<in> set (dirs f) \<or> ro_dir f (path_Dir p))"

definition vfs_inv :: "'e fs \<Rightarrow> bool" where
  "vfs_inv f \<longleftrightarrow>
     distinct (map fst (files f)) \<and> distinct (dirs f) \<and> fst ` set (files f) \<inter> set (dirs f) = {} \<and>
     within_quota f \<and> (\<forall>p \<in> overlay f. placed f p)"

lemma vfs_invD:
  assumes "vfs_inv f"
  shows "distinct (map fst (files f))" "distinct (dirs f)" "fst ` set (files f) \<inter> set (dirs f) = {}"
    "within_quota f" "\<And>p. p \<in> overlay f \<Longrightarrow> placed f p"
  using assms by (auto simp: vfs_inv_def)

lemma vfs_inv_New: "vfs_inv (fs_New c)"
  by (simp add: vfs_inv_def fs_New_def fs_Reset_def within_quota_def stored_def overlay_def Let_def
      DefaultMaxEntries_def DefaultMaxBytes_def)

lemma vfs_inv_Reset: "0 \<le> MaxEntries (cfg f) \<Longrightarrow> 0 \<le> MaxBytes (cfg f) \<Longrightarrow> vfs_inv (fs_Reset f)"
  by (simp add: vfs_inv_def fs_Reset_def within_quota_def stored_def overlay_def)

lemma sum_update:
  "distinct (map fst xs) \<Longrightarrow>
   int (sum_list (map (length \<circ> snd) (AList.update p v xs))) =
   int (sum_list (map (length \<circ> snd) xs)) - (case map_of xs p of Some old \<Rightarrow> int (length old) | None \<Rightarrow> 0) + int (length v)"
  by (induction xs) (auto split: option.splits)

lemma sum_delete:
  "distinct (map fst xs) \<Longrightarrow>
   int (sum_list (map (length \<circ> snd) (AList.delete p xs))) =
   int (sum_list (map (length \<circ> snd) xs)) - (case map_of xs p of Some old \<Rightarrow> int (length old) | None \<Rightarrow> 0)"
proof (induction xs)
  case (Cons x xs)
  then show ?case
    by (cases x) (auto simp: AList.delete_eq filter_id_conv map_of_eq_None_iff image_iff split: option.splits)
qed (simp add: AList.delete_eq)

lemma length_update:
  "distinct (map fst xs) \<Longrightarrow> length (AList.update p v xs) = length xs + (if map_of xs p = None then 1 else 0)"
  by (induction xs) auto

lemma fst_update [simp]: "fst ` set (AList.update p v xs) = insert p (fst ` set xs)"
  by (metis dom_map_of_conv_image_fst dom_fun_upd option.distinct(1) update_conv')

lemma fst_delete [simp]: "fst ` set (AList.delete p xs) = fst ` set xs - {p}"
  by (auto simp: AList.delete_eq)

text \<open>The contents, as a map.\<close>

lemma files_update [simp]: "map_of (AList.update p v xs) = (map_of xs)(p \<mapsto> v)"
  by (rule update_conv')

lemma files_delete [simp]: "map_of (AList.delete p xs) = (map_of xs)(p := None)"
  by (rule delete_conv')

section \<open>Writing keeps the invariant\<close>

lemma checkCreate_ok:
  assumes "checkCreate e f p = None" "fs_Stat e f p = Inl err" "clean_abs p"
  shows "placed f p" "p \<notin> overlay f" "int (length (files f)) + int (length (dirs f)) < MaxEntries (cfg f)"
proof -
  have p: "p \<noteq> []" "p \<noteq> [slash]" using assms(1) by (auto simp: checkCreate_def)
  with assms(2) show "p \<notin> overlay f" by (simp add: Stat_error)
  from assms(1) p obtain pst where st: "fs_Stat e f (path_Dir p) = Inr pst" "iDir pst"
    and ok: "writable f (path_Dir p)" "\<not> is_private f (path_Dir p)"
    and room: "int (length (files f)) + int (length (dirs f)) < MaxEntries (cfg f)"
    by (auto simp: checkCreate_def Let_def split: sum.splits if_splits)
  show "int (length (files f)) + int (length (dirs f)) < MaxEntries (cfg f)" by (rule room)
  from assms(2,3) p ok st Stat_dir [OF st(1)] show "placed f p" by (auto simp: placed_def Stat_error)
qed

lemma placed_mono:
  "placed f q \<Longrightarrow> cfg f' = cfg f \<Longrightarrow> set (dirs f) \<subseteq> set (dirs f') \<Longrightarrow> placed f' q"
  using same_cfg [of f' f] by (auto simp: placed_def)

lemma store_file_inv:
  assumes inv: "vfs_inv f" and old: "old = (case map_of (files f) p of Some d \<Rightarrow> d | None \<Rightarrow> [])"
    and pl: "placed f p" and new: "p \<notin> set (dirs f)"
    and room: "map_of (files f) p = None \<Longrightarrow> int (length (files f)) + int (length (dirs f)) < MaxEntries (cfg f)"
  shows "vfs_inv (fst (store_file e f p old data))"
proof (cases "snd (store_file e f p old data)")
  case (Some err)
  then have "fst (store_file e f p old data) = f" by (auto simp: store_file_def split: if_splits)
  with inv show ?thesis by simp
next
  case None
  let ?f = "fst (store_file e f p old data)"
  have eq: "used ?f = used f + (int (length data) - int (length old))" "files ?f = AList.update p data (files f)"
    "dirs ?f = dirs f" "cfg ?f = cfg f" "used f - int (length old) + int (length data) \<le> MaxBytes (cfg f)"
    using None by (auto simp: store_file_def split: if_splits)
  note D = vfs_invD [OF inv]
  have len: "int (length old) = (case map_of (files f) p of Some d \<Rightarrow> int (length d) | None \<Rightarrow> 0)"
    by (simp add: old split: option.split)
  have "stored ?f = used ?f"
    using D(4) sum_update [OF D(1), of p data] unfolding stored_def eq within_quota_def len by linarith
  moreover have "int (length (files ?f)) + int (length (dirs ?f)) \<le> MaxEntries (cfg ?f)"
    using D(4) room length_update [OF D(1), of p data] by (auto simp: eq within_quota_def)
  ultimately have "within_quota ?f" using eq by (simp add: within_quota_def)
  moreover have "placed ?f q" if "q \<in> overlay ?f" for q
    using that D(5) pl by (auto simp: overlay_def eq intro!: placed_mono [of f _ ?f])
  ultimately show ?thesis using D new by (auto simp: vfs_inv_def eq distinct_update)
qed

lemma WriteFile_inv:
  assumes "vfs_inv f" "clean_abs p \<or> p = []"
  shows "vfs_inv (fst (fs_WriteFile e f p data))"
proof (cases "map_of (files f) p")
  case (Some old)
  then have "p \<in> overlay f" "p \<notin> set (dirs f)"
    using file_in_overlay [of f p] vfs_invD(3) [OF assms(1)] by (auto simp: overlay_def)
  with Some assms(1) show ?thesis
    by (simp add: fs_WriteFile_def) (rule store_file_inv, simp_all add: vfs_invD)
next
  case None
  show ?thesis
  proof (cases "fs_Stat e f p")
    case (Inl err)
    show ?thesis
    proof (cases "checkCreate e f p")
      case ok: None
      then have "clean_abs p" using assms(2) by (auto simp: checkCreate_def)
      from checkCreate_ok [OF ok Inl this] None Inl ok assms(1) show ?thesis
        by (simp add: fs_WriteFile_def) (rule store_file_inv, simp_all add: overlay_def)
    qed (use None Inl assms(1) in \<open>simp add: fs_WriteFile_def\<close>)
  qed (use None assms(1) in \<open>simp add: fs_WriteFile_def\<close>)
qed

lemma mtime_inv [simp]: "vfs_inv (f\<lparr>mtime := m\<rparr>) = vfs_inv f"
proof -
  have "placed (f\<lparr>mtime := m\<rparr>) = placed f"
    by (simp add: fun_eq_iff placed_def same_cfg [where f' = "f\<lparr>mtime := m\<rparr>" and f = f])
  then show ?thesis by (simp add: vfs_inv_def within_quota_def stored_def overlay_def)
qed

lemma Touch_inv: "vfs_inv f \<Longrightarrow> clean_abs p \<or> p = [] \<Longrightarrow> vfs_inv (fst (fs_Touch e f p))"
  by (auto simp: fs_Touch_def WriteFile_inv split: sum.split)

lemma make_dir_inv:
  assumes "vfs_inv f" "clean_abs p \<or> p = []"
  shows "vfs_inv (fst (make_dir e f p))"
proof (cases "snd (make_dir e f p)")
  case (Some err)
  then have "fst (make_dir e f p) = f" by (auto simp: make_dir_def split: sum.splits option.splits)
  with assms show ?thesis by simp
next
  case None
  then obtain err where ok: "checkCreate e f p = None" "fs_Stat e f p = Inl err"
    by (auto simp: make_dir_def split: sum.splits option.splits)
  then have "clean_abs p" using assms(2) by (auto simp: checkCreate_def)
  note C = checkCreate_ok [OF ok this] and D = vfs_invD [OF assms(1)]
  let ?f = "f\<lparr>dirs := List.insert p (dirs f)\<rparr>"
  have "p \<notin> set (dirs f)" using C(2) by (simp add: overlay_def)
  then have q: "within_quota ?f" using D(4) C(3) by (auto simp: within_quota_def stored_def List.insert_def)
  have pl: "placed ?f q" if "q \<in> overlay ?f" for q
    using that D(5) C(1) by (auto simp: overlay_def intro!: placed_mono [of f _ ?f])
  have "vfs_inv ?f" using D C(2) q pl by (auto simp: vfs_inv_def overlay_def distinct_insert)
  then show ?thesis using ok by (simp add: make_dir_def)
qed

lemma Mkdir_dot [simp]: "fst (fs_Mkdir e f ''.'' parents) = f"
proof -
  have "path_Dir ''.'' = ''.''" by (simp add: path_Dir_def dir_part_def path_Clean_def)
  then show ?thesis
    by (subst fs_Mkdir.simps) (auto simp: make_dir_def checkCreate_def split: sum.split)
qed

lemma path_Dir_clean: "clean_abs p \<Longrightarrow> clean_abs (path_Dir p)"
proof -
  assume "clean_abs p"
  then obtain cs where cs: "list_all good_comp cs" "p = abs_path cs" by (rule clean_absE)
  show ?thesis
  proof (cases cs rule: rev_cases)
    case Nil
    then have "path_Dir p = abs_path []" by (simp add: cs)
    then show ?thesis unfolding clean_abs_iff by (intro exI [where x = "[]"]) simp
  next
    case (snoc ds d)
    with cs have "path_Dir p = abs_path ds" "list_all good_comp ds" by simp_all
    then show ?thesis unfolding clean_abs_iff by blast
  qed
qed

lemma Mkdir_inv:
  "vfs_inv f \<Longrightarrow> clean_abs p \<or> p = [] \<Longrightarrow> vfs_inv (fst (fs_Mkdir e f p parents))"
proof (induction e f p parents rule: fs_Mkdir.induct)
  case (1 e f p parents)
  show ?case
  proof (cases "parents \<and> \<not> fs_IsDir e f p \<and> path_Dir p \<noteq> p \<and> \<not> fs_IsDir e f (path_Dir p)")
    case True
    have "vfs_inv (fst (fs_Mkdir e f (path_Dir p) True))"
    proof (cases "p = []")
      case True
      then have "path_Dir p = ''.''" by (simp add: path_Dir_def dir_part_def path_Clean_def)
      with 1(2) show ?thesis by simp
    next
      case False
      with 1 True path_Dir_clean [of p] show ?thesis by auto
    qed
    with True 1(3) make_dir_inv [OF _ 1(3)] show ?thesis
      by (subst fs_Mkdir.simps) (auto split: prod.split option.split)
  next
    case False
    with 1 make_dir_inv [OF 1(2,3)] show ?thesis by (subst fs_Mkdir.simps) auto
  qed
qed

section \<open>Subtrees\<close>

lemma clean_abs_snoc [simp]: "list_all good_comp cs \<Longrightarrow> good_comp c \<Longrightarrow> clean_abs (abs_path (cs @ [c]))"
  by (auto simp: clean_abs_iff intro!: exI [where x = "cs @ [c]"])

lemma clean_abs_path [simp]: "list_all good_comp cs \<Longrightarrow> clean_abs (abs_path cs)"
  by (auto simp: clean_abs_iff)

lemma under_refl [simp]: "under p p"
  by (simp add: under_def)

lemma under_trans:
  "clean_abs p \<Longrightarrow> clean_abs q \<Longrightarrow> clean_abs r \<Longrightarrow> under p q \<Longrightarrow> under q r \<Longrightarrow> under p r"
  by (auto elim!: clean_absE simp: under_abs_path)

lemma under_antisym: "clean_abs p \<Longrightarrow> clean_abs q \<Longrightarrow> under p q \<Longrightarrow> under q p \<Longrightarrow> p = q"
  by (auto elim!: clean_absE simp: under_abs_path)

lemma under_Dir: "clean_abs p \<Longrightarrow> under p (path_Dir p)"
proof -
  assume "clean_abs p"
  then obtain cs where cs: "list_all good_comp cs" "p = abs_path cs" by (rule clean_absE)
  then show ?thesis by (cases cs rule: rev_cases) (auto simp: under_abs_path)
qed

lemma strictly_under:
  assumes "clean_abs q" "clean_abs p" "under q p" "q \<noteq> p"
  obtains ps es where "list_all good_comp ps" "p = abs_path ps" "list_all good_comp (ps @ es)"
    "q = abs_path (ps @ es)" "es \<noteq> []"
proof -
  from assms(1,2) obtain qs ps where qs: "list_all good_comp qs" "q = abs_path qs"
    and ps: "list_all good_comp ps" "p = abs_path ps"
    by (auto elim!: clean_absE)
  with assms(3) obtain es where "qs = ps @ es" by (auto simp: under_abs_path)
  with that [of ps es] qs ps assms(4) show ?thesis by (cases "es = []") auto
qed

lemma parent_under:
  assumes "clean_abs q" "clean_abs p" "under q p" "q \<noteq> p"
  shows "under (path_Dir q) p"
proof -
  from assms obtain ps es where ps: "list_all good_comp ps" "p = abs_path ps"
    and q: "list_all good_comp (ps @ es)" "q = abs_path (ps @ es)" "es \<noteq> []"
    by (rule strictly_under)
  from q(3) obtain es' x where "es = es' @ [x]" by (cases es rule: rev_cases) auto
  with ps q path_Dir_abs_path [of "ps @ es'" x] show ?thesis by (simp add: under_abs_path)
qed

text \<open>The child of \<open>p\<close> on the way to \<open>q\<close>.\<close>

lemma under_child:
  assumes "clean_abs q" "clean_abs p" "under q p" "q \<noteq> p"
  obtains c where "clean_abs c" "c \<noteq> [slash]" "path_Dir c = p" "under q c" "name_in p q = Some (path_Base c)"
    "path_Join [p, path_Base c] = c"
proof -
  from assms obtain ps es where ps: "list_all good_comp ps" "p = abs_path ps"
    and q: "list_all good_comp (ps @ es)" "q = abs_path (ps @ es)" "es \<noteq> []"
    by (rule strictly_under)
  from q obtain x xs where es: "es = x # xs" by (cases es) auto
  have g: "list_all good_comp (ps @ [x])" using q es by simp
  have walk: "name_in (abs_path ps) (abs_path (ps @ x # ys)) = Some x" if "list_all good_comp (ps @ x # ys)" for ys
    using that
  proof (induction ys rule: rev_induct)
    case Nil
    then have "abs_path (ps @ [x]) \<noteq> [slash]" using abs_path_inject [of "ps @ [x]" "[]"] by auto
    with Nil show ?case by (subst name_in.simps) simp
  next
    case (snoc y ys)
    have d: "path_Dir (abs_path (ps @ x # ys @ [y])) = abs_path (ps @ x # ys)"
      using path_Dir_abs_path [of "ps @ x # ys" y] snoc.prems by simp
    have ne: "abs_path (ps @ x # ys @ [y]) \<noteq> [slash]" "abs_path (ps @ x # ys) \<noteq> abs_path ps"
      "abs_path (ps @ x # ys) \<noteq> abs_path (ps @ x # ys @ [y])"
      using abs_path_inject [of "ps @ x # ys @ [y]" "[]"] abs_path_inject [of "ps @ x # ys" ps]
        abs_path_inject [of "ps @ x # ys" "ps @ x # ys @ [y]"] snoc.prems by auto
    show ?case using snoc ne d by (subst name_in.simps) simp
  qed
  show ?thesis
  proof (rule that [of "abs_path (ps @ [x])"])
    show "abs_path (ps @ [x]) \<noteq> [slash]" using abs_path_inject [of "ps @ [x]" "[]"] g by auto
    show "under q (abs_path (ps @ [x]))" using g q es by (simp add: under_abs_path)
  qed (use g ps q es walk [of xs] in simp_all)
qed

lemma name_in_good: "clean_abs q \<Longrightarrow> name_in p q = Some n \<Longrightarrow> good_comp n"
proof (induction p q rule: name_in.induct)
  case (1 p q)
  from 1(2) obtain cs where cs: "list_all good_comp cs" "q = abs_path cs" by (rule clean_absE)
  show ?case
  proof (cases cs rule: rev_cases)
    case Nil
    with 1(3) cs show ?thesis by (subst (asm) name_in.simps) simp
  next
    case (snoc ds d)
    with cs have "good_comp (path_Base q)" by simp
    with 1 path_Dir_clean [OF 1(2)] show ?thesis by (subst (asm) (2) name_in.simps) (auto split: if_splits)
  qed
qed

lemma private_below:
  assumes "is_private f p" "clean_abs p" "clean_abs q" "under q p" "list_all clean_abs (Private (cfg f))"
  shows "is_private f q"
  using assms under_trans [of q p] by (auto simp: is_private_def list_ex_iff list_all_iff)

lemma ancestors:
  assumes inv: "vfs_inv f" and tree: "base_tree f" and q: "q \<in> overlay f \<or> ro_entry f q" "clean_abs q"
    and c: "clean_abs c" "under q c" "q \<noteq> c"
  shows "c \<in> set (dirs f) \<or> ro_dir f c"
proof -
  from q(2) c obtain cs es where cs: "list_all good_comp cs" "c = abs_path cs"
    and es: "list_all good_comp (cs @ es)" "q = abs_path (cs @ es)" "es \<noteq> []"
    by (rule strictly_under)
  from es q(1) show ?thesis
  proof (induction es arbitrary: q rule: rev_induct)
    case (snoc x xs)
    have q: "clean_abs q" "q \<noteq> [slash]"
      using snoc.prems abs_path_inject [of "cs @ xs @ [x]" "[]"] by auto
    have d: "path_Dir q = abs_path (cs @ xs)"
      using snoc.prems path_Dir_abs_path [of "cs @ xs" x] by simp
    have "path_Dir q \<in> set (dirs f) \<or> ro_dir f (path_Dir q)"
      using snoc.prems(4) q tree vfs_invD(5) [OF inv, of q] by (auto simp: base_tree_def placed_def)
    then show ?case
      using snoc.IH [of "path_Dir q"] snoc.prems d cs ro_dir_entry [of f "path_Dir q"]
      by (cases "xs = []") (auto simp: overlay_def)
  qed simp
qed

end
