(* ===== verification/Vfs_Remove.thy ===== *)
theory Vfs_Remove
  imports Vfs_Overlay
begin

text \<open>
  Removal from the file tree (\<^verbatim>\<open>FS.Remove\<close>): it ends, it takes the subtree of its path and nothing else, and
  it keeps the invariant.
\<close>

definition conf :: "'e fs \<Rightarrow> bool" where
  "conf f \<longleftrightarrow> config_paths f \<and> base_names f \<and> base_tree f"

lemma same_conf: "cfg f' = cfg f \<Longrightarrow> conf f' = conf f"
  using same_cfg [of f' f] by (simp add: conf_def)

section \<open>The children of a directory\<close>

definition child_paths :: "'e \<Rightarrow> 'e fs \<Rightarrow> string \<Rightarrow> string list" where
  "child_paths e f p = map iPath (case fs_ReadDir e f p of Inr cs \<Rightarrow> cs | Inl _ \<Rightarrow> [])"

lemma set_map_filter: "set (List.map_filter g xs) = {y. \<exists>x \<in> set xs. g x = Some y}"
  by (induction xs) (auto split: option.splits)

lemma stat_some: "(case s of Inr i \<Rightarrow> Some i | Inl _ \<Rightarrow> None) = Some j \<longleftrightarrow> s = Inr j"
  by (cases s) auto

lemma child_paths_in:
  assumes "c \<in> set (child_paths e f p)" "clean_abs p" "vfs_inv f" "conf f"
  shows "clean_abs c \<and> c \<noteq> [slash] \<and> path_Dir c = p"
proof -
  from assms(1) obtain name where n: "name \<in> set (entry_names f p)" "c = path_Join [p, name]"
    by (auto simp: child_paths_def fs_ReadDir_def Let_def set_map_filter stat_some Stat_path
        split: sum.splits if_splits)
  have keys: "clean_abs q" if "q \<in> set (ExtraDirs (cfg f) @ map fst (Generated (cfg f)) @ map fst (Static (cfg f)) @ dirs f @ map fst (files f))" for q
    using that assms(3,4) vfs_invD(5) [OF assms(3), of q]
    by (auto simp: conf_def config_paths_def list_all_iff placed_def overlay_def)
  have "good_comp name"
  proof (cases "name \<in> set (case Option.bind (Base (cfg f)) (\<lambda>b. base_readdir b (basePath p)) of Some ns \<Rightarrow> ns | None \<Rightarrow> [])")
    case True
    with assms(4) show ?thesis
      unfolding conf_def base_names_def list_all_iff
      by (cases "Option.bind (Base (cfg f)) (\<lambda>b. base_readdir b (basePath p))") auto
  next
    case False
    then obtain q where "q \<in> set (ExtraDirs (cfg f) @ map fst (Generated (cfg f)) @ map fst (Static (cfg f)) @ dirs f @ map fst (files f))"
      "name_in p q = Some name"
      using n(1) unfolding entry_names_def set_remdups set_append set_map_filter by auto
    with keys name_in_good show ?thesis by blast
  qed
  moreover obtain ps where "list_all good_comp ps" "p = abs_path ps" using assms(2) by (rule clean_absE)
  moreover have "abs_path (ps @ [name]) \<noteq> [slash]" if "list_all good_comp (ps @ [name])"
    using abs_path_inject [of "ps @ [name]" "[]"] that by auto
  ultimately show ?thesis using n(2) by auto
qed

lemma child_paths_cover:
  assumes inv: "vfs_inv f" "conf f" and p: "p \<in> set (dirs f)" "clean_abs p"
    and q: "q \<in> overlay f" "under q p" "q \<noteq> p"
  shows "\<exists>c \<in> set (child_paths e f p). under q c"
proof -
  have cq: "clean_abs q" "q \<noteq> [slash]" using vfs_invD(5) [OF inv(1) q(1)] by (auto simp: placed_def)
  obtain c where c: "clean_abs c" "c \<noteq> [slash]" "path_Dir c = p" "under q c" "name_in p q = Some (path_Base c)"
    "path_Join [p, path_Base c] = c"
    using under_child [OF cq(1) p(2) q(2,3)] by blast
  have "c \<in> overlay f \<or> ro_entry f c"
    using ancestors [OF inv(1) _ _ cq(1) c(1,4)] inv(2) q(1) ro_dir_entry [of f c]
    by (cases "q = c") (auto simp: conf_def overlay_def)
  then obtain i where i: "fs_Stat e f c = Inr i" "iPath i = c"
    using Stat_error [of e f c] Stat_path [of e f c] c(1)
    by (cases "fs_Stat e f c") (auto simp: clean_abs_iff abs_path_def)
  have "p \<in> overlay f" using p(1) by (simp add: overlay_def)
  then have pne: "p \<noteq> []" using p(2) by (auto simp: clean_abs_iff abs_path_def)
  obtain st where st: "fs_Stat e f p = Inr st"
    using Stat_error [of e f p] \<open>p \<in> overlay f\<close> pne by (cases "fs_Stat e f p") auto
  have "iDir st" using Stat_dir [OF st] p(1) vfs_invD(3) [OF inv(1)] by auto
  have "under (path_Dir q) p" by (rule parent_under [OF cq(1) p(2) q(2,3)])
  then have "\<not> is_private f p"
    using private_below [of f p "path_Dir q"] p(2) path_Dir_clean [OF cq(1)] inv(2) vfs_invD(5) [OF inv(1) q(1)]
    by (auto simp: placed_def conf_def config_paths_def)
  moreover have "path_Base c \<in> set (entry_names f p)"
    using q(1) c(5) unfolding entry_names_def set_remdups set_append set_map_filter by (auto simp: overlay_def)
  ultimately have "c \<in> set (child_paths e f p)"
    using st \<open>iDir st\<close> i c(6)
    by (force simp: child_paths_def fs_ReadDir_def Let_def set_map_filter image_iff)
  with c(4) show ?thesis by blast
qed

section \<open>Pruning\<close>

lemma Dir_fixpoint: "clean_abs q \<Longrightarrow> path_Dir q = q \<Longrightarrow> q = [slash]"
proof -
  assume "clean_abs q" "path_Dir q = q"
  then obtain cs where cs: "list_all good_comp cs" "q = abs_path cs" by (auto elim: clean_absE)
  show ?thesis
  proof (cases cs rule: rev_cases)
    case (snoc ds d)
    with cs \<open>path_Dir q = q\<close> abs_path_inject [of ds "ds @ [d]"] show ?thesis by auto
  qed (simp add: cs)
qed

text \<open>The tree \<open>f'\<close> is \<open>f\<close> with at most entries of the subtree at \<open>p\<close> gone.\<close>

definition same_at :: "'e fs \<Rightarrow> 'e fs \<Rightarrow> string \<Rightarrow> bool" where
  "same_at f f' q \<longleftrightarrow>
     map_of (files f') q = map_of (files f) q \<and> (q \<in> set (dirs f') \<longleftrightarrow> q \<in> set (dirs f)) \<and>
     map_of (mtime f') q = map_of (mtime f) q"

definition pruned :: "'e fs \<Rightarrow> 'e fs \<Rightarrow> string \<Rightarrow> bool" where
  "pruned f f' p \<longleftrightarrow>
     vfs_inv f' \<and> cfg f' = cfg f \<and> fst ` set (files f') \<subseteq> fst ` set (files f) \<and> set (dirs f') \<subseteq> set (dirs f) \<and>
     (\<forall>q. clean_abs q \<longrightarrow> \<not> under q p \<longrightarrow> same_at f f' q)"

lemma pruned_refl: "vfs_inv f \<Longrightarrow> pruned f f p"
  by (simp add: pruned_def same_at_def)

lemma pruned_trans:
  "pruned f f1 c \<Longrightarrow> clean_abs c \<Longrightarrow> clean_abs p \<Longrightarrow> under c p \<Longrightarrow> pruned f1 f2 p \<Longrightarrow> pruned f f2 p"
  unfolding pruned_def same_at_def by (metis (no_types, lifting) subset_trans under_trans)

lemma prunedD:
  assumes "pruned f f' p"
  shows "vfs_inv f'" "cfg f' = cfg f" "overlay f' \<subseteq> overlay f" "set (dirs f') \<subseteq> set (dirs f)"
    "fst ` set (files f') \<subseteq> fst ` set (files f)"
  using assms by (auto simp: pruned_def overlay_def)

lemma pruned_file:
  assumes inv: "vfs_inv f" and data: "map_of (files f) p = Some data"
  shows "pruned f (f\<lparr>used := used f - int (length data), files := AList.delete p (files f), mtime := AList.delete p (mtime f)\<rparr>) p"
    (is "pruned f ?f p")
proof -
  note D = vfs_invD [OF inv]
  have "length (AList.delete p (files f)) \<le> length (files f)" by (simp add: AList.delete_eq)
  moreover have "stored ?f = used ?f"
    using D(4) sum_delete [OF D(1), of p] data by (simp add: within_quota_def stored_def)
  ultimately have "within_quota ?f" using D(4) by (simp add: within_quota_def)
  moreover have "placed ?f q" if "q \<in> overlay ?f" for q
    using that D(5) by (auto simp: overlay_def intro!: placed_mono [of f _ ?f])
  ultimately have "vfs_inv ?f" using D by (auto simp: vfs_inv_def distinct_delete)
  then show ?thesis by (auto simp: pruned_def overlay_def same_at_def)
qed

lemma pruned_dir:
  assumes inv: "vfs_inv f" and gone: "\<And>q. q \<in> overlay f \<Longrightarrow> under q p \<Longrightarrow> q = p" and p: "clean_abs p"
  shows "pruned f (f\<lparr>dirs := removeAll p (dirs f), mtime := AList.delete p (mtime f)\<rparr>) p" (is "pruned f ?f p")
proof -
  note D = vfs_invD [OF inv]
  have "length (removeAll p (dirs f)) \<le> length (dirs f)" by (rule length_removeAll_less_eq)
  then have "int (length (files f)) + int (length (removeAll p (dirs f))) \<le> MaxEntries (cfg f)"
    using D(4) unfolding within_quota_def by linarith
  then have "within_quota ?f" using D(4) by (simp add: within_quota_def stored_def)
  moreover have "placed ?f q" if q: "q \<in> overlay ?f" for q
  proof -
    have "q \<in> overlay f" using q by (auto simp: overlay_def)
    then have "placed f q" by (rule D(5))
    moreover have "path_Dir q \<noteq> p"
    proof
      assume d: "path_Dir q = p"
      have "clean_abs q" "q \<noteq> [slash]" using \<open>placed f q\<close> by (auto simp: placed_def)
      then have "q = p" using gone [OF \<open>q \<in> overlay f\<close>] under_Dir [of q] d by simp
      with d \<open>clean_abs q\<close> \<open>q \<noteq> [slash]\<close> show False by (metis Dir_fixpoint)
    qed
    ultimately show ?thesis using same_cfg [of ?f f] by (auto simp: placed_def)
  qed
  ultimately have "vfs_inv ?f" using D by (auto simp: vfs_inv_def distinct_removeAll)
  then show ?thesis by (auto simp: pruned_def overlay_def same_at_def)
qed

section \<open>Removal\<close>

definition removes :: "'e fs \<Rightarrow> string \<Rightarrow> 'e fs \<times> vfs_error option \<Rightarrow> bool" where
  "removes f p res \<longleftrightarrow>
     pruned f (fst res) p \<and> (snd res = None \<longrightarrow> (\<forall>q \<in> overlay (fst res). \<not> under q p))"

lemma remove_each_spec:
  assumes rm: "\<And>f c res. vfs_inv f \<Longrightarrow> conf f \<Longrightarrow> clean_abs c \<Longrightarrow> rm f c = Some res \<Longrightarrow> removes f c res"
    and p: "clean_abs p"
  shows "remove_each rm f cs = Some (f', r) \<Longrightarrow> vfs_inv f \<Longrightarrow> conf f \<Longrightarrow>
     (\<And>c. c \<in> set cs \<Longrightarrow> clean_abs c \<and> under c p) \<Longrightarrow>
     pruned f f' p \<and> (r = None \<longrightarrow> (\<forall>c \<in> set cs. \<forall>q \<in> overlay f'. \<not> under q c))"
proof (induction cs arbitrary: f)
  case (Cons c cs)
  obtain f1 r1 where one: "rm f c = Some (f1, r1)"
    using Cons.prems(1) by (cases "rm f c") auto
  have rest: "r1 = None \<Longrightarrow> remove_each rm f1 cs = Some (f', r)" "r1 \<noteq> None \<Longrightarrow> f' = f1 \<and> r = r1"
    using Cons.prems(1) one by auto
  have c: "clean_abs c" "under c p" using Cons.prems(4) by simp_all
  have m: "pruned f f1 c" "r1 = None \<longrightarrow> (\<forall>q \<in> overlay f1. \<not> under q c)"
    using rm [OF Cons.prems(2,3) c(1) one] by (auto simp: removes_def)
  note P = prunedD [OF m(1)]
  show ?case
  proof (cases r1)
    case None
    have "pruned f1 f' p \<and> (r = None \<longrightarrow> (\<forall>c \<in> set cs. \<forall>q \<in> overlay f'. \<not> under q c))"
      using Cons.IH [OF rest(1) [OF None] P(1)] Cons.prems(3,4) same_conf [OF P(2)] by simp
    then have later: "pruned f1 f' p" "r = None \<Longrightarrow> c' \<in> set cs \<Longrightarrow> q \<in> overlay f' \<Longrightarrow> \<not> under q c'" for c' q
      by blast+
    have "pruned f f' p" by (rule pruned_trans [OF m(1) c(1) p c(2) later(1)])
    moreover have "\<not> under q c" if "q \<in> overlay f'" for q
      using that m(2) None prunedD(3) [OF later(1)] by blast
    ultimately show ?thesis using later(2) by auto
  next
    case (Some err)
    with rest(2) pruned_trans [OF m(1) c(1) p c(2) pruned_refl [OF P(1)]] show ?thesis by simp
  qed
qed (simp add: pruned_refl)

lemma file_has_no_children:
  assumes "vfs_inv f" "conf f" "p \<in> fst ` set (files f)" "q \<in> overlay f" "under q p"
  shows "q = p"
proof (rule ccontr)
  assume ne: "q \<noteq> p"
  have "p \<in> overlay f" using assms(3) by (simp add: overlay_def)
  then have p: "clean_abs p" "\<not> ro_entry f p" using vfs_invD(5) [OF assms(1)] by (auto simp: placed_def)
  have "clean_abs q" using vfs_invD(5) [OF assms(1,4)] by (simp add: placed_def)
  from ancestors [OF assms(1) _ _ this p(1) assms(5) ne] assms(2,4)
  have "p \<in> set (dirs f) \<or> ro_dir f p" by (simp add: conf_def)
  with p(2) ro_dir_entry [of f p] vfs_invD(3) [OF assms(1)] assms(3) show False by auto
qed

text \<open>A file goes at once; a directory goes after what it holds.\<close>

lemma removes_file:
  assumes inv: "vfs_inv f" "conf f" and data: "map_of (files f) p = Some data"
  shows "removes f p
    (f\<lparr>used := used f - int (length data), files := AList.delete p (files f), mtime := AList.delete p (mtime f)\<rparr>, None)"
    (is "removes f p (?f, None)")
proof -
  have "\<not> under q p" if "q \<in> overlay ?f" for q
    using that file_has_no_children [OF inv, of p q] vfs_invD(3) [OF inv(1)] file_in_overlay [of f p] data
    by (auto simp: overlay_def)
  with pruned_file [OF inv(1) data] show ?thesis by (simp add: removes_def)
qed

lemma removes_emptied:
  assumes inv: "vfs_inv f" "conf f" and p: "clean_abs p" "p \<in> set (dirs f)" "map_of (files f) p = None"
    and left: "pruned f f1 p" "\<And>c q. c \<in> set (child_paths e f p) \<Longrightarrow> q \<in> overlay f1 \<Longrightarrow> \<not> under q c"
  shows "removes f p (f1\<lparr>dirs := removeAll p (dirs f1), mtime := AList.delete p (mtime f1)\<rparr>, None)"
    (is "removes f p (?f, None)")
proof -
  have gone: "q = p" if "q \<in> overlay f1" "under q p" for q
    using child_paths_cover [OF inv, of p q e] p that prunedD(3) [OF left(1)] left(2) by auto
  have "pruned f1 ?f p" by (rule pruned_dir [OF prunedD(1) [OF left(1)] gone p(1)])
  then have "pruned f ?f p" by (rule pruned_trans [OF left(1) p(1) p(1) under_refl])
  moreover have "\<not> under q p" if q: "q \<in> overlay ?f" for q
  proof -
    have "p \<notin> fst ` set (files f1)" using prunedD(5) [OF left(1)] p(3) file_in_overlay [of f p] by blast
    with q have "q \<in> overlay f1" "q \<noteq> p" by (auto simp: overlay_def)
    with gone [of q] show ?thesis by blast
  qed
  ultimately show ?thesis by (simp add: removes_def)
qed

lemma remove_at_removes:
  "remove_at n e f p recursive = Some res \<Longrightarrow> vfs_inv f \<Longrightarrow> conf f \<Longrightarrow> clean_abs p \<Longrightarrow> removes f p res"
proof (induction n arbitrary: f p recursive res)
  case (Suc n)
  note inv = Suc.prems(2,3) and p = Suc.prems(4)
  consider (gone) err where "fs_Stat e f p = Inl err"
    | (as_file) i data where "fs_Stat e f p = Inr i" "map_of (files f) p = Some data"
    | (kept) i where "fs_Stat e f p = Inr i" "map_of (files f) p = None"
        "p \<in> set (dirs f) \<Longrightarrow> child_paths e f p \<noteq> [] \<and> \<not> recursive"
    | (dir) i where "fs_Stat e f p = Inr i" "map_of (files f) p = None" "p \<in> set (dirs f)"
        "\<not> (child_paths e f p \<noteq> [] \<and> \<not> recursive)"
    by (cases "fs_Stat e f p"; cases "map_of (files f) p") blast+
  then show ?case
  proof cases
    case gone
    with Suc.prems(1) inv show ?thesis by (auto simp: removes_def pruned_refl)
  next
    case as_file
    then show ?thesis using Suc.prems(1) removes_file [OF inv as_file(2)] by auto
  next
    case kept
    with Suc.prems(1) inv show ?thesis
      by (auto simp: removes_def pruned_refl child_paths_def split: if_splits sum.splits)
  next
    case dir
    from Suc.prems(1) dir obtain f1 r1
      where loop: "remove_each (\<lambda>f c. remove_at n e f c True) f (child_paths e f p) = Some (f1, r1)"
        and res: "r1 = None \<Longrightarrow> res = (f1\<lparr>dirs := removeAll p (dirs f1), mtime := AList.delete p (mtime f1)\<rparr>, None)"
          "r1 \<noteq> None \<Longrightarrow> res = (f1, r1)"
      by (auto simp: child_paths_def Let_def split: option.splits prod.splits if_splits)
    have "clean_abs c \<and> under c p" if "c \<in> set (child_paths e f p)" for c
      using child_paths_in [OF that p inv] under_Dir [of c] by auto
    then have L: "pruned f f1 p" "r1 = None \<Longrightarrow> \<forall>c \<in> set (child_paths e f p). \<forall>q \<in> overlay f1. \<not> under q c"
      using remove_each_spec [OF Suc.IH p loop inv] by auto
    show ?thesis
    proof (cases r1)
      case None
      with removes_emptied [OF inv p dir(3,2) L(1), of e] L(2) res(1) show ?thesis by blast
    qed (use res(2) L(1) in \<open>simp add: removes_def\<close>)
  qed
qed simp

section \<open>Removal ends\<close>

definition depth :: "'e fs \<Rightarrow> string \<Rightarrow> nat" where
  "depth f p = card {d \<in> set (dirs f). under d p}"

lemma depth_mono: "set (dirs f') \<subseteq> set (dirs f) \<Longrightarrow> depth f' p \<le> depth f p"
  unfolding depth_def by (rule card_mono) auto

lemma depth_child:
  assumes "vfs_inv f" "p \<in> set (dirs f)" "clean_abs p" "clean_abs c" "c \<noteq> [slash]" "path_Dir c = p"
  shows "depth f c < depth f p"
  unfolding depth_def
proof (rule psubset_card_mono)
  have d: "clean_abs d" if "d \<in> set (dirs f)" for d
    using that vfs_invD(5) [OF assms(1), of d] by (simp add: overlay_def placed_def)
  have cp: "under c p" using under_Dir [OF assms(4)] assms(6) by simp
  have "\<not> under p c" using under_antisym [OF assms(3,4)] cp Dir_fixpoint [OF assms(4)] assms(5,6) by metis
  then show "{d \<in> set (dirs f). under d c} \<subset> {d \<in> set (dirs f). under d p}"
    using under_trans [OF d assms(4,3) _ cp] assms(2) by auto
qed simp

lemma remove_each_ends:
  assumes rm: "\<And>f c. vfs_inv f \<Longrightarrow> conf f \<Longrightarrow> clean_abs c \<Longrightarrow> depth f c < n \<Longrightarrow>
      \<exists>res. rm f c = Some res \<and> removes f c res"
  shows "vfs_inv f \<Longrightarrow> conf f \<Longrightarrow> (\<And>c. c \<in> set cs \<Longrightarrow> clean_abs c \<and> depth f c < n) \<Longrightarrow>
     remove_each rm f cs \<noteq> None"
proof (induction cs arbitrary: f)
  case (Cons c cs)
  have "clean_abs c" "depth f c < n" using Cons.prems(3) [of c] by auto
  from rm [OF Cons.prems(1,2) this] obtain f1 r1
    where one: "rm f c = Some (f1, r1)" "removes f c (f1, r1)" by auto
  then have P: "pruned f f1 c" by (simp add: removes_def)
  have "remove_each rm f1 cs \<noteq> None"
  proof (rule Cons.IH [OF prunedD(1) [OF P]])
    show "conf f1" using Cons.prems(2) same_conf [OF prunedD(2) [OF P]] by simp
    fix c' assume "c' \<in> set cs"
    then show "clean_abs c' \<and> depth f1 c' < n"
      using Cons.prems(3) [of c'] depth_mono [OF prunedD(4) [OF P], of c'] by auto
  qed
  with one(1) show ?case by (cases r1) auto
qed simp

lemma remove_at_ends:
  "vfs_inv f \<Longrightarrow> conf f \<Longrightarrow> clean_abs p \<Longrightarrow> depth f p < n \<Longrightarrow> remove_at n e f p recursive \<noteq> None"
proof (induction n arbitrary: f p recursive)
  case (Suc n)
  note inv = Suc.prems(1,2) and p = Suc.prems(3)
  have loop: "remove_each (\<lambda>f c. remove_at n e f c True) f (child_paths e f p) \<noteq> None" if d: "p \<in> set (dirs f)"
  proof (rule remove_each_ends [where n = n, OF _ inv])
    fix c assume "c \<in> set (child_paths e f p)"
    then have "clean_abs c" "c \<noteq> [slash]" "path_Dir c = p" using child_paths_in [OF _ p inv] by auto
    then show "clean_abs c \<and> depth f c < n" using depth_child [OF inv(1) d p] Suc.prems(4) by fastforce
  next
    fix f :: "'a fs" and c assume a: "vfs_inv f" "conf f" "clean_abs c" "depth f c < n"
    then obtain res where "remove_at n e f c True = Some res" using Suc.IH [of f c True] by auto
    with remove_at_removes [OF this a(1-3)] show "\<exists>res. remove_at n e f c True = Some res \<and> removes f c res" by blast
  qed
  then show ?case
    by (auto simp: child_paths_def Let_def split: sum.splits option.splits)
qed simp

lemma depth_le: "vfs_inv f \<Longrightarrow> depth f p \<le> length (dirs f)"
  unfolding depth_def by (rule order_trans [OF card_mono card_length]) auto

lemma Remove_ends:
  assumes "vfs_inv f" "conf f" "clean_abs p \<or> p = []"
  obtains f' r where "fs_Remove e f p recursive = Some (f', r)" "p = [] \<longrightarrow> f' = f" "clean_abs p \<longrightarrow> removes f p (f', r)"
proof (cases "p = []")
  case True
  then show ?thesis using that [of f "Some ErrNotExist"] by (auto simp: fs_Remove_def fs_Stat_def clean_abs_def)
next
  case False
  then have p: "clean_abs p" using assms(3) by simp
  have "depth f p < Suc (length (dirs f))" using depth_le [OF assms(1)] by (simp add: less_Suc_eq_le)
  from remove_at_ends [OF assms(1,2) p this] obtain f' r
    where r: "fs_Remove e f p recursive = Some (f', r)" by (force simp: fs_Remove_def)
  with remove_at_removes [OF r [unfolded fs_Remove_def] assms(1,2) p] False that show ?thesis by blast
qed

end
