(* ===== verification/Vfs_Correct.thy ===== *)
theory Vfs_Correct
  imports Vfs_Remove
begin

text \<open>
  The properties of the file tree (\<^verbatim>\<open>src/fakeshell/vfs\<close>), over any sequence of the operations a shell calls.
\<close>

section \<open>Runs\<close>

text \<open>The shell resolves every path it is given before it calls the tree.\<close>

datatype vfs_op =
    VWrite string string bytes
  | VTouch string string
  | VMkdir string string bool
  | VRemove string string bool
  | VReset

fun vfs_step :: "'e \<Rightarrow> 'e fs \<Rightarrow> vfs_op \<Rightarrow> ('e fs \<times> vfs_error option) option" where
  "vfs_step e f (VWrite cwd p data) = Some (fs_WriteFile e f (Resolve cwd p) data)"
| "vfs_step e f (VTouch cwd p) = Some (fs_Touch e f (Resolve cwd p))"
| "vfs_step e f (VMkdir cwd p parents) = Some (fs_Mkdir e f (Resolve cwd p) parents)"
| "vfs_step e f (VRemove cwd p recursive) = fs_Remove e f (Resolve cwd p) recursive"
| "vfs_step e f VReset = Some (fs_Reset f, None)"

fun vfs_run :: "'e fs \<Rightarrow> ('e \<times> vfs_op) list \<Rightarrow> 'e fs option" where
  "vfs_run f [] = Some f"
| "vfs_run f ((e, op) # ops) =
     (case vfs_step e f op of Some (f', _) \<Rightarrow> vfs_run f' ops | None \<Rightarrow> None)"

lemma Resolve_cases: "clean_abs (Resolve cwd p) \<or> Resolve cwd p = []"
  using Resolve_clean [of p cwd] by (auto simp: Resolve_def)

lemma store_file_cfg: "cfg (fst (store_file e f p old data)) = cfg f"
  by (simp add: store_file_def)

lemma WriteFile_cfg [simp]: "cfg (fst (fs_WriteFile e f p data)) = cfg f"
  by (simp add: fs_WriteFile_def store_file_cfg split: option.split sum.split)

lemma Touch_cfg [simp]: "cfg (fst (fs_Touch e f p)) = cfg f"
  by (simp add: fs_Touch_def split: sum.split)

lemma make_dir_cfg [simp]: "cfg (fst (make_dir e f p)) = cfg f"
  by (simp add: make_dir_def split: option.split sum.split)

lemma Mkdir_cfg [simp]: "cfg (fst (fs_Mkdir e f p parents)) = cfg f"
proof (induction e f p parents rule: fs_Mkdir.induct)
  case (1 e f p parents)
  show ?case
  proof (cases "parents \<and> \<not> fs_IsDir e f p \<and> path_Dir p \<noteq> p \<and> \<not> fs_IsDir e f (path_Dir p)")
    case True
    obtain f1 r where m: "fs_Mkdir e f (path_Dir p) True = (f1, r)" by (cases "fs_Mkdir e f (path_Dir p) True")
    have "cfg f1 = cfg f" using 1 True m by simp
    with True m make_dir_cfg [of e f1 p] show ?thesis by (subst fs_Mkdir.simps) (simp split: option.split)
  qed (subst fs_Mkdir.simps, auto)
qed

definition limits_positive :: "'e fs \<Rightarrow> bool" where
  "limits_positive f \<longleftrightarrow> 0 < MaxEntries (cfg f) \<and> 0 < MaxBytes (cfg f)"

lemma vfs_step_inv:
  assumes "vfs_inv f" "conf f" "limits_positive f"
  shows "\<exists>f' r. vfs_step e f op = Some (f', r) \<and> vfs_inv f' \<and> cfg f' = cfg f"
proof (cases op)
  case (VWrite cwd p data)
  then show ?thesis using WriteFile_inv [OF assms(1) Resolve_cases]
    by (metis WriteFile_cfg prod.collapse vfs_step.simps(1))
next
  case (VTouch cwd p)
  then show ?thesis using Touch_inv [OF assms(1) Resolve_cases]
    by (metis Touch_cfg prod.collapse vfs_step.simps(2))
next
  case (VMkdir cwd p parents)
  then show ?thesis using Mkdir_inv [OF assms(1) Resolve_cases]
    by (metis Mkdir_cfg prod.collapse vfs_step.simps(3))
next
  case (VRemove cwd p recursive)
  obtain f' r where r: "fs_Remove e f (Resolve cwd p) recursive = Some (f', r)"
      "Resolve cwd p = [] \<longrightarrow> f' = f" "clean_abs (Resolve cwd p) \<longrightarrow> removes f (Resolve cwd p) (f', r)"
    using Remove_ends [OF assms(1,2) Resolve_cases] by blast
  then have "vfs_inv f'" "cfg f' = cfg f"
    using assms(1) Resolve_cases [of cwd p] prunedD [of f f' "Resolve cwd p"] by (auto simp: removes_def)
  with r(1) VRemove show ?thesis by simp
next
  case VReset
  with vfs_inv_Reset [of f] assms(3) show ?thesis by (simp add: limits_positive_def fs_Reset_def)
qed

lemma vfs_run_inv:
  "vfs_inv f \<Longrightarrow> conf f \<Longrightarrow> limits_positive f \<Longrightarrow> \<exists>f'. vfs_run f ops = Some f' \<and> vfs_inv f' \<and> cfg f' = cfg f"
proof (induction f ops rule: vfs_run.induct)
  case (2 f e op ops)
  obtain f1 r where s: "vfs_step e f op = Some (f1, r)" "vfs_inv f1" "cfg f1 = cfg f"
    using vfs_step_inv [OF 2(2-4)] by blast
  have "conf f1" "limits_positive f1" using s(3) 2(3,4) same_conf [of f1 f] by (simp_all add: limits_positive_def)
  from "2.IH" [OF s(1) refl s(2) this] s show ?case by auto
qed simp

lemma limits_New: "limits_positive (fs_New c)"
  by (simp add: limits_positive_def fs_New_def fs_Reset_def Let_def DefaultMaxEntries_def DefaultMaxBytes_def)

section \<open>The tree as the shell uses it\<close>

text \<open>Removal at the depth that is always enough; a tree that ran out of it would stay as it is.\<close>

definition remove_total :: "'e \<Rightarrow> string \<Rightarrow> bool \<Rightarrow> 'e fs \<Rightarrow> 'e fs \<times> vfs_error option" where
  "remove_total e p recursive f =
     (case fs_Remove e f p recursive of Some res \<Rightarrow> res | None \<Rightarrow> (f, Some ErrInvalid))"

text \<open>
  What a command relies on when it changes files: whatever path it resolves, the tree stays sound and keeps
  its configuration.
\<close>

locale file_tree =
  fixes ok :: "'f \<Rightarrow> bool"
    and config :: "'f \<Rightarrow> 'c"
    and touch :: "string \<Rightarrow> 'f \<Rightarrow> 'f \<times> vfs_error option"
    and mkdir :: "bool \<Rightarrow> string \<Rightarrow> 'f \<Rightarrow> 'f \<times> vfs_error option"
    and remove :: "bool \<Rightarrow> string \<Rightarrow> 'f \<Rightarrow> 'f \<times> vfs_error option"
  assumes touch_law: "ok f \<Longrightarrow> ok (fst (touch (Resolve d p) f)) \<and> config (fst (touch (Resolve d p) f)) = config f"
    and mkdir_law: "ok f \<Longrightarrow> ok (fst (mkdir b (Resolve d p) f)) \<and> config (fst (mkdir b (Resolve d p) f)) = config f"
    and remove_law: "ok f \<Longrightarrow> ok (fst (remove b (Resolve d p) f)) \<and> config (fst (remove b (Resolve d p) f)) = config f"
begin

lemma touch_ok: "ok f \<Longrightarrow> ok (fst (touch (Resolve d p) f))" "ok f \<Longrightarrow> config (fst (touch (Resolve d p) f)) = config f"
  using touch_law by blast+

lemma mkdir_ok: "ok f \<Longrightarrow> ok (fst (mkdir b (Resolve d p) f))" "ok f \<Longrightarrow> config (fst (mkdir b (Resolve d p) f)) = config f"
  using mkdir_law by blast+

lemma remove_ok: "ok f \<Longrightarrow> ok (fst (remove b (Resolve d p) f))" "ok f \<Longrightarrow> config (fst (remove b (Resolve d p) f)) = config f"
  using remove_law by blast+

end

lemma remove_total_keeps:
  assumes "vfs_inv f" "conf f" "clean_abs p \<or> p = []"
  shows "vfs_inv (fst (remove_total e p recursive f)) \<and> cfg (fst (remove_total e p recursive f)) = cfg f"
proof -
  obtain f' r where r: "fs_Remove e f p recursive = Some (f', r)" "p = [] \<longrightarrow> f' = f" "clean_abs p \<longrightarrow> removes f p (f', r)"
    using Remove_ends [OF assms] by blast
  have "vfs_inv f' \<and> cfg f' = cfg f"
    using r assms(1,3) prunedD [of f f' p] by (auto simp: removes_def)
  with r(1) show ?thesis by (simp add: remove_total_def)
qed

interpretation vfs: file_tree "\<lambda>f. vfs_inv f \<and> conf f" cfg "\<lambda>p f. fs_Touch e f p" "\<lambda>b p f. fs_Mkdir e f p b"
  "\<lambda>b p f. remove_total e p b f" for e :: 'e
proof
  fix f :: "'e fs" and d p b
  assume ok: "vfs_inv f \<and> conf f"
  then have inv: "vfs_inv f" "conf f" by simp_all
  show "(vfs_inv (fst (fs_Touch e f (Resolve d p))) \<and> conf (fst (fs_Touch e f (Resolve d p)))) \<and> cfg (fst (fs_Touch e f (Resolve d p))) = cfg f"
    using inv Touch_inv [OF inv(1) Resolve_cases] same_conf [OF Touch_cfg, of e f "Resolve d p"] by simp
  show "(vfs_inv (fst (fs_Mkdir e f (Resolve d p) b)) \<and> conf (fst (fs_Mkdir e f (Resolve d p) b))) \<and> cfg (fst (fs_Mkdir e f (Resolve d p) b)) = cfg f"
    using inv Mkdir_inv [OF inv(1) Resolve_cases] same_conf [OF Mkdir_cfg, of e f "Resolve d p" b] by simp
  show "(vfs_inv (fst (remove_total e (Resolve d p) b f)) \<and> conf (fst (remove_total e (Resolve d p) b f))) \<and> cfg (fst (remove_total e (Resolve d p) b f)) = cfg f"
    using inv remove_total_keeps [OF inv Resolve_cases] same_conf [of "fst (remove_total e (Resolve d p) b f)" f] by simp
qed

section \<open>What a reader sees\<close>

text \<open>A file's content depends on the layer that holds it.\<close>

lemma ReadFile_ro:
  assumes "cfg f' = cfg f" "p \<notin> overlay f" "p \<notin> overlay f'"
  shows "fs_ReadFile e f' p = fs_ReadFile e f p"
proof -
  have "map_of (files f) p = None" "p \<notin> set (dirs f)" "map_of (files f') p = None" "p \<notin> set (dirs f')"
    using assms(2,3) file_in_overlay [of f p] file_in_overlay [of f' p] by (auto simp: overlay_def)
  then show ?thesis
    using assms(1) same_cfg [OF assms(1)]
    by (simp add: fs_ReadFile_def fs_Stat_def isExtraDir_def generatedParent_def Let_def
        split: option.split prod.split)
qed

lemma store_file_ok:
  "store_file e f p old data = (f', None) \<Longrightarrow> files f' = AList.update p data (files f) \<and> dirs f' = dirs f \<and> cfg f' = cfg f"
  by (auto simp: store_file_def split: if_splits)

lemma WriteFile_ok:
  assumes "fs_WriteFile e f p data = (f', None)" "vfs_inv f"
  shows "files f' = AList.update p data (files f) \<and> dirs f' = dirs f \<and> cfg f' = cfg f \<and> p \<noteq> [] \<and>
    p \<notin> set (dirs f)"
proof (cases "map_of (files f) p")
  case (Some old)
  then have "p \<in> overlay f" "p \<in> fst ` set (files f)" using file_in_overlay [of f p] by (auto simp: overlay_def)
  with vfs_invD(3) [OF assms(2)] vfs_invD(5) [OF assms(2), of p] have "p \<noteq> []" "p \<notin> set (dirs f)"
    by (auto simp: placed_def clean_abs_def)
  with Some assms(1) store_file_ok [of e f p old data f'] show ?thesis by (simp add: fs_WriteFile_def)
next
  case None
  then obtain err where st: "fs_Stat e f p = Inl err" "checkCreate e f p = None" "store_file e f p [] data = (f', None)"
    using assms(1) by (auto simp: fs_WriteFile_def split: sum.splits option.splits)
  then have "p \<noteq> []" by (auto simp: checkCreate_def)
  with st store_file_ok [OF st(3)] show ?thesis by (simp add: Stat_error overlay_def)
qed

lemma ReadFile_overlay:
  "map_of (files f) p = Some data \<Longrightarrow> p \<noteq> [] \<Longrightarrow>
   fs_ReadFile e f p = (if is_private f p then Inl ErrPermission else Inr data)"
  by (simp add: fs_ReadFile_def fs_Stat_def)

lemma ReadFile_same:
  assumes "cfg f' = cfg f" "map_of (files f') q = map_of (files f) q" "q \<in> set (dirs f') \<longleftrightarrow> q \<in> set (dirs f)"
  shows "fs_ReadFile e f' q = fs_ReadFile e f q"
  using assms same_cfg [OF assms(1)]
  by (simp add: fs_ReadFile_def fs_Stat_def isExtraDir_def generatedParent_def Let_def
      split: option.split prod.split)

lemma Stat_same:
  assumes "cfg f' = cfg f" "same_at f f' q"
  shows "fs_Stat e f' q = fs_Stat e f q"
proof -
  have "owner f' q = owner f q" "mode f' q b = mode f q b" "isExtraDir f' q = isExtraDir f q"
    "generatedParent f' q = generatedParent f q" for b
    using assms same_cfg [OF assms(1)]
    by (simp_all add: same_at_def owner_def mode_def isExtraDir_def generatedParent_def)
  with assms show ?thesis unfolding fs_Stat_def same_at_def Let_def by (simp split: option.split)
qed

section \<open>A small tree\<close>

definition demo_config :: "unit vfs_config" where
  "demo_config =
     \<lparr>Base = None, ExtraDirs = [''/'', ''/home'', ''/home/u''], Static = [], Generated = [], User = ''u'',
      Home = ''/home/u'', Writable = [''/home/u''], Private = [], BaseTime = 0, Now = (\<lambda>_. 7),
      MaxEntries = 3, MaxBytes = 10\<rparr>"

lemma demo_New: "fs_New demo_config = \<lparr>cfg = demo_config, files = [], dirs = [], mtime = [], used = 0\<rparr>"
  by (simp add: fs_New_def fs_Reset_def demo_config_def)

lemma demo_fields:
  "ExtraDirs demo_config = [''/'', ''/home'', ''/home/u'']" "Static demo_config = []" "Generated demo_config = []"
  "Base demo_config = None" "Private demo_config = []" "MaxBytes demo_config = 10"
  by (simp_all add: demo_config_def)

lemma demo_conf: "conf (fs_New demo_config)"
proof -
  let ?f = "fs_New demo_config"
  have dirs: "path_Dir ''/home'' = ''/''" "path_Dir ''/home/u'' = ''/home''" by code_simp+
  have clean: "clean_abs ''/''" "clean_abs ''/home''" "clean_abs ''/home/u''" by code_simp+
  have "ro_entry ?f p \<longleftrightarrow> p \<in> {''/'', ''/home'', ''/home/u''}" for p
    by (auto simp: demo_New ro_entry_def isExtraDir_def demo_fields base_entry_def generatedParent_def)
  moreover have "ro_dir ?f p" if "p \<in> {''/'', ''/home'', ''/home/u''}" for p
    using that by (auto simp: demo_New ro_dir_def isExtraDir_def demo_fields)
  ultimately have "base_tree ?f" using dirs by (auto simp: base_tree_def)
  then show ?thesis
    using clean by (simp add: conf_def config_paths_def base_names_def demo_New demo_fields)
qed

definition demo_ops :: "(unit \<times> vfs_op) list" where
  "demo_ops = [((), VMkdir ''/home/u'' ''d'' False), ((), VWrite ''/home/u/d'' ''../d/a'' ''xy'')]"

definition demo_tree :: "unit fs" where
  "demo_tree = (case vfs_run (fs_New demo_config) demo_ops of Some f \<Rightarrow> f | None \<Rightarrow> fs_New demo_config)"

lemma demo_tree_inv: "vfs_inv demo_tree" "conf demo_tree"
proof -
  from vfs_run_inv [OF vfs_inv_New demo_conf limits_New, of demo_ops]
  have "vfs_inv demo_tree \<and> cfg demo_tree = cfg (fs_New demo_config)" by (auto simp: demo_tree_def)
  then show "vfs_inv demo_tree" "conf demo_tree" using same_conf [of demo_tree "fs_New demo_config"] demo_conf by simp_all
qed

section \<open>Properties\<close>

text \<open>
  C22. Whatever a session does to its file tree, every operation returns, the overlay stays within its quota of
  bytes and entries with the byte counter exact, every entry it holds lies in a directory the user may write
  to (and may read), and every file of the read-only layers still reads as it did in the fresh tree.
\<close>

theorem vfs_overlay_contained:
  assumes "conf (fs_New c)"
  shows "\<exists>f. vfs_run (fs_New c) ops = Some f \<and>
    used f = stored f \<and> stored f \<le> MaxBytes (cfg (fs_New c)) \<and>
    int (length (files f)) + int (length (dirs f)) \<le> MaxEntries (cfg (fs_New c)) \<and>
    (\<forall>p. p \<in> overlay f \<longrightarrow> clean_abs p \<and> writable (fs_New c) (path_Dir p) \<and> \<not> is_private (fs_New c) (path_Dir p)) \<and>
    (\<forall>e p. ro_entry (fs_New c) p \<longrightarrow> fs_ReadFile e f p = fs_ReadFile e (fs_New c) p)"
proof -
  obtain f where f: "vfs_run (fs_New c) ops = Some f" "vfs_inv f" "cfg f = cfg (fs_New c)"
    using vfs_run_inv [OF vfs_inv_New assms limits_New] by blast
  note same = same_cfg [OF f(3)] and D = vfs_invD [OF f(2)]
  have "fs_ReadFile e f p = fs_ReadFile e (fs_New c) p" if "ro_entry (fs_New c) p" for e p
  proof (rule ReadFile_ro [OF f(3)])
    show "p \<notin> overlay (fs_New c)" by (simp add: overlay_def fs_New_def fs_Reset_def Let_def)
    show "p \<notin> overlay f" using that D(5) [of p] same by (auto simp: placed_def)
  qed
  with f D(4,5) same show ?thesis by (auto simp: within_quota_def placed_def)
qed

theorem vfs_overlay_contained_witness:
  "\<exists>f. vfs_run (fs_New demo_config) demo_ops = Some f \<and> stored f \<le> 10"
  using vfs_overlay_contained [OF demo_conf, of demo_ops]
  by (auto simp: demo_New demo_fields)

text \<open>
  C23. A successful write is read back exactly (unless only root may read that path), and every other path reads
  as before; a refused write changes nothing.
\<close>

theorem vfs_write_read:
  assumes "vfs_inv f"
  shows "(fs_WriteFile e f p data = (f', None) \<longrightarrow>
      fs_ReadFile e' f' p = (if is_private f p then Inl ErrPermission else Inr data) \<and>
      (\<forall>q. q \<noteq> p \<longrightarrow> fs_ReadFile e' f' q = fs_ReadFile e' f q))
    \<and> (fs_WriteFile e f p data = (f', Some err) \<longrightarrow> f' = f)"
proof (intro conjI impI allI)
  assume w: "fs_WriteFile e f p data = (f', None)"
  note W = WriteFile_ok [OF w assms]
  have "is_private f' = is_private f" using same_cfg(3) [of f' f] W by simp
  then show "fs_ReadFile e' f' p = (if is_private f p then Inl ErrPermission else Inr data)"
    using ReadFile_overlay [of f' p data] W by simp
  show "fs_ReadFile e' f' q = fs_ReadFile e' f q" if "q \<noteq> p" for q
    by (rule ReadFile_same) (use W that in simp_all)
next
  assume "fs_WriteFile e f p data = (f', Some err)"
  then show "f' = f" by (auto simp: fs_WriteFile_def store_file_def split: option.splits sum.splits if_splits)
qed

theorem vfs_write_read_witness:
  "fs_ReadFile () (fst (fs_WriteFile () demo_tree ''/home/u/b'' ''hello'')) ''/home/u/b'' = Inr ''hello''"
proof -
  have "snd (fs_WriteFile () demo_tree ''/home/u/b'' ''hello'') = None" "\<not> is_private demo_tree ''/home/u/b''" by code_simp+
  then show ?thesis
    using vfs_write_read [OF demo_tree_inv(1), of "()" "''/home/u/b''" "''hello''" "fst (fs_WriteFile () demo_tree ''/home/u/b'' ''hello'')" "()" ErrExist]
    by (metis prod.collapse)
qed

text \<open>
  C24. Removal always ends, at a depth the number of overlay directories bounds, and only touches the subtree it
  is asked for: every other path keeps its attributes and content.  When it succeeds, nothing of the
  subtree is left in the overlay.
\<close>

theorem vfs_remove_subtree:
  assumes "vfs_inv f" "conf f" "clean_abs p"
  shows "\<exists>f' r. fs_Remove e f p recursive = Some (f', r) \<and> vfs_inv f' \<and>
    (r = None \<longrightarrow> (\<forall>q. q \<in> overlay f' \<longrightarrow> \<not> under q p)) \<and>
    (\<forall>e' q. clean_abs q \<longrightarrow> \<not> under q p \<longrightarrow>
       fs_Stat e' f' q = fs_Stat e' f q \<and> fs_ReadFile e' f' q = fs_ReadFile e' f q)"
proof -
  obtain f' r where r: "fs_Remove e f p recursive = Some (f', r)" "removes f p (f', r)"
    using Remove_ends [OF assms(1,2) disjI1 [OF assms(3)], of e recursive] assms(3) by blast
  then have P: "pruned f f' p" "r = None \<longrightarrow> (\<forall>q \<in> overlay f'. \<not> under q p)" by (simp_all add: removes_def)
  have "fs_Stat e' f' q = fs_Stat e' f q \<and> fs_ReadFile e' f' q = fs_ReadFile e' f q"
    if "clean_abs q" "\<not> under q p" for e' q
  proof -
    have s: "same_at f f' q" using P(1) that by (simp add: pruned_def)
    with Stat_same [OF prunedD(2) [OF P(1)]] ReadFile_same [OF prunedD(2) [OF P(1)]] show ?thesis
      by (simp add: same_at_def)
  qed
  with r(1) P prunedD(1) [OF P(1)] show ?thesis by blast
qed

theorem vfs_remove_subtree_witness:
  "\<exists>f'. fs_Remove () demo_tree ''/home/u/d'' True = Some (f', None) \<and> ''/home/u/d/a'' \<notin> overlay f'"
proof -
  have "map_option snd (fs_Remove () demo_tree ''/home/u/d'' True) = Some None" "clean_abs ''/home/u/d''"
    "under ''/home/u/d/a'' ''/home/u/d''" by code_simp+
  with vfs_remove_subtree [OF demo_tree_inv, of "''/home/u/d''" "()" True] show ?thesis by fastforce
qed

text \<open>
  C25. No path climbs out of the tree: a resolved path is absolute and clean, has no \<^verbatim>\<open>.\<close>, \<^verbatim>\<open>..\<close> or empty
  component, lies under the root, and resolves to itself from anywhere.
\<close>

theorem vfs_resolve_confined:
  assumes "CHR 0x00 \<notin> set p" "CHR 0x00 \<notin> set cwd"
  shows "(\<exists>cs. Resolve cwd p = abs_path cs \<and> list_all good_comp cs) \<and> under (Resolve cwd p) ''/'' \<and>
    Resolve cwd' (Resolve cwd p) = Resolve cwd p"
proof -
  have c: "clean_abs (Resolve cwd p)" by (rule Resolve_clean [OF assms(1)])
  have "CHR 0x00 \<notin> set (Resolve cwd p)"
    using set_path_Clean [of "if HasPrefix p [slash] then p else cwd @ [slash] @ p"] assms
    by (auto simp: Resolve_def split: if_splits)
  with Resolve_clean_id [OF c] c show ?thesis by (auto simp: clean_abs_iff under_def)
qed

theorem vfs_resolve_confined_witness:
  "Resolve ''/tmp'' (Resolve ''/home/u'' ''../../../etc/./passwd'') = ''/etc/passwd''"
proof -
  have "Resolve ''/home/u'' ''../../../etc/./passwd'' = ''/etc/passwd''" by code_simp
  then show ?thesis
    using vfs_resolve_confined [of "''../../../etc/./passwd''" "''/home/u''" "''/tmp''"] by simp
qed

end
