(* ===== verification/Line_Editor.thy ===== *)
theory Line_Editor
  imports Key_Decoder Go_Strings
begin

text \<open>
  The line editor of the fake terminal, \<^verbatim>\<open>src/fakeshell/term/editor.go\<close>.

  \<^verbatim>\<open>ReadLine\<close> waits for keys, the idle timer and its context; each is one event of the model, which carries the
  window's width at that moment (\<^verbatim>\<open>Width\<close> is called once per redraw).  \<open>edClear\<close> says whether that callback is
  set, \<open>Complete\<close> is the completion function.  What goes to \<^verbatim>\<open>Out\<close> and the calls of \<^verbatim>\<open>Clear\<close> are collected in order.
\<close>

section \<open>State\<close>

datatype read_error = EOF | ErrInterrupt | ErrIdle | CtxDone

definition DefaultMaxLen :: nat where "DefaultMaxLen = 1024"
definition maxHistory :: nat where "maxHistory = 200"

type_synonym completer = "rune list \<Rightarrow> nat \<Rightarrow> rune list \<times> int \<times> string list"

record editor_config =
  edClear :: bool
  MaxLen :: int
  Complete :: "completer option"

datatype editor_out = EOut bytes | EClear

record editor =
  history :: "string list"
  cursorRow :: nat
  out :: "editor_out list"

definition editor_New :: editor where
  "editor_New = \<lparr>history = [], cursorRow = 0, out = []\<rparr>"

definition ResetHistory :: "editor \<Rightarrow> editor" where
  "ResetHistory e = e\<lparr>history := []\<rparr>"

definition addHistory :: "editor \<Rightarrow> string \<Rightarrow> editor" where
  "addHistory e line =
     (if TrimSpace line = [] then e
      else if history e \<noteq> [] \<and> last (history e) = line then e
      else
        let h = history e @ [line]
        in e\<lparr>history := (if length h > maxHistory then drop (length h - maxHistory) h else h)\<rparr>)"

text \<open>\<open>None\<close> stands for a nil \<^verbatim>\<open>Width\<close>.\<close>

definition editor_width :: "int option \<Rightarrow> nat" where
  "editor_width wd = (case wd of Some w \<Rightarrow> if w > 0 then nat w else 80 | None \<Rightarrow> 80)"

definition max_len :: "editor_config \<Rightarrow> nat" where
  "max_len c = (if MaxLen c \<le> 0 then DefaultMaxLen else nat (MaxLen c))"

section \<open>Redrawing\<close>

text \<open>\<^verbatim>\<open>VisibleLen\<close>: the loop keeps whether it is inside an escape or a control sequence.\<close>

datatype esc_mode = PlainText | AfterEsc | InCSI

fun visible_step :: "esc_mode \<Rightarrow> rune \<Rightarrow> esc_mode \<times> nat" where
  "visible_step InCSI r = (if 0x40 \<le> r \<and> r \<le> 0x7e then PlainText else InCSI, 0)"
| "visible_step AfterEsc r = (if r = 0x5b then InCSI else PlainText, 0)"
| "visible_step PlainText r = (if r = 0x1b then AfterEsc else PlainText, if 0x20 \<le> r then 1 else 0)"

fun visible_runes :: "esc_mode \<Rightarrow> rune list \<Rightarrow> esc_mode \<times> nat" where
  "visible_runes m [] = (m, 0)"
| "visible_runes m (r # rs) =
     (let (m1, k) = visible_step m r; (m2, n) = visible_runes m1 rs in (m2, k + n))"

definition VisibleLen :: "string \<Rightarrow> nat" where
  "VisibleLen s = snd (visible_runes PlainText (runes_of_string s))"

text \<open>What is written to the terminal, piece by piece.\<close>

datatype piece =
    PRaw string
  | PText "rune list"
  | PUp nat
  | PRight nat
  | PCR
  | PLF
  | PErase

abbreviation CSI :: string where "CSI \<equiv> [CHR 0x1B, CHR 0x5B]"

fun piece_bytes :: "piece \<Rightarrow> bytes" where
  "piece_bytes (PRaw s) = s"
| "piece_bytes (PText rs) = string_of_runes rs"
| "piece_bytes (PUp n) = CSI @ show_nat n @ ''A''"
| "piece_bytes (PRight n) = CSI @ show_nat n @ ''C''"
| "piece_bytes PCR = [CHR 0x0D]"
| "piece_bytes PLF = [CHR 0x0A]"
| "piece_bytes PErase = CSI @ ''J''"

definition render_pieces :: "nat \<Rightarrow> nat \<Rightarrow> string \<Rightarrow> rune list \<Rightarrow> nat \<Rightarrow> piece list" where
  "render_pieces w row prompt line pos =
     (let plen = VisibleLen prompt;
          stop = plen + length line;
          target = plen + pos;
          endRow = stop div w; tRow = target div w; tCol = target mod w
      in (if row > 0 then [PUp row] else []) @ [PCR] @ [PRaw prompt, PText line] @
         (if stop > 0 \<and> stop mod w = 0 then [PCR, PLF] else []) @ [PErase] @
         (if endRow > tRow then [PUp (endRow - tRow)] else []) @ [PCR] @
         (if tCol > 0 then [PRight tCol] else []))"

definition render :: "int option \<Rightarrow> editor \<Rightarrow> string \<Rightarrow> rune list \<Rightarrow> nat \<Rightarrow> editor" where
  "render wd e prompt line pos =
     (let w = editor_width wd in
      e\<lparr>out := out e @ [EOut (concat (map piece_bytes (render_pieces w (cursorRow e) prompt line pos)))],
        cursorRow := (VisibleLen prompt + pos) div w\<rparr>)"

definition emit :: "editor \<Rightarrow> bytes \<Rightarrow> editor" where
  "emit e s = e\<lparr>out := out e @ [EOut s]\<rparr>"

section \<open>Reading a line\<close>

record reading =
  line :: "rune list"
  pos :: nat
  histIdx :: nat
  draft :: "rune list"

definition IsSpace :: "rune \<Rightarrow> bool" where
  "IsSpace r \<longleftrightarrow>
     r \<in> set [0x09, 0x0A, 0x0B, 0x0C, 0x0D, 0x20, 0x85, 0xA0, 0x1680, 0x2028, 0x2029, 0x202F, 0x205F, 0x3000] \<or>
     0x2000 \<le> r \<and> r \<le> 0x200A"

text \<open>The start of the word before the cursor (Ctrl-W).\<close>

fun skip_back :: "(rune \<Rightarrow> bool) \<Rightarrow> rune list \<Rightarrow> nat \<Rightarrow> nat" where
  "skip_back P rs 0 = 0"
| "skip_back P rs (Suc n) = (if P (rs ! n) then skip_back P rs n else Suc n)"

definition word_start :: "rune list \<Rightarrow> nat \<Rightarrow> nat" where
  "word_start rs p = skip_back (\<lambda>r. \<not> IsSpace r) rs (skip_back IsSpace rs p)"

datatype 'r key_result = Redraw 'r | Ignored | Finished "read_error + string"

definition line_start :: "editor \<Rightarrow> reading" where
  "line_start e = \<lparr>line = [], pos = 0, histIdx = length (history e), draft = []\<rparr>"

text \<open>
  One key.  \<open>Redraw\<close> is a case that falls out of the \<^verbatim>\<open>switch\<close> to the redraw below it, \<open>Ignored\<close> one that
  continues with the next key.
\<close>

definition read_key ::
    "editor_config \<Rightarrow> int option \<Rightarrow> string \<Rightarrow> editor \<Rightarrow> reading \<Rightarrow> key \<Rightarrow> editor \<times> reading key_result" where
  "read_key c wd prompt e s k =
     (if k = KeyEnter then
        let e1 = (emit (render wd e prompt (line s) (length (line s))) [CHR 0x0D, CHR 0x0A])\<lparr>cursorRow := 0\<rparr>;
            text = string_of_runes (line s)
        in (addHistory e1 text, Finished (Inr text))
      else if k = KeyCtrlC then
        let e1 = emit (render wd e prompt (line s) (length (line s))) (''^C'' @ [CHR 0x0D, CHR 0x0A])
        in (e1\<lparr>cursorRow := 0\<rparr>, Finished (Inl ErrInterrupt))
      else if k = KeyCtrlD \<and> line s = [] then
        ((emit e [CHR 0x0D, CHR 0x0A])\<lparr>cursorRow := 0\<rparr>, Finished (Inl EOF))
      else if k = KeyCtrlD \<or> k = KeyDelete then
        (e, Redraw (if pos s < length (line s)
                    then s\<lparr>line := take (pos s) (line s) @ drop (pos s + 1) (line s)\<rparr> else s))
      else if k = KeyBackspace then
        (e, Redraw (if pos s > 0
                    then s\<lparr>line := take (pos s - 1) (line s) @ drop (pos s) (line s), pos := pos s - 1\<rparr> else s))
      else if k = KeyLeft then (e, Redraw (if pos s > 0 then s\<lparr>pos := pos s - 1\<rparr> else s))
      else if k = KeyRight then (e, Redraw (if pos s < length (line s) then s\<lparr>pos := pos s + 1\<rparr> else s))
      else if k = KeyHome \<or> k = KeyCtrlA then (e, Redraw (s\<lparr>pos := 0\<rparr>))
      else if k = KeyEnd \<or> k = KeyCtrlE then (e, Redraw (s\<lparr>pos := length (line s)\<rparr>))
      else if k = KeyCtrlU then (e, Redraw (s\<lparr>line := drop (pos s) (line s), pos := 0\<rparr>))
      else if k = KeyCtrlK then (e, Redraw (s\<lparr>line := take (pos s) (line s)\<rparr>))
      else if k = KeyCtrlW then
        let start = word_start (line s) (pos s)
        in (e, Redraw (s\<lparr>line := take start (line s) @ drop (pos s) (line s), pos := start\<rparr>))
      else if k = KeyCtrlL then
        let e1 = (if edClear c then e\<lparr>out := out e @ [EClear]\<rparr> else emit e (CSI @ ''H'' @ CSI @ ''2J''))
        in (e1\<lparr>cursorRow := 0\<rparr>, Redraw s)
      else if k = KeyUp then
        if histIdx s = 0 then (e, Ignored)
        else
          let s1 = (if histIdx s = length (history e) then s\<lparr>draft := line s\<rparr> else s);
              i = histIdx s1 - 1;
              l = runes_of_string (history e ! i)
          in (e, Redraw (s1\<lparr>histIdx := i, line := l, pos := length l\<rparr>))
      else if k = KeyDown then
        if histIdx s \<ge> length (history e) then (e, Ignored)
        else
          let i = histIdx s + 1;
              l = (if i = length (history e) then draft s else runes_of_string (history e ! i))
          in (e, Redraw (s\<lparr>histIdx := i, line := l, pos := length l\<rparr>))
      else if k = KeyTab then
        (case Complete c of
           None \<Rightarrow> (e, Ignored)
         | Some complete \<Rightarrow>
             let (newLine, newPos, choices) = complete (line s) (pos s);
                 s1 = (if length newLine \<le> max_len c
                       then s\<lparr>line := newLine, pos := min (nat (max newPos 0)) (length newLine)\<rparr> else s);
                 e1 = (if choices \<noteq> []
                       then (emit (render wd e prompt (line s1) (length (line s1)))
                              ([CHR 0x0D, CHR 0x0A] @ Join choices ''  '' @ [CHR 0x0D, CHR 0x0A]))\<lparr>cursorRow := 0\<rparr>
                       else e)
             in (e1, Redraw s1))
      else if Printable k then
        if length (line s) \<ge> max_len c then (emit e [CHR 0x07], Ignored)
        else (e, Redraw (s\<lparr>line := take (pos s) (line s) @ [k] @ drop (pos s) (line s), pos := pos s + 1\<rparr>))
      else (e, Ignored))"

datatype read_event = EKey "int option" key | EClosed | EIdle | ECancel

text \<open>The loop, over the events of one call; \<open>None\<close> means it is still waiting.\<close>

fun read_loop ::
    "editor_config \<Rightarrow> string \<Rightarrow> editor \<Rightarrow> reading \<Rightarrow> read_event list \<Rightarrow>
     editor \<times> reading \<times> (read_error + string) option" where
  "read_loop c prompt e s [] = (e, s, None)"
| "read_loop c prompt e s (EClosed # evs) = (e, s, Some (Inl EOF))"
| "read_loop c prompt e s (EIdle # evs) = (e, s, Some (Inl ErrIdle))"
| "read_loop c prompt e s (ECancel # evs) = (e, s, Some (Inl CtxDone))"
| "read_loop c prompt e s (EKey wd k # evs) =
     (case read_key c wd prompt e s k of
        (e1, Redraw s1) \<Rightarrow> read_loop c prompt (render wd e1 prompt (line s1) (pos s1)) s1 evs
      | (e1, Ignored) \<Rightarrow> read_loop c prompt e1 s evs
      | (e1, Finished r) \<Rightarrow> (e1, s, Some r))"

definition ReadLine ::
    "editor_config \<Rightarrow> int option \<Rightarrow> string \<Rightarrow> editor \<Rightarrow> read_event list \<Rightarrow>
     editor \<times> reading \<times> (read_error + string) option" where
  "ReadLine c wd prompt e evs =
     (let e1 = render wd (e\<lparr>cursorRow := 0\<rparr>) prompt [] 0 in read_loop c prompt e1 (line_start e) evs)"

section \<open>Bounds\<close>

definition history_ok :: "nat \<Rightarrow> string list \<Rightarrow> bool" where
  "history_ok n h \<longleftrightarrow>
     length h \<le> maxHistory \<and> list_all (\<lambda>l. TrimSpace l \<noteq> [] \<and> length (runes_of_string l) \<le> n) h \<and> distinct_adj h"

definition reading_ok :: "nat \<Rightarrow> editor \<Rightarrow> reading \<Rightarrow> bool" where
  "reading_ok n e s \<longleftrightarrow>
     pos s \<le> length (line s) \<and> length (line s) \<le> n \<and> length (draft s) \<le> n \<and> histIdx s \<le> length (history e)"

lemma render_history [simp]: "history (render wd e prompt l p) = history e"
  by (simp add: render_def Let_def)

lemma emit_history [simp]: "history (emit e s) = history e"
  by (simp add: emit_def)

lemma skip_back_le: "skip_back P rs n \<le> n"
  by (induction n) (auto simp: le_Suc_eq)

lemma word_start_le: "word_start rs n \<le> n"
  unfolding word_start_def by (rule order_trans [OF skip_back_le skip_back_le])

lemma distinct_adj_drop: "distinct_adj xs \<Longrightarrow> distinct_adj (drop n xs)"
  by (metis append_take_drop_id distinct_adj_appendD2)

lemma addHistory_ok:
  assumes "history_ok n (history e)" "length (runes_of_string l) \<le> n"
  shows "history_ok n (history (addHistory e l))"
proof -
  have adj: "distinct_adj (history e @ [l])" if "history e = [] \<or> last (history e) \<noteq> l"
    using assms(1) that by (auto simp: history_ok_def distinct_adj_append_iff)
  have h: "list_all (\<lambda>l. TrimSpace l \<noteq> [] \<and> length (runes_of_string l) \<le> n) (drop m (history e @ [l]))"
    if "TrimSpace l \<noteq> []" for m
    using assms that by (auto simp: history_ok_def list_all_iff dest!: in_set_dropD)
  show ?thesis
  proof (cases "TrimSpace l = [] \<or> (history e \<noteq> [] \<and> last (history e) = l)")
    case True
    with assms(1) show ?thesis by (auto simp: addHistory_def)
  next
    case False
    let ?k = "length (history e @ [l]) - maxHistory"
    have "history (addHistory e l) = drop ?k (history e @ [l])"
      using False by (auto simp: addHistory_def Let_def)
    moreover have "length (drop ?k (history e @ [l])) \<le> maxHistory" by simp
    ultimately show ?thesis using False h [of ?k] distinct_adj_drop [OF adj] unfolding history_ok_def by metis
  qed
qed

lemma length_runes_of_runes [simp]: "length (runes_of_string (string_of_runes rs)) = length rs"
proof -
  let ?fix = "\<lambda>r. if valid_rune r then r else RuneError"
  have "EncodeRune (?fix r) = EncodeRune r" for r
    by (auto simp: EncodeRune_def valid_rune_def RuneError_def Let_def)
  then have "string_of_runes rs = string_of_runes (map ?fix rs)"
    by (simp add: string_of_runes_def comp_def)
  moreover have "list_all valid_rune (map ?fix rs)"
    by (auto simp: list_all_iff valid_rune_def RuneError_def MaxRune_def)
  ultimately show ?thesis using runes_of_string_of_runes by simp
qed


lemma history_ok_nth: "history_ok n h \<Longrightarrow> i < length h \<Longrightarrow> length (runes_of_string (h ! i)) \<le> n"
  by (simp add: history_ok_def list_all_length)

lemmas other_keys = key_defs Printable_def

lemma edits_ok:
  assumes "reading_ok n e s"
  shows "pos s < length (line s) \<Longrightarrow> reading_ok n e (s\<lparr>line := take (pos s) (line s) @ drop (Suc (pos s)) (line s)\<rparr>)"
    "0 < pos s \<Longrightarrow> reading_ok n e (s\<lparr>line := take (pos s - Suc 0) (line s) @ drop (pos s) (line s), pos := pos s - Suc 0\<rparr>)"
    "reading_ok n e (s\<lparr>pos := pos s - Suc 0\<rparr>)"
    "pos s < length (line s) \<Longrightarrow> reading_ok n e (s\<lparr>pos := Suc (pos s)\<rparr>)"
    "reading_ok n e (s\<lparr>pos := 0\<rparr>)"
    "reading_ok n e (s\<lparr>pos := length (line s)\<rparr>)"
    "reading_ok n e (s\<lparr>line := drop (pos s) (line s), pos := 0\<rparr>)"
    "reading_ok n e (s\<lparr>line := take (pos s) (line s)\<rparr>)"
    "reading_ok n e (s\<lparr>line := take (word_start (line s) (pos s)) (line s) @ drop (pos s) (line s), pos := word_start (line s) (pos s)\<rparr>)"
    "length (line s) < n \<Longrightarrow> reading_ok n e (s\<lparr>line := take (pos s) (line s) @ k # drop (pos s) (line s), pos := Suc (pos s)\<rparr>)"
    "reading_ok n ((emit e b)\<lparr>cursorRow := i\<rparr>) s"
  using assms word_start_le [of "line s" "pos s"] by (auto simp: reading_ok_def)

lemma read_key_ok:
  assumes "reading_ok (max_len c) e s" "history_ok (max_len c) (history e)" "read_key c wd prompt e s k = (e1, r)"
  shows "history_ok (max_len c) (history e1) \<and> (\<forall>s1. r = Redraw s1 \<longrightarrow> reading_ok (max_len c) e1 s1) \<and>
    ((\<forall>x. r \<noteq> Finished x) \<longrightarrow> history e1 = history e) \<and>
    (\<forall>t. r = Finished (Inr t) \<longrightarrow> k = KeyEnter \<and> t = string_of_runes (line s))"
proof -
  consider (enter) "k = KeyEnter" | (tab) "k = KeyTab" | (up) "k = KeyUp" | (down) "k = KeyDown"
    | (clear) "k = KeyCtrlL" | (other) "k \<noteq> KeyEnter" "k \<noteq> KeyTab" "k \<noteq> KeyCtrlL" "k \<noteq> KeyUp" "k \<noteq> KeyDown" by blast
  then show ?thesis
  proof cases
    case enter
    have "length (runes_of_string (string_of_runes (line s))) \<le> max_len c" using assms(1) by (simp add: reading_ok_def)
    with enter assms(2,3) addHistory_ok show ?thesis by (auto simp: read_key_def Let_def)
  next
    case tab
    with assms show ?thesis
      by (auto simp: read_key_def key_defs reading_ok_def Let_def split: option.splits prod.splits if_splits)
  next
    case up
    with assms history_ok_nth [of "max_len c" "history e" "histIdx s - 1"] show ?thesis
      by (auto simp: read_key_def key_defs reading_ok_def Let_def split: if_splits)
  next
    case down
    with assms history_ok_nth [of "max_len c" "history e" "histIdx s + 1"] show ?thesis
      by (auto simp: read_key_def key_defs reading_ok_def Let_def split: if_splits)
  next
    case clear
    with assms show ?thesis by (auto simp: read_key_def key_defs reading_ok_def Let_def split: if_splits)
  next
    case other
    with assms edits_ok [OF assms(1)] show ?thesis
      by (auto simp: read_key_def Let_def split: if_splits)
  qed
qed

lemma read_loop_ok:
  "reading_ok (max_len c) e s \<Longrightarrow> history_ok (max_len c) (history e) \<Longrightarrow> read_loop c prompt e s evs = (e', s', r) \<Longrightarrow>
   history_ok (max_len c) (history e') \<and> pos s' \<le> length (line s') \<and> length (line s') \<le> max_len c \<and>
   (\<forall>t. r = Some (Inr t) \<longrightarrow> t = string_of_runes (line s'))"
proof (induction c prompt e s evs rule: read_loop.induct)
  case (5 c prompt e s wd k evs)
  obtain e1 kr where k: "read_key c wd prompt e s k = (e1, kr)" by fastforce
  note K = read_key_ok [OF 5(3,4) k]
  show ?case
  proof (cases kr)
    case (Redraw s1)
    with K have "reading_ok (max_len c) (render wd e1 prompt (line s1) (pos s1)) s1" "history e1 = history e"
      by (auto simp: reading_ok_def)
    with 5 k Redraw show ?thesis by simp
  next
    case Ignored
    with K 5(3) have "reading_ok (max_len c) e1 s" "history e1 = history e" by (auto simp: reading_ok_def)
    with 5 k Ignored show ?thesis by simp
  next
    case (Finished x)
    with K 5(3,5) k show ?thesis by (auto simp: reading_ok_def)
  qed
qed (auto simp: reading_ok_def)

section \<open>Editing\<close>

text \<open>The reference: the text before the cursor and the text after it.\<close>

definition drop_word :: "rune list \<Rightarrow> rune list" where
  "drop_word l = rev (dropWhile (\<lambda>r. \<not> IsSpace r) (dropWhile IsSpace (rev l)))"

definition zip_key :: "nat \<Rightarrow> rune list \<times> rune list \<Rightarrow> key \<Rightarrow> rune list \<times> rune list" where
  "zip_key n z k =
     (case z of (l, r) \<Rightarrow>
        if k = KeyCtrlD \<or> k = KeyDelete then (l, tl r)
        else if k = KeyBackspace then (butlast l, r)
        else if k = KeyLeft then (if l = [] then z else (butlast l, last l # r))
        else if k = KeyRight then (if r = [] then z else (l @ [hd r], tl r))
        else if k = KeyHome \<or> k = KeyCtrlA then ([], l @ r)
        else if k = KeyEnd \<or> k = KeyCtrlE then (l @ r, [])
        else if k = KeyCtrlU then ([], r)
        else if k = KeyCtrlK then (l, [])
        else if k = KeyCtrlW then (drop_word l, r)
        else if Printable k \<and> length l + length r < n then (l @ [k], r)
        else z)"

definition edit_key :: "key \<Rightarrow> bool" where
  "edit_key k \<longleftrightarrow> k \<notin> {KeyEnter, KeyCtrlC, KeyCtrlD, KeyUp, KeyDown, KeyTab}"

definition zipper :: "reading \<Rightarrow> rune list \<times> rune list" where
  "zipper s = (take (pos s) (line s), drop (pos s) (line s))"

lemma skip_back_take:
  "n \<le> length rs \<Longrightarrow> take (skip_back P rs n) rs = rev (dropWhile P (rev (take n rs)))"
proof (induction n)
  case (Suc n)
  then have "take (Suc n) rs = take n rs @ [rs ! n]" by (simp add: take_Suc_conv_app_nth)
  with Suc show ?case by simp
qed simp

lemma take_word_start: "p \<le> length rs \<Longrightarrow> take (word_start rs p) rs = drop_word (take p rs)"
proof -
  assume p: "p \<le> length rs"
  let ?m = "skip_back IsSpace rs p"
  have "?m \<le> length rs" using skip_back_le [of IsSpace rs p] p by simp
  then show ?thesis
    unfolding word_start_def drop_word_def by (simp add: skip_back_take p)
qed

lemma zip_take_last:
  "0 < p \<Longrightarrow> p \<le> length rs \<Longrightarrow> last (take p rs) # drop p rs = drop (p - 1) rs"
  by (cases p) (simp_all add: take_Suc_conv_app_nth Cons_nth_drop_Suc)

lemma butlast_take_pos: "p \<le> length rs \<Longrightarrow> butlast (take p rs) = take (p - 1) rs"
  by (simp add: butlast_take)

text \<open>
  Away from the history and completion keys, a key acts on the text as it does on the reference.
\<close>

definition acts :: "editor \<Rightarrow> reading \<Rightarrow> rune list \<times> rune list \<Rightarrow> editor \<times> reading key_result \<Rightarrow> bool" where
  "acts e s z res \<longleftrightarrow>
     history (fst res) = history e \<and>
     (case snd res of Redraw s1 \<Rightarrow> zipper s1 = z | Ignored \<Rightarrow> zipper s = z | Finished _ \<Rightarrow> False)"

lemma read_key_zip:
  assumes ok: "reading_ok (max_len c) e s" and k: "edit_key k"
  shows "acts e s (zip_key (max_len c) (zipper s) k) (read_key c wd prompt e s k)"
proof -
  have p: "pos s \<le> length (line s)" using ok by (simp add: reading_ok_def)
  note model = acts_def read_key_def zip_key_def zipper_def Let_def
  consider "k = KeyDelete" | "k = KeyBackspace" | "k = KeyLeft" | "k = KeyRight" | "k = KeyHome \<or> k = KeyCtrlA"
    | "k = KeyEnd \<or> k = KeyCtrlE" | "k = KeyCtrlU" | "k = KeyCtrlK" | "k = KeyCtrlW" | "k = KeyCtrlL"
    | (other) "k \<notin> {KeyDelete, KeyBackspace, KeyLeft, KeyRight, KeyHome, KeyCtrlA, KeyEnd, KeyCtrlE, KeyCtrlU,
        KeyCtrlK, KeyCtrlW, KeyCtrlL}"
    by blast
  then show ?thesis
  proof cases
    case 1
    then show ?thesis using p by (auto simp: model key_defs tl_drop drop_Suc)
  next
    case 2
    then show ?thesis using p by (auto simp: model key_defs butlast_take_pos)
  next
    case 3
    then show ?thesis using p by (auto simp: model key_defs butlast_take_pos zip_take_last)
  next
    case 4
    then show ?thesis using p
      by (auto simp: model key_defs take_Suc_conv_app_nth hd_drop_conv_nth tl_drop drop_Suc)
  next
    case 9
    have "word_start (line s) (pos s) \<le> length (line s)" using word_start_le [of "line s" "pos s"] p by linarith
    with 9 p show ?thesis by (simp add: model key_defs take_word_start [OF p, symmetric])
  next
    case other
    then show ?thesis using k p by (auto simp: model edit_key_def)
  qed (use p in \<open>auto simp: model key_defs Printable_def emit_def\<close>)
qed

lemma read_loop_zip:
  "reading_ok (max_len c) e s \<Longrightarrow> history_ok (max_len c) (history e) \<Longrightarrow> list_all edit_key (map snd wks) \<Longrightarrow>
   \<exists>e1 s1. read_loop c prompt e s (map (\<lambda>(wd, k). EKey wd k) wks @ rest) = read_loop c prompt e1 s1 rest \<and>
     zipper s1 = foldl (zip_key (max_len c)) (zipper s) (map snd wks) \<and> history e1 = history e"
proof (induction wks arbitrary: e s)
  case (Cons wk wks)
  obtain wd k where wk: "wk = (wd, k)" by fastforce
  obtain e1 r where k: "read_key c wd prompt e s k = (e1, r)" by fastforce
  note K = read_key_ok [OF Cons.prems(1,2) k]
  have act: "acts e s (zip_key (max_len c) (zipper s) k) (e1, r)"
    using read_key_zip [OF Cons.prems(1), of k wd prompt] Cons.prems(3) wk k by simp
  show ?case
  proof (cases r)
    case (Redraw s1)
    let ?e = "render wd e1 prompt (line s1) (pos s1)"
    have "reading_ok (max_len c) ?e s1" using K Redraw by (auto simp: reading_ok_def)
    from Cons.IH [OF this] K act Redraw k wk Cons.prems(3) show ?thesis by (auto simp: acts_def)
  next
    case Ignored
    then have "reading_ok (max_len c) e1 s" using Cons.prems(1) act by (simp add: reading_ok_def acts_def)
    from Cons.IH [OF this] K act Ignored k wk Cons.prems(3) show ?thesis by (auto simp: acts_def)
  qed (use act in \<open>simp add: acts_def\<close>)
qed (auto)

section \<open>Where the cursor is\<close>

text \<open>
  A terminal of width \<open>w\<close> as far as the cursor goes: rows counted from the prompt's first row, the column, and
  whether the cursor hangs at the right margin after a character written to the last column.  Every visible
  rune takes one column, and control sequences inside text only change colours.
\<close>

record cursor =
  crow :: nat
  ccol :: nat
  hanging :: bool

definition put_rune :: "nat \<Rightarrow> cursor \<Rightarrow> cursor" where
  "put_rune w t =
     (let t1 = (if hanging t then t\<lparr>crow := crow t + 1, ccol := 0\<rparr> else t) in
      if ccol t1 + 1 < w then t1\<lparr>ccol := ccol t1 + 1, hanging := False\<rparr> else t1\<lparr>hanging := True\<rparr>)"

fun put_runes :: "nat \<Rightarrow> esc_mode \<Rightarrow> cursor \<Rightarrow> rune list \<Rightarrow> cursor" where
  "put_runes w m t [] = t"
| "put_runes w m t (r # rs) =
     (let (m1, k) = visible_step m r in put_runes w m1 (if k = 1 then put_rune w t else t) rs)"

fun put_piece :: "nat \<Rightarrow> cursor \<Rightarrow> piece \<Rightarrow> cursor" where
  "put_piece w t (PRaw s) = put_runes w PlainText t (runes_of_string s)"
| "put_piece w t (PText rs) = put_runes w PlainText t rs"
| "put_piece w t (PUp n) = t\<lparr>crow := crow t - n, hanging := False\<rparr>"
| "put_piece w t (PRight n) = t\<lparr>ccol := min (w - 1) (ccol t + n), hanging := False\<rparr>"
| "put_piece w t PCR = t\<lparr>ccol := 0, hanging := False\<rparr>"
| "put_piece w t PLF = t\<lparr>crow := crow t + 1, hanging := False\<rparr>"
| "put_piece w t PErase = t"

text \<open>The cursor after \<open>n\<close> visible runes from the start of the first row.\<close>

definition after_runes :: "nat \<Rightarrow> nat \<Rightarrow> cursor" where
  "after_runes w n =
     (if 0 < n \<and> n mod w = 0 then \<lparr>crow = n div w - 1, ccol = w - 1, hanging = True\<rparr>
      else \<lparr>crow = n div w, ccol = n mod w, hanging = False\<rparr>)"

lemma put_rune_after: "0 < w \<Longrightarrow> put_rune w (after_runes w n) = after_runes w (Suc n)"
proof -
  assume w: "0 < w"
  show ?thesis
  proof (cases "Suc n mod w = 0")
    case True
    then have "n mod w = w - 1" "Suc n div w = Suc (n div w)" using w by (auto simp: mod_Suc div_Suc split: if_splits)
    with True w show ?thesis
      by (cases "w = 1") (auto simp: put_rune_def after_runes_def Let_def)
  next
    case False
    then have "Suc n mod w = Suc (n mod w)" "Suc n div w = n div w" by (auto simp: mod_Suc div_Suc split: if_splits)
    moreover have "Suc (n mod w) < w" using calculation w by (metis mod_less_divisor)
    moreover have "0 < n \<Longrightarrow> n mod w = 0 \<Longrightarrow> 0 < n div w" using w by (auto simp: div_greater_zero_iff dest: dvd_imp_le)
    ultimately show ?thesis using w by (auto simp: put_rune_def after_runes_def Let_def)
  qed
qed

lemma put_runes_after:
  "0 < w \<Longrightarrow> put_runes w m (after_runes w n) rs = after_runes w (n + snd (visible_runes m rs))"
proof (induction rs arbitrary: m n)
  case (Cons r rs)
  obtain m1 k where v: "visible_step m r = (m1, k)" by fastforce
  have "k \<le> 1" using v by (cases m) (auto split: if_splits)
  then consider "k = 0" | "k = 1" by linarith
  then show ?case using Cons v by cases (auto simp: put_rune_after split: prod.split)
qed simp

lemma visible_printable: "list_all Printable rs \<Longrightarrow> visible_runes PlainText rs = (PlainText, length rs)"
  by (induction rs) (auto simp: Printable_def)

lemma render_cursor:
  assumes "0 < w" "crow t = row" "p \<le> length l" "list_all Printable l"
  shows "foldl (put_piece w) t (render_pieces w row prompt l p) =
    \<lparr>crow = (VisibleLen prompt + p) div w, ccol = (VisibleLen prompt + p) mod w, hanging = False\<rparr>"
proof -
  let ?n = "VisibleLen prompt + length l" and ?m = "VisibleLen prompt + p"
  have start: "foldl (put_piece w) t ((if row > 0 then [PUp row] else []) @ [PCR]) = after_runes w 0"
    using assms(1,2) by (cases t) (auto simp: after_runes_def)
  have written: "foldl (put_piece w) (after_runes w 0) [PRaw prompt, PText l] = after_runes w ?n"
    using assms(1,4) by (simp add: put_runes_after VisibleLen_def visible_printable)
  have wrap: "foldl (put_piece w) (after_runes w ?n) (if ?n > 0 \<and> ?n mod w = 0 then [PCR, PLF] else []) =
      \<lparr>crow = ?n div w, ccol = ?n mod w, hanging = False\<rparr>"
    using assms(1) by (auto simp: after_runes_def div_greater_zero_iff dest: dvd_imp_le)
  have le: "?m div w \<le> ?n div w" using assms(3) by (simp add: div_le_mono)
  have "?m mod w < w" using assms(1) by simp
  then have returned: "foldl (put_piece w) \<lparr>crow = ?n div w, ccol = ?n mod w, hanging = False\<rparr>
      ([PErase] @ (if ?n div w > ?m div w then [PUp (?n div w - ?m div w)] else []) @ [PCR] @
       (if ?m mod w > 0 then [PRight (?m mod w)] else [])) =
      \<lparr>crow = ?m div w, ccol = ?m mod w, hanging = False\<rparr>"
    using le by auto
  have "render_pieces w row prompt l p =
      ((if row > 0 then [PUp row] else []) @ [PCR]) @ [PRaw prompt, PText l] @
      (if ?n > 0 \<and> ?n mod w = 0 then [PCR, PLF] else []) @
      ([PErase] @ (if ?n div w > ?m div w then [PUp (?n div w - ?m div w)] else []) @ [PCR] @
       (if ?m mod w > 0 then [PRight (?m mod w)] else []))"
    by (simp add: render_pieces_def Let_def)
  then show ?thesis
    by (simp only: foldl_append [of _ _ "(if row > 0 then [PUp row] else []) @ [PCR]"] start
        foldl_append [of _ _ "[PRaw prompt, PText l]"] written
        foldl_append [of _ _ "if ?n > 0 \<and> ?n mod w = 0 then [PCR, PLF] else []"] wrap returned)
qed

section \<open>Properties\<close>

lemma line_start_ok: "reading_ok n e' (line_start e)" if "history e' = history e"
  using that by (simp add: reading_ok_def line_start_def)

text \<open>
  C30. Typing and editing do what the keys say: after any editing keys, at any window widths and however full the
  line gets, Enter returns exactly the text that inserting, deleting, moving and killing around a cursor
  leaves, as UTF-8.
\<close>

theorem readline_edits:
  assumes "history_ok (max_len c) (history e)" "list_all edit_key (map snd wks)"
  shows "snd (snd (ReadLine c wd prompt e (map (\<lambda>(wd, k). EKey wd k) wks @ [EKey wd' KeyEnter]))) =
    Some (Inr (string_of_runes (case foldl (zip_key (max_len c)) ([], []) (map snd wks) of (l, r) \<Rightarrow> l @ r)))"
proof -
  let ?e = "render wd (e\<lparr>cursorRow := 0\<rparr>) prompt [] 0"
  have ok: "reading_ok (max_len c) ?e (line_start e)" "history_ok (max_len c) (history ?e)"
    using assms(1) by (simp_all add: line_start_ok)
  obtain e1 s1 where run: "read_loop c prompt ?e (line_start e) (map (\<lambda>(wd, k). EKey wd k) wks @ [EKey wd' KeyEnter]) =
      read_loop c prompt e1 s1 [EKey wd' KeyEnter]"
    and z: "zipper s1 = foldl (zip_key (max_len c)) (zipper (line_start e)) (map snd wks)"
    using read_loop_zip [OF ok assms(2), of prompt "[EKey wd' KeyEnter]"] by blast
  have "zipper (line_start e) = ([], [])" by (simp add: zipper_def line_start_def)
  with z have "foldl (zip_key (max_len c)) ([], []) (map snd wks) = zipper s1" by simp
  then have "(case foldl (zip_key (max_len c)) ([], []) (map snd wks) of (l, r) \<Rightarrow> l @ r) = line s1"
    by (simp add: zipper_def)
  then show ?thesis by (simp add: ReadLine_def Let_def run read_key_def)
qed

theorem readline_edits_witness:
  "snd (snd (ReadLine \<lparr>edClear = True, MaxLen = 0, Complete = None\<rparr> None ''$ '' editor_New
     [EKey None 0x61, EKey None 0x62, EKey None KeyLeft, EKey None 0xE9, EKey None KeyEnter])) =
   Some (Inr (string_of_runes [0x61, 0xE9, 0x62]))"
proof -
  let ?c = "\<lparr>edClear = True, MaxLen = 0, Complete = None\<rparr>" and ?ks = "[(None, 0x61), (None, 0x62), (None, KeyLeft), (None, 0xE9)]"
  have h: "history_ok (max_len ?c) (history editor_New)" by (simp add: history_ok_def editor_New_def)
  have ks: "list_all edit_key (map snd ?ks)" by (simp add: edit_key_def key_defs)
  have z: "(case foldl (zip_key (max_len ?c)) ([], []) (map snd ?ks) of (l, r) \<Rightarrow> l @ r) = [0x61, 0xE9, 0x62]"
    by (simp add: zip_key_def key_defs Printable_def max_len_def DefaultMaxLen_def)
  show ?thesis
    using readline_edits [OF h ks, of None "''$ ''" None]
    unfolding z by (simp only: list.map prod.case append_Cons append_Nil)
qed

text \<open>The editor lives as long as its shell: it reads one line after the other.\<close>

definition read_lines :: "editor_config \<Rightarrow> editor \<Rightarrow> (int option \<times> string \<times> read_event list) list \<Rightarrow> editor" where
  "read_lines c e calls = foldl (\<lambda>e (wd, prompt, evs). fst (ReadLine c wd prompt e evs)) e calls"

lemma ReadLine_ok:
  assumes "history_ok (max_len c) (history e)" "ReadLine c wd prompt e evs = (e', s, r)"
  shows "history_ok (max_len c) (history e') \<and> pos s \<le> length (line s) \<and> length (line s) \<le> max_len c \<and>
    (\<forall>t. r = Some (Inr t) \<longrightarrow> t = string_of_runes (line s))"
proof -
  let ?e = "render wd (e\<lparr>cursorRow := 0\<rparr>) prompt [] 0"
  have "reading_ok (max_len c) ?e (line_start e)" "history_ok (max_len c) (history ?e)"
    using assms(1) by (simp_all add: line_start_ok)
  moreover have "read_loop c prompt ?e (line_start e) evs = (e', s, r)" using assms(2) by (simp add: ReadLine_def Let_def)
  ultimately show ?thesis by (rule read_loop_ok)
qed

interpretation line_reader: invariant_machine "\<lambda>e (wd, prompt, evs). fst (ReadLine c wd prompt e evs)"
  "\<lambda>e. history_ok (max_len c) (history e)" for c
proof
  fix e :: editor and call :: "int option \<times> string \<times> read_event list"
  assume h: "history_ok (max_len c) (history e)"
  obtain wd prompt evs where call: "call = (wd, prompt, evs)" by (cases call)
  obtain e1 s1 r1 where r: "ReadLine c wd prompt e evs = (e1, s1, r1)" by (cases "ReadLine c wd prompt e evs")
  show "history_ok (max_len c) (history (case call of (wd, prompt, evs) \<Rightarrow> fst (ReadLine c wd prompt e evs)))"
    using ReadLine_ok [OF h r] call r by simp
qed

lemma read_lines_ok:
  "history_ok (max_len c) (history e) \<Longrightarrow> history_ok (max_len c) (history (read_lines c e calls))"
  unfolding read_lines_def by (rule line_reader.run_inv)

text \<open>
  C32. Whatever is typed, completed and recalled over any number of lines, the cursor stays inside the line, the
  line within its limit, and the history within 200 entries, with no blank line and no line twice in a
  row; a line that is returned is the one on the screen.
\<close>

theorem editor_bounded:
  assumes "e = read_lines c editor_New calls" "ReadLine c wd prompt e evs = (e', s, r)"
  shows "pos s \<le> length (line s) \<and> length (line s) \<le> max_len c \<and> length (history e') \<le> 200 \<and>
    list_all (\<lambda>l. TrimSpace l \<noteq> [] \<and> length (runes_of_string l) \<le> max_len c) (history e') \<and> distinct_adj (history e') \<and>
    (\<forall>t. r = Some (Inr t) \<longrightarrow> t = string_of_runes (line s))"
proof -
  have "history_ok (max_len c) (history editor_New)" by (simp add: history_ok_def editor_New_def)
  from ReadLine_ok [OF read_lines_ok [OF this] assms(2) [unfolded assms(1)]] show ?thesis
    by (auto simp: history_ok_def maxHistory_def)
qed

theorem editor_bounded_witness:
  "length (history (fst (ReadLine \<lparr>edClear = True, MaxLen = 2, Complete = None\<rparr> None ''$ ''
     (read_lines \<lparr>edClear = True, MaxLen = 2, Complete = None\<rparr> editor_New [(None, ''$ '', [EKey None 0x61, EKey None KeyEnter])])
     [EKey None KeyUp, EKey None KeyEnter]))) \<le> 200"
proof -
  let ?c = "\<lparr>edClear = True, MaxLen = 2, Complete = None\<rparr>" and ?calls = "[(None, ''$ '', [EKey None 0x61, EKey None KeyEnter])]"
  obtain e' s r where "ReadLine ?c None ''$ '' (read_lines ?c editor_New ?calls) [EKey None KeyUp, EKey None KeyEnter] = (e', s, r)"
    by (cases "ReadLine ?c None ''$ '' (read_lines ?c editor_New ?calls) [EKey None KeyUp, EKey None KeyEnter]")
  with editor_bounded [OF refl this] show ?thesis by simp
qed



end
