(* ===== verification/Shell_Words.thy ===== *)
theory Shell_Words
  imports Line_Editor "HOL-Library.AList"
begin

text \<open>
  The text functions of the simulated shell, \<^verbatim>\<open>src/fakeshell/shell.go\<close>: word splitting with quotes and
  expansion, assignments, and the layout helpers \<^verbatim>\<open>wrapText\<close>, \<^verbatim>\<open>columns\<close> and \<^verbatim>\<open>stripANSI\<close>.  Loops over an index
  recurse on the runes that are left.
\<close>

section \<open>Splitting a line\<close>

datatype split_error = errUnsupported | errUnterminated

record shell_word =
  wText :: string
  wGlob :: bool

type_synonym env = "(string \<times> string) list"

text \<open>Reading a missing variable gives the empty string.\<close>

definition env_get :: "env \<Rightarrow> string \<Rightarrow> string" where
  "env_get env k = (case map_of env k of Some v \<Rightarrow> v | None \<Rightarrow> [])"

abbreviation rune_of :: "char \<Rightarrow> rune" where "rune_of \<equiv> byte_code"

definition isAlpha :: "rune \<Rightarrow> bool" where
  "isAlpha r \<longleftrightarrow> (rune_of CHR ''a'' \<le> r \<and> r \<le> rune_of CHR ''z'') \<or> (rune_of CHR ''A'' \<le> r \<and> r \<le> rune_of CHR ''Z'')"

definition name_rune :: "rune \<Rightarrow> bool" where
  "name_rune r \<longleftrightarrow> r = rune_of CHR ''_'' \<or> isAlpha r \<or> (rune_of CHR ''0'' \<le> r \<and> r \<le> rune_of CHR ''9'')"

text \<open>The runes after a dollar sign: what is written, and the runes left.\<close>

definition expand :: "env \<Rightarrow> int \<Rightarrow> rune list \<Rightarrow> split_error + string \<times> rune list" where
  "expand env status rs =
     (case rs of
        [] \<Rightarrow> Inr (''$'', [])
      | next # rest \<Rightarrow>
          if next = rune_of CHR ''('' then Inl errUnsupported
          else if next = rune_of CHR ''?'' then Inr (Itoa status, rest)
          else if next = rune_of CHR ''$'' then Inr (''2214'', rest)
          else if next = rune_of CHR ''{'' then
            (case dropWhile (\<lambda>r. r \<noteq> rune_of CHR ''}'') rest of
               [] \<Rightarrow> Inl errUnterminated
             | _ # rest' \<Rightarrow>
                 Inr (env_get env (string_of_runes (takeWhile (\<lambda>r. r \<noteq> rune_of CHR ''}'') rest)), rest'))
          else if next = rune_of CHR ''_'' \<or> isAlpha next then
            Inr (env_get env (string_of_runes (takeWhile name_rune rs)), dropWhile name_rune rs)
          else Inr (''$'', rs))"

datatype quote = Unquoted | SingleQuoted | DoubleQuoted

record splitting =
  sWords :: "shell_word list"
  sCur :: string
  sInWord :: bool
  sGlob :: bool

definition split_start :: splitting where
  "split_start = \<lparr>sWords = [], sCur = [], sInWord = False, sGlob = False\<rparr>"

definition closeUp :: "splitting \<Rightarrow> splitting" where
  "closeUp s =
     \<lparr>sWords = (if sInWord s then sWords s @ [\<lparr>wText = sCur s, wGlob = sGlob s\<rparr>] else sWords s),
      sCur = [], sInWord = False, sGlob = False\<rparr>"

definition add_rune :: "splitting \<Rightarrow> rune \<Rightarrow> splitting" where
  "add_rune s r = s\<lparr>sCur := sCur s @ EncodeRune r\<rparr>"

lemma expand_shorter: "expand env status rs = Inr (t, rest) \<Longrightarrow> length rest \<le> length rs"
proof -
  assume e: "expand env status rs = Inr (t, rest)"
  have drop: "length (dropWhile P xs) \<le> length xs" for P and xs :: "rune list" by (rule length_dropWhile_le)
  have tail: "dropWhile P xs = y # ys \<Longrightarrow> length ys \<le> length xs" for P y ys and xs :: "rune list"
    using drop [of P xs] by simp
  show ?thesis
  proof (cases rs)
    case (Cons r rs')
    then show ?thesis
      using e drop [of name_rune rs'] tail [of "\<lambda>r. r \<noteq> rune_of CHR ''}''" rs']
      by (auto simp: expand_def split: if_splits list.splits intro: le_SucI)
  qed (use e in \<open>simp add: expand_def\<close>)
qed

function split_from :: "env \<Rightarrow> int \<Rightarrow> quote \<Rightarrow> splitting \<Rightarrow> rune list \<Rightarrow> split_error + shell_word list" where
  "split_from env status q s [] =
     (if q \<noteq> Unquoted then Inl errUnterminated else Inr (sWords (closeUp s)))"
| "split_from env status SingleQuoted s (r # rs) =
     (if r = rune_of CHR 0x27 then split_from env status Unquoted s rs
      else split_from env status SingleQuoted (add_rune s r) rs)"
| "split_from env status DoubleQuoted s (r # rs) =
     (if r = rune_of CHR 0x22 then split_from env status Unquoted s rs
      else if r = rune_of CHR 0x5C \<and> rs \<noteq> [] \<and>
              hd rs \<in> set (map rune_of [CHR 0x22, CHR 0x5C, CHR ''$'', CHR 0x60]) then
        split_from env status DoubleQuoted (add_rune s (hd rs)) (tl rs)
      else if r = rune_of CHR 0x60 then Inl errUnsupported
      else if r = rune_of CHR ''$'' then
        (case expand env status rs of
           Inl err \<Rightarrow> Inl err
         | Inr (t, rest) \<Rightarrow> split_from env status DoubleQuoted (s\<lparr>sCur := sCur s @ t\<rparr>) rest)
      else split_from env status DoubleQuoted (add_rune s r) rs)"
| "split_from env status Unquoted s (r # rs) =
     (if r = rune_of CHR '' '' \<or> r = rune_of CHR 0x09 then split_from env status Unquoted (closeUp s) rs
      else if r = rune_of CHR ''#'' \<and> \<not> sInWord s then Inr (sWords (closeUp s))
      else if r = rune_of CHR 0x27 then split_from env status SingleQuoted (s\<lparr>sInWord := True\<rparr>) rs
      else if r = rune_of CHR 0x22 then split_from env status DoubleQuoted (s\<lparr>sInWord := True\<rparr>) rs
      else if r = rune_of CHR 0x5C then
        (case rs of
           [] \<Rightarrow> split_from env status Unquoted (s\<lparr>sInWord := True\<rparr>) rs
         | r' # rs' \<Rightarrow> split_from env status Unquoted (add_rune (s\<lparr>sInWord := True\<rparr>) r') rs')
      else if r \<in> set (map rune_of [CHR ''|'', CHR '';'', CHR ''&'', CHR ''<'', CHR ''>'', CHR 0x60, CHR ''('', CHR '')'']) then
        Inl errUnsupported
      else if r = rune_of CHR ''$'' then
        (case expand env status rs of
           Inl err \<Rightarrow> Inl err
         | Inr (t, rest) \<Rightarrow> split_from env status Unquoted (s\<lparr>sInWord := True, sCur := sCur s @ t\<rparr>) rest)
      else if r = rune_of CHR ''~'' \<and> \<not> sInWord s \<and>
              (rs = [] \<or> hd rs = rune_of CHR ''/'' \<or> hd rs = rune_of CHR '' '') then
        split_from env status Unquoted (s\<lparr>sInWord := True, sCur := sCur s @ env_get env ''HOME''\<rparr>) rs
      else
        split_from env status Unquoted
          (add_rune (s\<lparr>sInWord := True,
             sGlob := (sGlob s \<or> r \<in> set (map rune_of [CHR ''*'', CHR ''?'', CHR ''['']))\<rparr>) r) rs)"
  by pat_completeness auto
termination
  by (relation "measure (\<lambda>(env, status, q, s, rs). length rs)")
    (auto simp: neq_Nil_conv dest!: expand_shorter)

definition shell_split :: "env \<Rightarrow> int \<Rightarrow> string \<Rightarrow> split_error + shell_word list" where
  "shell_split env status l = split_from env status Unquoted split_start (runes_of_string l)"

definition assignments :: "string list \<Rightarrow> bool" where
  "assignments args \<longleftrightarrow>
     list_all (\<lambda>a. case cut (CHR ''='') a of
         None \<Rightarrow> False
       | Some (k, _) \<Rightarrow> k \<noteq> [] \<and> (hd k = CHR ''_'' \<or> isAlpha (rune_of (hd k)))) args"

section \<open>Layout\<close>

abbreviation LF :: char where "LF \<equiv> CHR 0x0A"

fun wrap_words :: "int \<Rightarrow> int \<Rightarrow> string list \<Rightarrow> string" where
  "wrap_words width col [] = []"
| "wrap_words width col (w # ws) =
     (let (sep, col1) =
        (if col > 0 \<and> col + 1 + int (length w) > width then ([LF], 0)
         else if col > 0 then ('' '', col + 1) else ([], col))
      in sep @ w @ wrap_words width (col1 + int (length w)) ws)"

definition wrapText :: "string \<Rightarrow> int \<Rightarrow> string" where
  "wrapText s width = wrap_words (if width < 20 then 20 else width) 0 (Fields s) @ [LF]"

definition Repeat :: "string \<Rightarrow> nat \<Rightarrow> string" where
  "Repeat s n = concat (replicate n s)"

text \<open>Go's integer division truncates towards zero.\<close>

definition div_trunc :: "int \<Rightarrow> int \<Rightarrow> int" where
  "div_trunc a b = (if (a < 0) = (b < 0) then \<bar>a\<bar> div \<bar>b\<bar> else - (\<bar>a\<bar> div \<bar>b\<bar>))"

definition column_cell :: "string list \<Rightarrow> nat" where
  "column_cell names = foldl (\<lambda>cell n. max cell (VisibleLen n)) 0 names + 2"

definition column_count :: "string list \<Rightarrow> int \<Rightarrow> string \<Rightarrow> nat" where
  "column_count names width indent =
     nat (max 1 (div_trunc (width - int (length indent) + 2) (int (column_cell names))))"

fun column_row :: "string list \<Rightarrow> nat \<Rightarrow> nat \<Rightarrow> nat \<Rightarrow> nat \<Rightarrow> nat list \<Rightarrow> string" where
  "column_row names cell rows cols r [] = []"
| "column_row names cell rows cols r (c # cs) =
     (let i = c * rows + r in
      if i \<ge> length names then []
      else
        names ! i @
        (if c + 1 < cols \<and> i + rows < length names then Repeat '' '' (cell - VisibleLen (names ! i)) else []) @
        column_row names cell rows cols r cs)"

definition columns :: "string list \<Rightarrow> int \<Rightarrow> string \<Rightarrow> string" where
  "columns names width indent =
     (if names = [] then []
      else
        let cell = column_cell names;
            cols = column_count names width indent;
            rows = (length names + cols - 1) div cols
        in concat (map (\<lambda>r. indent @ column_row names cell rows cols r [0..<cols] @ [LF]) [0..<rows]))"

fun strip_runes :: "esc_mode \<Rightarrow> rune list \<Rightarrow> string" where
  "strip_runes m [] = []"
| "strip_runes InCSI (r # rs) = strip_runes (if 0x40 \<le> r \<and> r \<le> 0x7e then PlainText else InCSI) rs"
| "strip_runes AfterEsc (r # rs) = strip_runes (if r = 0x5b then InCSI else PlainText) rs"
| "strip_runes PlainText (r # rs) =
     (if r = 0x1b then strip_runes AfterEsc rs else EncodeRune r @ strip_runes PlainText rs)"

definition stripANSI :: "string \<Rightarrow> string" where
  "stripANSI s = strip_runes PlainText (runes_of_string s)"

section \<open>Quoting\<close>

text \<open>A word in single quotes, each quote in it closed, escaped and reopened: the way users pass text verbatim.\<close>

definition quote_word :: "rune list \<Rightarrow> rune list" where
  "quote_word w = 0x27 # concat (map (\<lambda>r. if r = 0x27 then [0x27, 0x5C, 0x27, 0x27] else [r]) w) @ [0x27]"

fun quote_line :: "rune list list \<Rightarrow> rune list" where
  "quote_line [] = []"
| "quote_line [w] = quote_word w"
| "quote_line (w # ws) = quote_word w @ 0x20 # quote_line ws"

lemma split_quoted_part:
  "sInWord s \<Longrightarrow>
   split_from env status SingleQuoted s
     (concat (map (\<lambda>r. if r = 0x27 then [0x27, 0x5C, 0x27, 0x27] else [r]) w) @ 0x27 # rest) =
   split_from env status Unquoted (s\<lparr>sCur := sCur s @ string_of_runes w\<rparr>) rest"
proof (induction w arbitrary: s)
  case (Cons r w)
  let ?s = "s\<lparr>sCur := sCur s @ EncodeRune r\<rparr>"
  have "split_from env status SingleQuoted s
      (concat (map (\<lambda>r. if r = 0x27 then [0x27, 0x5C, 0x27, 0x27] else [r]) (r # w)) @ 0x27 # rest) =
    split_from env status SingleQuoted ?s
      (concat (map (\<lambda>r. if r = 0x27 then [0x27, 0x5C, 0x27, 0x27] else [r]) w) @ 0x27 # rest)"
    using Cons.prems by (cases s) (simp add: add_rune_def)
  also have "\<dots> = split_from env status Unquoted (?s\<lparr>sCur := sCur ?s @ string_of_runes w\<rparr>) rest"
    by (rule Cons.IH) (use Cons.prems in simp)
  finally show ?case by (simp add: string_of_runes_def)
qed (simp add: string_of_runes_def)

lemma split_quoted_word:
  "split_from env status Unquoted s (quote_word w @ rest) =
   split_from env status Unquoted (s\<lparr>sInWord := True, sCur := sCur s @ string_of_runes w\<rparr>) rest"
  using split_quoted_part [of "s\<lparr>sInWord := True\<rparr>" env status w rest]
  by (simp add: quote_word_def)

lemma split_quoted_line:
  "sInWord s = False \<Longrightarrow> sCur s = [] \<Longrightarrow> sGlob s = False \<Longrightarrow>
   split_from env status Unquoted s (quote_line ws) =
   Inr (sWords s @ map (\<lambda>w. \<lparr>wText = string_of_runes w, wGlob = False\<rparr>) ws)"
proof (induction ws arbitrary: s rule: quote_line.induct)
  case 1
  then show ?case by (simp add: closeUp_def)
next
  case (2 w)
  then show ?case using split_quoted_word [of env status s w "[]"] by (simp add: closeUp_def)
next
  case (3 w v vs)
  let ?s = "\<lparr>sWords = sWords s @ [\<lparr>wText = string_of_runes w, wGlob = False\<rparr>], sCur = [], sInWord = False, sGlob = False\<rparr>"
  have "split_from env status Unquoted s (quote_line (w # v # vs)) = split_from env status Unquoted ?s (quote_line (v # vs))"
    using 3(2-4) split_quoted_word [of env status s w "0x20 # quote_line (v # vs)"] by (simp add: closeUp_def)
  with "3.IH" [of ?s] show ?case by simp
qed

text \<open>Runes that mean themselves outside quotes.\<close>

definition plain_rune :: "rune \<Rightarrow> bool" where
  "plain_rune r \<longleftrightarrow> r \<notin> set (map rune_of (''#$~'' @ [CHR 0x22, CHR 0x27, CHR 0x5C, CHR 0x60]))"

definition meta_rune :: "rune \<Rightarrow> bool" where
  "meta_rune r \<longleftrightarrow> r \<in> set (map rune_of (''|;&<>()'' @ [CHR 0x60]))"

lemma split_meta:
  "list_all plain_rune pre \<Longrightarrow> meta_rune r \<Longrightarrow> split_from env status Unquoted s (pre @ r # rest) = Inl errUnsupported"
proof (induction pre arbitrary: s)
  case Nil
  then show ?case by (auto simp: meta_rune_def)
next
  case (Cons p pre)
  then have p: "p \<noteq> 0x23" "p \<noteq> 0x24" "p \<noteq> 0x7E" "p \<noteq> 0x22" "p \<noteq> 0x27" "p \<noteq> 0x5C" "p \<noteq> 0x60"
    by (auto simp: plain_rune_def)
  have IH: "split_from env status Unquoted s' (pre @ r # rest) = Inl errUnsupported" for s'
    using Cons by simp
  show ?case using p by (simp add: IH)
qed



end
