(* ===== verification/Shell_Date.thy ===== *)
theory Shell_Date
  imports Shell_Words
begin

text \<open>
  The \<^verbatim>\<open>date\<close> command, \<^verbatim>\<open>src/fakeshell/date.go\<close>.  A \<^verbatim>\<open>time.Time\<close> is the record of what its accessors return in
  its zone; \<open>utc\<close> of a pair is the same instant in UTC.  The layouts the code passes to \<^verbatim>\<open>Format\<close> are written out.
\<close>

section \<open>Times\<close>

record clock =
  Year :: int
  Month :: nat
  Day :: nat
  Hour :: nat
  Minute :: nat
  Second :: nat
  Nanosecond :: nat
  Weekday :: nat
  YearDay :: nat
  Unix :: int
  ZoneOffset :: int
  ZoneName :: string

text \<open>\<^verbatim>\<open>%0nd\<close> and \<^verbatim>\<open>%nd\<close>: a sign counts towards the width, zeros follow it.\<close>

definition zero_pad :: "nat \<Rightarrow> int \<Rightarrow> string" where
  "zero_pad n v =
     (if v < 0 then CHR ''-'' # replicate (n - Suc (length (show_nat (nat (- v))))) (CHR ''0'') @ show_nat (nat (- v))
      else replicate (n - length (show_nat (nat v))) (CHR ''0'') @ show_nat (nat v))"

definition blank_pad :: "nat \<Rightarrow> int \<Rightarrow> string" where
  "blank_pad n v = replicate (n - length (Itoa v)) (CHR '' '') @ Itoa v"

definition day_names :: "string list" where
  "day_names = [''Sunday'', ''Monday'', ''Tuesday'', ''Wednesday'', ''Thursday'', ''Friday'', ''Saturday'']"

definition month_names :: "string list" where
  "month_names =
     [''January'', ''February'', ''March'', ''April'', ''May'', ''June'', ''July'', ''August'', ''September'',
      ''October'', ''November'', ''December'']"

definition long_day :: "clock \<Rightarrow> string" where "long_day t = day_names ! (Weekday t mod 7)"
definition short_day :: "clock \<Rightarrow> string" where "short_day t = take 3 (long_day t)"
definition long_month :: "clock \<Rightarrow> string" where "long_month t = month_names ! ((Month t + 11) mod 12)"
definition short_month :: "clock \<Rightarrow> string" where "short_month t = take 3 (long_month t)"

definition hour12 :: "clock \<Rightarrow> nat" where
  "hour12 t = (let h = Hour t mod 12 in if h = 0 then 12 else h)"

definition ampm :: "clock \<Rightarrow> string" where
  "ampm t = (if Hour t \<ge> 12 then ''PM'' else ''AM'')"

text \<open>The layouts \<^verbatim>\<open>15:04:05\<close>, \<^verbatim>\<open>2006-01-02\<close>, \<^verbatim>\<open>01/02/06\<close>, \<^verbatim>\<open>-0700\<close> and \<^verbatim>\<open>-07:00\<close>.\<close>

definition two :: "nat \<Rightarrow> string" where "two n = zero_pad 2 (int n)"

definition fmt_year :: "int \<Rightarrow> string" where "fmt_year y = zero_pad 4 y"

definition fmt_hm :: "clock \<Rightarrow> string" where
  "fmt_hm t = two (Hour t) @ '':'' @ two (Minute t)"

definition fmt_hms :: "clock \<Rightarrow> string" where
  "fmt_hms t = fmt_hm t @ '':'' @ two (Second t)"

definition fmt_ymd :: "clock \<Rightarrow> string" where
  "fmt_ymd t = fmt_year (Year t) @ ''-'' @ two (Month t) @ ''-'' @ two (Day t)"

definition fmt_mdy :: "clock \<Rightarrow> string" where
  "fmt_mdy t = two (Month t) @ ''/'' @ two (Day t) @ ''/'' @ two (nat (\<bar>Year t\<bar> mod 100))"

definition fmt_zone :: "string \<Rightarrow> clock \<Rightarrow> string" where
  "fmt_zone sep t =
     (let m = nat (\<bar>ZoneOffset t\<bar> div 60)
      in (if ZoneOffset t < 0 then ''-'' else ''+'') @ two (m div 60) @ sep @ two (m mod 60))"

section \<open>Directives\<close>

definition mod_trunc :: "int \<Rightarrow> int \<Rightarrow> int" where
  "mod_trunc a b = a - b * div_trunc a b"

definition directive :: "clock \<Rightarrow> char \<Rightarrow> string" where
  "directive t d =
     (if d = CHR ''%'' then ''%''
      else if d = CHR ''a'' then short_day t
      else if d = CHR ''A'' then long_day t
      else if d = CHR ''b'' \<or> d = CHR ''h'' then short_month t
      else if d = CHR ''B'' then long_month t
      else if d = CHR ''c'' then
        short_day t @ '' '' @ short_month t @ '' '' @ blank_pad 2 (int (Day t)) @ '' '' @ fmt_hms t @ '' '' @ fmt_year (Year t)
      else if d = CHR ''C'' then zero_pad 2 (div_trunc (Year t) 100)
      else if d = CHR ''d'' then two (Day t)
      else if d = CHR ''D'' \<or> d = CHR ''x'' then fmt_mdy t
      else if d = CHR ''e'' then blank_pad 2 (int (Day t))
      else if d = CHR ''F'' then fmt_ymd t
      else if d = CHR ''H'' then two (Hour t)
      else if d = CHR ''I'' then two (hour12 t)
      else if d = CHR ''j'' then zero_pad 3 (int (YearDay t))
      else if d = CHR ''k'' then blank_pad 2 (int (Hour t))
      else if d = CHR ''l'' then blank_pad 2 (int (hour12 t))
      else if d = CHR ''m'' then two (Month t)
      else if d = CHR ''M'' then two (Minute t)
      else if d = CHR ''n'' then [LF]
      else if d = CHR ''N'' then zero_pad 9 (int (Nanosecond t))
      else if d = CHR ''p'' then ampm t
      else if d = CHR ''P'' then (if Hour t \<ge> 12 then ''pm'' else ''am'')
      else if d = CHR ''r'' then two (hour12 t) @ '':'' @ two (Minute t) @ '':'' @ two (Second t) @ '' '' @ ampm t
      else if d = CHR ''R'' then fmt_hm t
      else if d = CHR ''s'' then Itoa (Unix t)
      else if d = CHR ''S'' then two (Second t)
      else if d = CHR ''t'' then [CHR 0x09]
      else if d = CHR ''T'' \<or> d = CHR ''X'' then fmt_hms t
      else if d = CHR ''u'' then Itoa (if Weekday t = 0 then 7 else int (Weekday t))
      else if d = CHR ''w'' then Itoa (int (Weekday t))
      else if d = CHR ''y'' then zero_pad 2 (mod_trunc (Year t) 100)
      else if d = CHR ''Y'' then Itoa (Year t)
      else if d = CHR ''z'' then fmt_zone [] t
      else if d = CHR ''Z'' then ZoneName t
      else [CHR ''%'', d])"

fun strftime :: "clock \<Rightarrow> string \<Rightarrow> string" where
  "strftime t [] = []"
| "strftime t [c] = [c]"
| "strftime t (c # d # rest) =
     (if c \<noteq> CHR ''%'' then c # strftime t (d # rest)
      else if d = CHR '':'' \<and> rest \<noteq> [] \<and> hd rest = CHR ''z'' then fmt_zone '':'' t @ strftime t (tl rest)
      else directive t d @ strftime t rest)"

definition defaultDateFormat :: string where
  "defaultDateFormat = ''%a %b %e %H:%M:%S %Z %Y''"

text \<open>\<open>now\<close> and the same instant in UTC.\<close>

fun date_args :: "clock \<Rightarrow> clock \<Rightarrow> string \<Rightarrow> string list \<Rightarrow> string + string" where
  "date_args tm utc format [] = Inr (strftime tm format @ [LF])"
| "date_args tm utc format (a # args) =
     (if a = ''-u'' \<or> a = ''--utc'' \<or> a = ''--universal'' then date_args utc utc format args
      else if a = ''-R'' \<or> a = ''--rfc-email'' then date_args tm utc ''%a, %d %b %Y %H:%M:%S %z'' args
      else if a = ''-I'' \<or> a = ''--iso-8601'' \<or> a = ''-Idate'' \<or> a = ''--iso-8601=date'' then date_args tm utc ''%F'' args
      else if a = ''-Ihours'' \<or> a = ''--iso-8601=hours'' then date_args tm utc ''%FT%H%:z'' args
      else if a = ''-Iminutes'' \<or> a = ''--iso-8601=minutes'' then date_args tm utc ''%FT%H:%M%:z'' args
      else if a = ''-Iseconds'' \<or> a = ''--iso-8601=seconds'' then date_args tm utc ''%FT%T%:z'' args
      else if a = ''-s'' \<or> HasPrefix a ''--set'' then Inl ''date: cannot set date: Operation not permitted''
      else if HasPrefix a ''+'' then date_args tm utc (drop 1 a) args
      else if a = ''-d'' \<or> HasPrefix a ''--date'' then
        Inl ''date: parsing other dates is not supported on this demo machine''
      else Inl (''date: invalid date '' @ [CHR 0x27] @ a @ [CHR 0x27]))"

definition dateCommand :: "clock \<Rightarrow> clock \<Rightarrow> string list \<Rightarrow> string + string" where
  "dateCommand tm utc args = date_args tm utc defaultDateFormat args"

section \<open>Literal text\<close>

definition escape_percent :: "string \<Rightarrow> string" where
  "escape_percent s = concat (map (\<lambda>c. if c = CHR ''%'' then ''%%'' else [c]) s)"

lemma strftime_Cons: "c \<noteq> CHR ''%'' \<Longrightarrow> strftime t (c # s) = c # strftime t s"
  by (cases s) auto

lemma strftime_escape: "strftime t (escape_percent s) = s"
proof (induction s)
  case (Cons c s)
  show ?case
  proof (cases "c = CHR ''%''")
    case True
    with Cons show ?thesis by (simp add: escape_percent_def directive_def)
  next
    case False
    with Cons show ?thesis by (simp add: escape_percent_def strftime_Cons)
  qed
qed (simp add: escape_percent_def)

lemma strftime_escape_append: "strftime t (escape_percent s @ f) = s @ strftime t f"
proof (induction s)
  case (Cons c s)
  show ?case
  proof (cases "c = CHR ''%''")
    case True
    with Cons show ?thesis by (simp add: escape_percent_def directive_def)
  next
    case False
    with Cons show ?thesis by (simp add: escape_percent_def strftime_Cons)
  qed
qed (simp add: escape_percent_def)

text \<open>
  \<^verbatim>\<open>date +FORMAT\<close> prints a format piece by piece: literal text, with its percent signs doubled, comes out
  unchanged wherever it stands, and a directive of the format is replaced by exactly its own expansion.
\<close>

theorem date_format_compositional:
  "dateCommand tm utc [''+'' @ escape_percent s] = Inr (s @ [LF]) \<and>
   (d \<noteq> CHR '':'' \<longrightarrow>
      dateCommand tm utc [''+'' @ escape_percent s @ [CHR ''%'', d] @ f] = Inr (s @ directive tm d @ strftime tm f @ [LF]))"
proof -
  have d: "strftime tm (CHR ''%'' # d # f) = directive tm d @ strftime tm f" if "d \<noteq> CHR '':''"
    using that by simp
  have "dateCommand tm utc [CHR ''+'' # x] = Inr (strftime tm x @ [LF])" for x
    by (simp add: dateCommand_def)
  then show ?thesis by (simp add: strftime_escape strftime_escape_append d)
qed

definition demo_clock :: clock where
  "demo_clock =
     \<lparr>Year = 2026, Month = 3, Day = 7, Hour = 0, Minute = 5, Second = 9, Nanosecond = 0, Weekday = 6, YearDay = 66,
      Unix = 0, ZoneOffset = 3600, ZoneName = ''CET''\<rparr>"

theorem date_format_compositional_witness:
  "dateCommand demo_clock demo_clock [''+100%%=%I''] = Inr (''100%=12'' @ [LF])"
proof -
  have "directive demo_clock (CHR ''I'') = ''12''" "escape_percent ''100%='' = ''100%%=''" by code_simp+
  then show ?thesis using date_format_compositional [of demo_clock demo_clock "''100%=''" "CHR ''I''" "[]"] by simp
qed

end
