(* ===== verification/Shell_Format.thy ===== *)
theory Shell_Format
  imports Shell_Words "HOL-Library.Char_ord"
begin

text \<open>
  Formatting and parsing of numbers and columns in the simulated shell: the verbs of \<^verbatim>\<open>fmt\<close> its commands use, and
  \<^verbatim>\<open>strconv.Atoi\<close>.
\<close>

definition show_int :: "int \<Rightarrow> string" where "show_int = Itoa"

definition pad_left :: "nat \<Rightarrow> string \<Rightarrow> string" where
  "pad_left n s = replicate (n - length (runes_of_string s)) (CHR '' '') @ s"

definition pad_right :: "nat \<Rightarrow> string \<Rightarrow> string" where
  "pad_right n s = s @ replicate (n - length (runes_of_string s)) (CHR '' '')"

definition line_of :: "string \<Rightarrow> string" where "line_of s = s @ [LF]"

text \<open>\<^verbatim>\<open>strconv.Atoi\<close>, with its range check.\<close>

definition digits_value :: "string \<Rightarrow> int option" where
  "digits_value s =
     (if s \<noteq> [] \<and> list_all (\<lambda>c. CHR ''0'' \<le> c \<and> c \<le> CHR ''9'') s
      then Some (foldl (\<lambda>n c. 10 * n + int (byte_code c) - 48) 0 s) else None)"

definition Atoi :: "string \<Rightarrow> int option" where
  "Atoi s =
     (let (neg, ds) = (case s of c # cs \<Rightarrow> if c = CHR ''-'' then (True, cs) else if c = CHR ''+'' then (False, cs) else (False, s)
                                | [] \<Rightarrow> (False, s))
      in case digits_value ds of
           None \<Rightarrow> None
         | Some n \<Rightarrow>
             let v = (if neg then - n else n)
             in if - (2 ^ 63) \<le> v \<and> v < 2 ^ 63 then Some v else None)"

text \<open>How a pause of a command ends.\<close>

datatype nap = NapDone | NapInterrupted | NapCancelled

end
