(* ===== verification/Go_Float.thy ===== *)
theory Go_Float
  imports Go_Strings "HOL-Library.Log_Nat"
begin

text \<open>
  Go's \<^verbatim>\<open>float64\<close>: a finite value is a rational number, and each operation rounds its exact result to 53 significant
  bits, half to even.  Overflow, subnormal numbers and the sign of zero are left out: the program's values are zero
  or between \<open>2 powi (-1000)\<close> and \<open>2 ^ 100\<close>.  Every operation rounds by itself, as on amd64.
\<close>

type_synonym float64 = rat

section \<open>Rounding\<close>

definition round_half_even :: "rat \<Rightarrow> int" where
  "round_half_even x =
     (let f = \<lfloor>x\<rfloor>; d = x - of_int f in
      if d < 1/2 then f else if d > 1/2 then f + 1 else if even f then f else f + 1)"

text \<open>The exponent \<open>k\<close> with \<open>2 powi k \<le> x < 2 powi (k + 1)\<close>.\<close>

definition ilog2 :: "rat \<Rightarrow> int" where
  "ilog2 x =
     (let (a, b) = quotient_of x; k = bitlen a - bitlen b in if 2 powi k \<le> x then k else k - 1)"

definition round_pos :: "rat \<Rightarrow> rat" where
  "round_pos x = (let e = ilog2 x - 52 in of_int (round_half_even (x / 2 powi e)) * 2 powi e)"

definition rnd :: "rat \<Rightarrow> float64" where
  "rnd x = (if x = 0 then 0 else if x > 0 then round_pos x else - round_pos (- x))"

definition fadd :: "float64 \<Rightarrow> float64 \<Rightarrow> float64" where "fadd x y = rnd (x + y)"
definition fsub :: "float64 \<Rightarrow> float64 \<Rightarrow> float64" where "fsub x y = rnd (x - y)"
definition fmul :: "float64 \<Rightarrow> float64 \<Rightarrow> float64" where "fmul x y = rnd (x * y)"
definition fdiv :: "float64 \<Rightarrow> float64 \<Rightarrow> float64" where "fdiv x y = rnd (x / y)"
definition fint :: "int \<Rightarrow> float64" where "fint n = rnd (of_int n)"

text \<open>The conversion to an integer truncates.\<close>

definition ftrunc :: "float64 \<Rightarrow> int" where
  "ftrunc x = (if x < 0 then - \<lfloor>- x\<rfloor> else \<lfloor>x\<rfloor>)"

text \<open>\<^verbatim>\<open>%.nf\<close>: the exact value to \<open>n\<close> decimals, half to even.\<close>

definition fixed :: "nat \<Rightarrow> float64 \<Rightarrow> string" where
  "fixed n x =
     (let m = nat (round_half_even (\<bar>x\<bar> * 10 ^ n)); ds = show_nat (m mod 10 ^ n) in
      (if x < 0 then ''-'' else []) @ show_nat (m div 10 ^ n) @
      (if n = 0 then [] else CHR ''.'' # replicate (n - length ds) (CHR ''0'') @ ds))"

section \<open>Rounding to integers\<close>

lemma round_half_even_int [simp]: "round_half_even (of_int n) = n"
  by (simp add: round_half_even_def)

lemma round_half_even_bounds: "of_int (round_half_even x) \<le> x + 1/2" "x - 1/2 \<le> of_int (round_half_even x)"
proof -
  have "of_int \<lfloor>x\<rfloor> \<le> x" "x < of_int \<lfloor>x\<rfloor> + 1" by linarith+
  then show "of_int (round_half_even x) \<le> x + 1/2" "x - 1/2 \<le> of_int (round_half_even x)"
    unfolding round_half_even_def Let_def by (simp_all split: if_split) linarith+
qed

lemma round_half_even_mono:
  assumes "x \<le> y"
  shows "round_half_even x \<le> round_half_even y"
proof (cases "\<lfloor>x\<rfloor> = \<lfloor>y\<rfloor>")
  case True
  with assms show ?thesis by (auto simp: round_half_even_def Let_def)
next
  case False
  then have "\<lfloor>x\<rfloor> + 1 \<le> \<lfloor>y\<rfloor>" using floor_mono [OF assms] by linarith
  moreover have "round_half_even x \<le> \<lfloor>x\<rfloor> + 1" "\<lfloor>y\<rfloor> \<le> round_half_even y"
    by (simp_all add: round_half_even_def Let_def)
  ultimately show ?thesis by linarith
qed

section \<open>Exponents\<close>

lemma pow2_pos [simp]: "0 < (2::rat) powi k"
  by simp

lemma pow2_add: "(2::rat) powi (j + k) = 2 powi j * 2 powi k"
  by (rule power_int_add) simp

lemma pow2_Suc: "(2::rat) powi (k + 1) = 2 * 2 powi k"
  by (simp add: pow2_add)

lemma pow2_mono: "j \<le> k \<Longrightarrow> (2::rat) powi j \<le> 2 powi k"
  by (rule power_int_increasing) simp_all

lemma pow2_less: "(2::rat) powi j < 2 powi k \<Longrightarrow> j < k"
  using pow2_mono [of k j] by linarith

lemma ilog2_bounds:
  assumes "0 < x"
  shows "2 powi ilog2 x \<le> x" "x < 2 powi (ilog2 x + 1)"
proof -
  obtain a b where q: "quotient_of x = (a, b)" by force
  have b: "0 < b" and x: "x = of_int a / of_int b" using quotient_of_denom_pos [OF q] quotient_of_div [OF q] by auto
  have a: "0 < a" using assms b by (simp add: x zero_less_divide_iff)
  have len: "2 powi (bitlen n - 1) \<le> (of_int n :: rat) \<and> (of_int n :: rat) < 2 powi bitlen n" if "0 < n" for n :: int
  proof -
    have ge: "1 \<le> bitlen n" using that by (simp add: bitlen_ge_iff_power)
    have lo: "2 ^ nat (bitlen n - 1) \<le> n" and hi: "n < 2 ^ nat (bitlen n)"
      using bitlen_bounds [OF that] by auto
    have "(of_int (2 ^ nat (bitlen n - 1)) :: rat) \<le> of_int n" "(of_int n :: rat) < of_int (2 ^ nat (bitlen n))"
      using lo hi by (simp_all only: of_int_le_iff of_int_less_iff)
    with ge show ?thesis by (simp add: power_int_def)
  qed
  define k where "k = bitlen a - bitlen b"
  have "x < 2 powi (k + 1)"
  proof -
    have "of_int a < (2::rat) powi bitlen a" using len [OF a] by simp
    also have "\<dots> = 2 powi (k + 1) * 2 powi (bitlen b - 1)" by (simp add: k_def flip: pow2_add)
    also have "\<dots> \<le> 2 powi (k + 1) * of_int b" using len [OF b] by simp
    finally show ?thesis using b by (simp add: x divide_simps)
  qed
  moreover have "2 powi (k - 1) \<le> x"
  proof -
    have "2 powi (k - 1) * of_int b \<le> (2::rat) powi (k - 1) * 2 powi bitlen b" using len [OF b] by simp
    also have "\<dots> = 2 powi (bitlen a - 1)" by (simp add: k_def flip: pow2_add)
    also have "\<dots> \<le> of_int a" using len [OF a] by simp
    finally show ?thesis using b by (simp add: x divide_simps)
  qed
  ultimately show "2 powi ilog2 x \<le> x" "x < 2 powi (ilog2 x + 1)"
    by (auto simp: ilog2_def q k_def [symmetric])
qed

lemma ilog2_unique: "2 powi k \<le> x \<Longrightarrow> x < 2 powi (k + 1) \<Longrightarrow> ilog2 x = k"
proof -
  assume k: "2 powi k \<le> x" "x < 2 powi (k + 1)"
  then have "0 < x" using pow2_pos [of k] by linarith
  note b = ilog2_bounds [OF this]
  have "(2::rat) powi k < 2 powi (ilog2 x + 1)" "(2::rat) powi ilog2 x < 2 powi (k + 1)" using b k by linarith+
  then have "k < ilog2 x + 1" "ilog2 x < k + 1" by (blast intro: pow2_less)+
  then show ?thesis by simp
qed

lemma ilog2_shift: "0 < x \<Longrightarrow> ilog2 (x * 2 powi k) = ilog2 x + k"
proof (rule ilog2_unique)
  assume x: "0 < x"
  show "2 powi (ilog2 x + k) \<le> x * 2 powi k" using ilog2_bounds(1) [OF x] by (simp add: pow2_add)
  have "x * 2 powi k < 2 powi (ilog2 x + 1) * 2 powi k" using ilog2_bounds(2) [OF x] by simp
  then show "x * 2 powi k < 2 powi (ilog2 x + k + 1)" by (simp add: algebra_simps flip: pow2_add)
qed

lemma ilog2_mono: "0 < x \<Longrightarrow> x \<le> y \<Longrightarrow> ilog2 x \<le> ilog2 y"
  using ilog2_bounds(1) [of x] ilog2_bounds(2) [of y] pow2_less [of "ilog2 x" "ilog2 y + 1"] by linarith

section \<open>Properties of rounding\<close>

lemma round_pos_bounds:
  assumes "0 < x"
  shows "2 powi ilog2 x \<le> round_pos x" "round_pos x \<le> 2 powi (ilog2 x + 1)"
proof -
  define e where "e = ilog2 x - 52"
  have p: "2 powi ilog2 x = (2::rat) ^ 52 * 2 powi e" "2 powi (ilog2 x + 1) = (2::rat) ^ 53 * 2 powi e"
    using pow2_add [of 52 e] pow2_add [of 53 e] by (simp_all add: e_def algebra_simps)
  have "2 ^ 52 \<le> x / 2 powi e" "x / 2 powi e \<le> 2 ^ 53"
    using ilog2_bounds [OF assms] by (simp_all add: p divide_simps)
  then have "round_half_even (of_int (2 ^ 52)) \<le> round_half_even (x / 2 powi e)"
    "round_half_even (x / 2 powi e) \<le> round_half_even (of_int (2 ^ 53))"
    by (intro round_half_even_mono; simp)+
  then have "(of_int (2 ^ 52) :: rat) \<le> of_int (round_half_even (x / 2 powi e))"
    "of_int (round_half_even (x / 2 powi e)) \<le> (of_int (2 ^ 53) :: rat)"
    unfolding round_half_even_int by (simp_all only: of_int_le_iff)
  then show "2 powi ilog2 x \<le> round_pos x" "round_pos x \<le> 2 powi (ilog2 x + 1)"
    by (simp_all add: p round_pos_def Let_def flip: e_def)
qed

lemma round_pos_positive: "0 < x \<Longrightarrow> 0 < round_pos x"
  using round_pos_bounds(1) [of x] pow2_pos [of "ilog2 x"] by linarith

lemma round_pos_mono:
  assumes "0 < x" "x \<le> y"
  shows "round_pos x \<le> round_pos y"
proof (cases "ilog2 x = ilog2 y")
  case True
  have "x / 2 powi (ilog2 y - 52) \<le> y / 2 powi (ilog2 y - 52)"
    using assms(2) by (simp add: divide_right_mono)
  from round_half_even_mono [OF this] show ?thesis by (simp add: round_pos_def True Let_def)
next
  case False
  with ilog2_mono [OF assms] have "(2::rat) powi (ilog2 x + 1) \<le> 2 powi ilog2 y" by (intro pow2_mono) simp
  moreover have "0 < y" using assms by simp
  ultimately show ?thesis
    using round_pos_bounds(2) [OF assms(1)] round_pos_bounds(1) [of y] by linarith
qed

lemma rnd_0 [simp]: "rnd 0 = 0"
  by (simp add: rnd_def)

lemma rnd_minus [simp]: "rnd (- x) = - rnd x"
  by (auto simp: rnd_def)

lemma rnd_nonneg: "0 \<le> x \<Longrightarrow> 0 \<le> rnd x"
  using round_pos_positive [of x] by (auto simp: rnd_def)

lemma rnd_mono:
  assumes "x \<le> y"
  shows "rnd x \<le> rnd y"
proof -
  consider "0 < x" | "y < 0" | "x \<le> 0" "0 \<le> y" by linarith
  then show ?thesis
  proof cases
    case 1
    with assms show ?thesis by (simp add: rnd_def round_pos_mono)
  next
    case 2
    with assms show ?thesis by (simp add: rnd_def round_pos_mono)
  next
    case 3
    then have "rnd x \<le> 0" "0 \<le> rnd y" using rnd_nonneg [of y] rnd_nonneg [of "- x"] by simp_all
    then show ?thesis by linarith
  qed
qed

text \<open>A number of at most 53 significant bits is kept.\<close>

lemma round_pos_exact:
  assumes "0 < m" "m \<le> 2 ^ 53"
  shows "round_pos (of_int m * 2 powi e) = of_int m * 2 powi e"
proof -
  let ?x = "(of_int m :: rat) * 2 powi e"
  have x: "0 < ?x" using assms(1) by simp
  have "(of_int m :: rat) \<le> of_int (2 ^ 53)" using assms(2) by (simp only: of_int_le_iff)
  then have "?x \<le> 2 ^ 53 * 2 powi e" by simp
  also have "\<dots> = 2 powi (e + 53)" using pow2_add [of e 53] by (simp add: mult.commute)
  finally have "(2::rat) powi ilog2 ?x \<le> 2 powi (e + 53)" using ilog2_bounds(1) [OF x] by linarith
  then have le: "ilog2 ?x \<le> e + 53"
    using pow2_mono [of "e + 54" "ilog2 ?x"] pow2_add [of "e + 53" 1] pow2_pos [of "e + 53"]
    by (cases "e + 54 \<le> ilog2 ?x") (simp_all add: algebra_simps)
  show ?thesis
  proof (cases "ilog2 ?x = e + 53")
    case True
    then have "2 powi (e + 53) \<le> ?x" using ilog2_bounds(1) [OF x] by simp
    then have "?x = 2 powi (e + 53)" using \<open>?x \<le> 2 ^ 53 * 2 powi e\<close> \<open>2 ^ 53 * 2 powi e = 2 powi (e + 53)\<close> by linarith
    moreover have "ilog2 (2 powi (e + 53)) = e + 53"
      by (rule ilog2_unique) (simp_all only: pow2_Suc order_refl, simp)
    moreover have "(2::rat) powi (e + 53) / 2 powi (e + 1) = of_int (2 ^ 52)"
      using pow2_add [of "e + 1" 52] by (simp add: algebra_simps)
    then have "round_half_even ((2::rat) powi (e + 53) / 2 powi (e + 1)) = 2 ^ 52" by (simp only: round_half_even_int)
    ultimately show ?thesis
      using pow2_add [of "e + 1" 52] by (simp add: round_pos_def Let_def algebra_simps)
  next
    case False
    define k where "k = nat (e - (ilog2 ?x - 52))"
    have "e = ilog2 ?x - 52 + int k" using le False by (simp add: k_def)
    then have q: "2 powi e = (2::rat) powi (ilog2 ?x - 52) * 2 ^ k" using pow2_add [of "ilog2 ?x - 52" "int k"] by simp
    have "?x / 2 powi (ilog2 ?x - 52) = of_int (m * 2 ^ k)" by (subst q) simp
    then have "round_half_even (?x / 2 powi (ilog2 ?x - 52)) = m * 2 ^ k" by (simp only: round_half_even_int)
    then have "round_pos ?x = of_int (m * 2 ^ k) * 2 powi (ilog2 ?x - 52)" by (simp only: round_pos_def Let_def)
    also have "\<dots> = ?x" by (subst q) simp
    finally show ?thesis .
  qed
qed

lemma rnd_exact: "\<bar>m\<bar> \<le> 2 ^ 53 \<Longrightarrow> rnd (of_int m * 2 powi e) = of_int m * 2 powi e"
proof (cases m "0 :: int" rule: linorder_cases)
  case less
  assume "\<bar>m\<bar> \<le> 2 ^ 53"
  moreover have "(of_int m :: rat) * 2 powi e < 0" using less by (simp add: mult_neg_pos)
  ultimately show ?thesis using less round_pos_exact [of "- m" e] by (simp add: rnd_def)
qed (simp_all add: rnd_def round_pos_exact)

lemma rnd_int: "\<bar>m\<bar> \<le> 2 ^ 53 \<Longrightarrow> rnd (of_int m) = of_int m"
  using rnd_exact [of m 0] by simp

lemma fint_exact [simp]: "\<bar>m\<bar> \<le> 2 ^ 53 \<Longrightarrow> fint m = of_int m"
  by (simp add: fint_def rnd_int)

lemma round_pos_form: "0 < x \<Longrightarrow> \<exists>m e. round_pos x = of_int m * 2 powi e \<and> 0 < m \<and> m \<le> 2 ^ 53"
proof -
  assume x: "0 < x"
  define e where "e = ilog2 x - 52"
  define m where "m = round_half_even (x / 2 powi e)"
  have eq: "round_pos x = of_int m * 2 powi e" by (simp add: round_pos_def Let_def e_def m_def)
  have "0 < (of_int m :: rat) * 2 powi e" using round_pos_positive [OF x] eq by simp
  then have "0 < m" using pow2_pos [of e] by (simp add: zero_less_mult_iff del: pow2_pos)
  moreover have "of_int m * 2 powi e \<le> (2::rat) ^ 53 * 2 powi e"
    using round_pos_bounds(2) [OF x] pow2_add [of 53 e] unfolding eq by (simp add: e_def algebra_simps)
  then have "(of_int m :: rat) \<le> of_int (2 ^ 53)" by simp
  then have "m \<le> 2 ^ 53" by (simp only: of_int_le_iff)
  ultimately show ?thesis using eq by blast
qed

lemma rnd_form: "\<exists>m e. rnd x = of_int m * 2 powi e \<and> \<bar>m\<bar> \<le> 2 ^ 53"
proof (cases x "0 :: rat" rule: linorder_cases)
  case less
  then obtain m e where "round_pos (- x) = of_int m * 2 powi e" "0 < m" "m \<le> 2 ^ 53"
    using round_pos_form [of "- x"] by auto
  with less show ?thesis by (intro exI [of _ "- m"] exI [of _ e]) (simp add: rnd_def)
next
  case equal
  then show ?thesis by (intro exI [of _ 0]) simp
next
  case greater
  then show ?thesis using round_pos_form [OF greater] by (fastforce simp: rnd_def)
qed

text \<open>Representable numbers: the results of rounding, and what the values of a program are.\<close>

definition is_float :: "rat \<Rightarrow> bool" where
  "is_float x \<longleftrightarrow> rnd x = x"

lemma is_float_rnd [simp]: "is_float (rnd x)"
  using rnd_form [of x] rnd_exact by (auto simp: is_float_def)

lemma is_float_0 [simp]: "is_float 0"
  by (simp add: is_float_def)

lemma is_float_int: "\<bar>m\<bar> \<le> 2 ^ 53 \<Longrightarrow> is_float (of_int m)"
  by (simp add: is_float_def rnd_int)

lemma is_float_minus [simp]: "is_float (- x) = is_float x"
  by (simp add: is_float_def)

lemma rnd_le: "is_float y \<Longrightarrow> x \<le> y \<Longrightarrow> rnd x \<le> y"
  using rnd_mono [of x y] by (simp add: is_float_def)

lemma rnd_ge: "is_float y \<Longrightarrow> y \<le> x \<Longrightarrow> y \<le> rnd x"
  using rnd_mono [of y x] by (simp add: is_float_def)

lemma is_float_half: "is_float x \<Longrightarrow> is_float (x / 2)"
proof -
  assume "is_float x"
  then obtain m e where "x = of_int m * 2 powi e" "\<bar>m\<bar> \<le> 2 ^ 53"
    using rnd_form [of x] by (auto simp: is_float_def)
  then have "x / 2 = of_int m * 2 powi (e - 1)" using pow2_add [of "e - 1" 1] by simp
  with \<open>\<bar>m\<bar> \<le> 2 ^ 53\<close> show ?thesis by (simp add: is_float_def rnd_exact)
qed

text \<open>Rounding at most doubles.\<close>

lemma rnd_le_double: "0 \<le> x \<Longrightarrow> rnd x \<le> 2 * x"
proof -
  assume "0 \<le> x"
  show ?thesis
  proof (cases "x = 0")
    case False
    with \<open>0 \<le> x\<close> have x: "0 < x" by simp
    have "2 powi (ilog2 x + 1) \<le> 2 * x" using ilog2_bounds(1) [OF x] pow2_add [of "ilog2 x" 1] by simp
    with round_pos_bounds(2) [OF x] x show ?thesis by (simp add: rnd_def)
  qed simp
qed

end
