(* ===== verification/Shell_Uptime.thy ===== *)
theory Shell_Uptime
  imports Shell_Date Shell_Format Go_Float
begin

text \<open>
  Durations and how the simulated machine shows them: \<^verbatim>\<open>time.Duration\<close> in nanoseconds with its conversions to
  \<^verbatim>\<open>float64\<close>, the uptime displays of \<^verbatim>\<open>src/fakeshell/date.go\<close> and the columns of \<^verbatim>\<open>src/fakeshell/top.go\<close>.
\<close>

section \<open>Durations\<close>

definition second_ns :: int where "second_ns = 10 ^ 9"
definition minute_ns :: int where "minute_ns = 60 * 10 ^ 9"
definition hour_ns :: int where "hour_ns = 3600 * 10 ^ 9"

text \<open>\<^verbatim>\<open>Hours\<close>, \<^verbatim>\<open>Minutes\<close> and \<^verbatim>\<open>Seconds\<close>: whole units plus the fraction of one.\<close>

definition in_units :: "int \<Rightarrow> int \<Rightarrow> float64" where
  "in_units u d = fadd (fint (div_trunc d u)) (fdiv (fint (mod_trunc d u)) (of_int u))"

abbreviation dur_Hours :: "int \<Rightarrow> float64" where "dur_Hours \<equiv> in_units hour_ns"
abbreviation dur_Minutes :: "int \<Rightarrow> float64" where "dur_Minutes \<equiv> in_units minute_ns"
abbreviation dur_Seconds :: "int \<Rightarrow> float64" where "dur_Seconds \<equiv> in_units second_ns"

section \<open>Displays\<close>

definition uptime_text :: "int \<Rightarrow> int \<Rightarrow> int \<Rightarrow> string" where
  "uptime_text days h m =
     (if days = 0 then [] else if days = 1 then ''1 day, '' else Itoa days @ '' days, '') @
     (if h = 0 \<and> days = 0 then Itoa m @ '' min'' else blank_pad 2 h @ '':'' @ zero_pad 2 m)"

definition formatUptime :: "int \<Rightarrow> string" where
  "formatUptime d =
     (let hours = ftrunc (dur_Hours d)
      in uptime_text (div_trunc hours 24) (mod_trunc hours 24) (mod_trunc (ftrunc (dur_Minutes d)) 60))"

definition unit_part :: "int \<Rightarrow> string \<Rightarrow> string list" where
  "unit_part n s = (if n = 1 then [''1 '' @ s] else if n > 1 then [Itoa n @ '' '' @ s @ ''s''] else [])"

definition pretty_text :: "int \<Rightarrow> int \<Rightarrow> int \<Rightarrow> string" where
  "pretty_text days h m =
     (let parts = unit_part days ''day'' @ unit_part h ''hour'' @ unit_part m ''minute''
      in if parts = [] then ''up 0 minutes'' else ''up '' @ Join parts '', '')"

definition formatUptimePretty :: "int \<Rightarrow> string" where
  "formatUptimePretty d =
     (let hours = ftrunc (dur_Hours d)
      in pretty_text (div_trunc hours 24) (mod_trunc hours 24) (mod_trunc (ftrunc (dur_Minutes d)) 60))"

definition clockDuration :: "int \<Rightarrow> string" where
  "clockDuration d =
     (let s = ftrunc (dur_Seconds d) in Itoa (div_trunc s 60) @ '':'' @ zero_pad 2 (mod_trunc s 60))"

definition hmsDuration :: "int \<Rightarrow> string" where
  "hmsDuration d =
     (let s = ftrunc (dur_Seconds d)
      in zero_pad 2 (div_trunc s 3600) @ '':'' @ zero_pad 2 (mod_trunc (div_trunc s 60) 60) @ '':'' @
         zero_pad 2 (mod_trunc s 60))"

definition topDuration :: "int \<Rightarrow> string" where
  "topDuration d =
     (let cs = div_trunc d (10 ^ 7)
      in Itoa (div_trunc cs 6000) @ '':'' @ zero_pad 2 (mod_trunc (div_trunc cs 100) 60) @ ''.'' @
         zero_pad 2 (mod_trunc cs 100))"

section \<open>The fractions do not round up\<close>

lemma div_mod_trunc: "0 \<le> a \<Longrightarrow> 0 < b \<Longrightarrow> div_trunc a b = a div b \<and> mod_trunc a b = a mod b"
  by (simp add: div_trunc_def mod_trunc_def minus_mult_div_eq_mod)

text \<open>
  With units of at most \<open>2 ^ k\<close> nanoseconds, the fraction stays below the largest multiple of \<open>2 ^ -k\<close> under one, also
  after rounding; so the sum of whole units and fraction stays below the next whole number as long as the number of
  units leaves \<open>k\<close> of the 53 bits for the fraction.
\<close>

definition below_one :: "nat \<Rightarrow> rat" where
  "below_one k = of_int (2 ^ k - 1) * 2 powi (- int k)"

lemma below_one_eq: "below_one k = 1 - 1 / 2 ^ k"
  by (simp add: below_one_def power_int_minus divide_inverse algebra_simps)

lemma fraction_below_one:
  assumes "0 \<le> r" "r < u" "u \<le> 2 ^ k" "k \<le> 52"
  shows "0 \<le> rnd (of_int r / of_int u)" "rnd (of_int r / of_int u) \<le> below_one k"
proof -
  have "(2::int) ^ k \<le> 2 ^ 52"
    using assms(4) by (simp_all only: power_increasing_iff one_less_numeral_iff semiring_norm)
  then have "is_float (below_one k)" unfolding is_float_def below_one_def by (intro rnd_exact) simp
  moreover have "of_int r / of_int u \<le> below_one k"
  proof -
    have "(of_int u :: rat) \<le> of_int (2 ^ k)" using assms(3) by (simp only: of_int_le_iff)
    then have "1 / (2::rat) ^ k \<le> 1 / of_int u" using assms(1,2) by (simp add: frac_le)
    moreover have "(of_int r :: rat) / of_int u \<le> (of_int u - 1) / of_int u"
    proof (rule divide_right_mono)
      have "(of_int r :: rat) \<le> of_int (u - 1)" using assms(2) by (simp only: of_int_le_iff)
      then show "(of_int r :: rat) \<le> of_int u - 1" by simp
    qed (use assms(1,2) in simp)
    moreover have "(of_int u - 1) / (of_int u :: rat) = 1 - 1 / of_int u" using assms(1,2) by (simp add: divide_simps)
    ultimately show ?thesis unfolding below_one_eq by linarith
  qed
  ultimately show "rnd (of_int r / of_int u) \<le> below_one k" by (simp add: rnd_le)
  show "0 \<le> rnd (of_int r / of_int u)" using assms(1,2) by (simp add: rnd_nonneg)
qed

lemma ftrunc_in_units:
  assumes "0 \<le> d" "0 < u" "u \<le> 2 ^ k" "k \<le> 52" "d div u < 2 ^ (53 - k)"
  shows "ftrunc (in_units u d) = d div u"
proof -
  define q where "q = d div u"
  define r where "r = d mod u"
  have q: "0 \<le> q" "q < 2 ^ (53 - k)" and r: "0 \<le> r" "r < u"
    using assms by (simp_all add: q_def r_def pos_imp_zdiv_nonneg_iff)
  have k: "(2::int) ^ (53 - k) * 2 ^ k = 2 ^ 53" using assms(4) by (simp flip: power_add)
  have "(2::int) ^ (53 - k) \<le> 2 ^ 53" "(2::int) ^ k \<le> 2 ^ 52"
    using assms(4) by (simp_all only: power_increasing_iff one_less_numeral_iff semiring_norm diff_le_self)
  then have exact: "fint q = of_int q" "fint r = of_int r" using q r assms(3) by (simp_all add: fint_exact)
  note frac = fraction_below_one [OF r assms(3,4)]
  define m where "m = q * 2 ^ k + (2 ^ k - 1)"
  have "q * 2 ^ k + 2 ^ k \<le> (2::int) ^ (53 - k) * 2 ^ k"
    using q(2) mult_right_mono [of "q + 1" "2 ^ (53 - k)" "2 ^ k"] by (simp add: algebra_simps)
  then have "\<bar>m\<bar> \<le> 2 ^ 53" using q(1) unfolding m_def k by simp
  then have "is_float (of_int m * 2 powi (- int k))" unfolding is_float_def by (rule rnd_exact)
  moreover have "of_int m * 2 powi (- int k) = of_int q + below_one k"
    by (simp add: m_def below_one_eq power_int_minus field_simps)
  ultimately have hi: "rnd (of_int q + rnd (of_int r / of_int u)) \<le> of_int q + below_one k"
    using frac by (simp add: rnd_le)
  have "is_float (of_int q)" by (rule is_float_int) (use q \<open>(2::int) ^ (53 - k) \<le> 2 ^ 53\<close> in simp)
  then have lo: "of_int q \<le> rnd (of_int q + rnd (of_int r / of_int u))" using frac by (simp add: rnd_ge)
  have sum: "in_units u d = rnd (of_int q + rnd (of_int r / of_int u))"
    using div_mod_trunc [OF assms(1,2)] exact by (simp add: in_units_def fadd_def fdiv_def q_def r_def)
  have "below_one k < 1" by (simp add: below_one_eq)
  with hi lo have "\<lfloor>in_units u d\<rfloor> = q" unfolding sum by (intro floor_unique) simp_all
  moreover have "0 \<le> in_units u d" using lo q(1) unfolding sum by (meson of_int_0_le_iff order_trans)
  ultimately show ?thesis by (simp add: ftrunc_def q_def)
qed

lemma hours_exact: "0 \<le> d \<Longrightarrow> d < 2048 * hour_ns \<Longrightarrow> ftrunc (dur_Hours d) = d div hour_ns"
  by (rule ftrunc_in_units [where k = 42]) (simp_all add: hour_ns_def)

lemma minutes_exact: "0 \<le> d \<Longrightarrow> d < 2048 * hour_ns \<Longrightarrow> ftrunc (dur_Minutes d) = d div minute_ns"
  by (rule ftrunc_in_units [where k = 36]) (simp_all add: hour_ns_def minute_ns_def)

lemma seconds_exact: "0 \<le> d \<Longrightarrow> d < 2048 * hour_ns \<Longrightarrow> ftrunc (dur_Seconds d) = d div second_ns"
  by (rule ftrunc_in_units [where k = 30]) (simp_all add: hour_ns_def second_ns_def)

text \<open>
  C28. Up to 85 days, floating point does not show in any uptime or CPU time: although hours, minutes and seconds are
  computed as \<^verbatim>\<open>float64\<close>, what is displayed is the exact integer quotient and remainder; no display jumps to the next
  hour, minute or second early.
\<close>

theorem uptime_displays_exact:
  assumes "0 \<le> d" "d < 2048 * hour_ns"
  shows "formatUptime d = uptime_text (d div (24 * hour_ns)) (d div hour_ns mod 24) (d div minute_ns mod 60) \<and>
    formatUptimePretty d = pretty_text (d div (24 * hour_ns)) (d div hour_ns mod 24) (d div minute_ns mod 60) \<and>
    hmsDuration d =
      zero_pad 2 (d div hour_ns) @ '':'' @ zero_pad 2 (d div minute_ns mod 60) @ '':'' @ zero_pad 2 (d div second_ns mod 60)"
proof -
  have days: "d div hour_ns div 24 = d div (24 * hour_ns)"
    by (simp add: zdiv_zmult2_eq mult.commute hour_ns_def)
  have ge: "0 \<le> d div hour_ns" "0 \<le> d div minute_ns" "0 \<le> d div second_ns"
    using assms(1) by (simp_all add: hour_ns_def minute_ns_def second_ns_def pos_imp_zdiv_nonneg_iff)
  note parts = hours_exact [OF assms] minutes_exact [OF assms] seconds_exact [OF assms]
    div_mod_trunc [OF ge(1), of 24] div_mod_trunc [OF ge(2), of 60] div_mod_trunc [OF ge(3), of 60]
    div_mod_trunc [OF ge(3), of 3600]
  have "formatUptime d = uptime_text (d div (24 * hour_ns)) (d div hour_ns mod 24) (d div minute_ns mod 60)"
    "formatUptimePretty d = pretty_text (d div (24 * hour_ns)) (d div hour_ns mod 24) (d div minute_ns mod 60)"
    by (simp_all add: formatUptime_def formatUptimePretty_def parts days)
  moreover have "d div second_ns div 60 = d div minute_ns" "d div second_ns div 3600 = d div hour_ns"
    by (simp_all add: second_ns_def minute_ns_def hour_ns_def flip: zdiv_zmult2_eq)
  then have "hmsDuration d = zero_pad 2 (d div hour_ns) @ '':'' @ zero_pad 2 (d div minute_ns mod 60) @ '':'' @
      zero_pad 2 (d div second_ns mod 60)"
    using div_mod_trunc [OF ge(2), of 60] by (simp add: hmsDuration_def parts)
  ultimately show ?thesis by simp
qed

theorem uptime_displays_exact_witness:
  "formatUptime (49 * hour_ns + 61 * minute_ns - 1) = ''2 days,  2:00''"
proof -
  have "uptime_text 2 2 0 = ''2 days,  2:00''" by code_simp
  moreover have "(49 * hour_ns + 61 * minute_ns - 1) div (24 * hour_ns) = 2"
    "(49 * hour_ns + 61 * minute_ns - 1) div hour_ns mod 24 = 2"
    "(49 * hour_ns + 61 * minute_ns - 1) div minute_ns mod 60 = 0"
    by (simp_all add: hour_ns_def minute_ns_def)
  ultimately show ?thesis
    using uptime_displays_exact [of "49 * hour_ns + 61 * minute_ns - 1"] by (simp add: hour_ns_def minute_ns_def)
qed

end
