(* ===== verification/Proc_Table.thy ===== *)
theory Proc_Table
  imports Shell_Uptime
begin

text \<open>
  The process table of the simulated machine, \<^verbatim>\<open>src/fakeshell/procs.go\<close>.  Times are nanoseconds, CPU shares \<^verbatim>\<open>float64\<close>.
  The pseudo-random generator is a stream: \<open>rFloat n\<close> and \<open>rInt n k\<close> are what the \<open>n\<close>-th draw gives when it is
  a \<^verbatim>\<open>Float64()\<close> or an \<^verbatim>\<open>IntN(k)\<close>, and \<open>drawn\<close> counts the draws.
\<close>

section \<open>State\<close>

record proc =
  PID :: int
  PPID :: int
  pUser :: string
  pTTY :: string
  pStat :: string
  Comm :: string
  pCmd :: string
  VSZ :: int
  RSS :: int
  SHR :: int
  pStart :: int
  CPUTime :: int
  pCPU :: float64
  pBase :: float64

definition memTotalKiB :: int where "memTotalKiB = 4015452"
definition memCacheKiB :: int where "memCacheKiB = 1214332"
definition memKernelKiB :: int where "memKernelKiB = 386240"
definition swapTotalKiB :: int where "swapTotalKiB = 2097148"
definition numCPU :: int where "numCPU = 2"

definition fakeUptime :: int where
  "fakeUptime = 3 * 24 * hour_ns + 4 * hour_ns + 12 * minute_ns"

record rng =
  rFloat :: "nat \<Rightarrow> float64"
  rInt :: "nat \<Rightarrow> nat \<Rightarrow> nat"
  drawn :: nat

definition rng_Float64 :: "rng \<Rightarrow> float64 \<times> rng" where
  "rng_Float64 r = (rFloat r (drawn r), r\<lparr>drawn := drawn r + 1\<rparr>)"

definition rng_IntN :: "nat \<Rightarrow> rng \<Rightarrow> nat \<times> rng" where
  "rng_IntN k r = (rInt r (drawn r) k, r\<lparr>drawn := drawn r + 1\<rparr>)"

record proc_table =
  boot :: int
  sampled :: int
  gen :: rng
  procs :: "proc list"
  nextPID :: int
  loads :: "float64 list"

section \<open>The machine's processes\<close>

definition lit :: "int \<Rightarrow> int \<Rightarrow> float64" where
  "lit a b = rnd (of_int a / of_int b)"

definition service ::
    "int \<Rightarrow> int \<Rightarrow> string \<Rightarrow> string \<Rightarrow> string \<Rightarrow> string \<Rightarrow> string \<Rightarrow> int \<Rightarrow> int \<Rightarrow> int \<Rightarrow> int \<Rightarrow> int \<Rightarrow> proc" where
  "service pid ppid user tty st comm cmd vsz rss shr start tenths =
     \<lparr>PID = pid, PPID = ppid, pUser = user, pTTY = tty, pStat = st, Comm = comm, pCmd = cmd, VSZ = vsz, RSS = rss,
      SHR = shr, pStart = start, CPUTime = 0, pCPU = 0, pBase = lit tenths 10\<rparr>"

definition machine_procs :: "int \<Rightarrow> proc list" where
  "machine_procs b =
     [service 1 0 ''root'' ''?'' ''Ss'' ''systemd''
        ''/usr/lib/systemd/systemd --switched-root --system --deserialize=42''
        173940 17920 10752 (b + 0) 1,
      service 2 0 ''root'' ''?'' ''S'' ''kthreadd''
        ''[kthreadd]''
        0 0 0 (b + 0) 0,
      service 612 1 ''root'' ''?'' ''Ss'' ''systemd-journal''
        ''/usr/lib/systemd/systemd-journald''
        58716 22528 21504 (b + 2 * second_ns) 1,
      service 655 1 ''root'' ''?'' ''Ss'' ''systemd-udevd''
        ''/usr/lib/systemd/systemd-udevd''
        34576 11264 8192 (b + 2 * second_ns) 0,
      service 812 1 ''root'' ''?'' ''Ss'' ''sshd''
        ''sshd: /usr/sbin/sshd -D [listener] 0 of 10-100 startups''
        16448 9216 7936 (b + 6 * second_ns) 0,
      service 815 1 ''root'' ''?'' ''Ss'' ''crond''
        ''/usr/sbin/crond -n''
        222380 3584 3200 (b + 6 * second_ns) 0,
      service 902 1 ''postgres'' ''?'' ''Ss'' ''postgres''
        ''/usr/bin/postgres -D /var/lib/pgsql/data''
        225312 29184 26880 (b + 8 * second_ns) 3,
      service 915 902 ''postgres'' ''?'' ''Ss'' ''postgres''
        ''postgres: checkpointer''
        225452 8448 6400 (b + 8 * second_ns) 0,
      service 916 902 ''postgres'' ''?'' ''Ss'' ''postgres''
        ''postgres: walwriter''
        225312 10496 8448 (b + 8 * second_ns) 1,
      service 917 902 ''postgres'' ''?'' ''Ss'' ''postgres''
        ''postgres: autovacuum launcher''
        226860 7680 5376 (b + 8 * second_ns) 0,
      service 1010 1 ''root'' ''?'' ''Ss'' ''nginx''
        ''nginx: master process /usr/sbin/nginx''
        11296 3072 1792 (b + 9 * second_ns) 0,
      service 1011 1010 ''nginx'' ''?'' ''S'' ''nginx''
        ''nginx: worker process''
        15580 7424 4352 (b + 9 * second_ns) 3,
      service 1012 1010 ''nginx'' ''?'' ''S'' ''nginx''
        ''nginx: worker process''
        15580 7168 4352 (b + 9 * second_ns) 2,
      service 2140 1 ''review'' ''?'' ''Ssl'' ''demo-app''
        ''/home/review/app/bin/demo-app --listen :8080''
        1247900 48640 12288 (b + 2 * hour_ns) 16,
      service 2177 1 ''review'' ''?'' ''Ssl'' ''node''
        ''node /home/review/app/web/server.js''
        1094812 96512 39936 (b + 2 * hour_ns) 24,
      service 2190 1 ''review'' ''?'' ''Ssl'' ''scomp''
        ''scomp --mode full''
        1235676 15360 9984 (b + 2 * hour_ns) 4,
      service 2214 2190 ''review'' ''pts/0'' ''Ss'' ''bash''
        ''-bash''
        224352 5376 3712 (b + 2 * hour_ns) 0]"

section \<open>Sampling\<close>

text \<open>One process; the result also has the CPU share that \<^verbatim>\<open>sample\<close> adds to its total.\<close>

definition sample_proc :: "int \<Rightarrow> rng \<Rightarrow> proc \<Rightarrow> proc \<times> rng" where
  "sample_proc dt r p =
     (let (x, r1) = rng_Float64 r;
          cpu0 = fmul (pBase p) (fadd (lit 4 10) (fmul (lit 12 10) x));
          (cpu, r3) =
            (if pBase p \<ge> 1 then
               (let (n, r2) = rng_IntN 8 r1
                in if n = 0 then (let (y, r3) = rng_Float64 r2 in (fadd cpu0 (fadd 4 (fmul 6 y)), r3)) else (cpu0, r2))
             else (cpu0, r1))
      in (p\<lparr>pCPU := cpu, CPUTime := CPUTime p + ftrunc (fmul (fdiv cpu 100) (fint dt))\<rparr>, r3))"

fun sample_procs :: "int \<Rightarrow> rng \<Rightarrow> float64 \<Rightarrow> proc list \<Rightarrow> proc list \<times> rng \<times> float64" where
  "sample_procs dt r tot [] = ([], r, tot)"
| "sample_procs dt r tot (p # ps) =
     (let (p1, r1) = sample_proc dt r p; (ps1, r2, tot1) = sample_procs dt r1 (fadd tot (pCPU p1)) ps
      in (p1 # ps1, r2, tot1))"

definition load_weights :: "float64 list" where
  "load_weights = [lit 30 100, lit 8 100, lit 3 100]"

definition smooth :: "float64 \<Rightarrow> float64 \<Rightarrow> float64 \<Rightarrow> float64" where
  "smooth inst w l = fadd l (fmul w (fsub inst l))"

definition sample :: "int \<Rightarrow> proc_table \<Rightarrow> proc_table \<times> proc list" where
  "sample tm t =
     (let dt = max 0 (tm - sampled t);
          (ps, r, tot) = sample_procs dt (gen t) 0 (procs t);
          (x, r1) = rng_Float64 r;
          inst = fadd (fmul (fdiv tot 100) (fint numCPU)) (fmul (lit 15 100) x);
          t1 = t\<lparr>sampled := tm, gen := r1, procs := ps, loads := map2 (smooth inst) load_weights (loads t)\<rparr>
      in (t1, sort_key PID ps))"

definition newProcTable :: "int \<Rightarrow> rng \<Rightarrow> proc_table" where
  "newProcTable tm r =
     (let b = tm - fakeUptime;
          ps = map (\<lambda>p. p\<lparr>CPUTime := ftrunc (fmul (fdiv (pBase p) 100) (fint (tm - pStart p)))\<rparr>) (machine_procs b)
      in fst (sample tm \<lparr>boot = b, sampled = tm, gen = r, procs = ps, nextPID = 48211,
                         loads = [lit 42 100, lit 37 100, lit 31 100]\<rparr>))"

text \<open>A short-lived process of the shell.\<close>

definition transient :: "int \<Rightarrow> string \<Rightarrow> string \<Rightarrow> float64 \<Rightarrow> proc_table \<Rightarrow> proc_table \<times> proc" where
  "transient tm comm cmd cpu t =
     (let (n, r) = rng_IntN 6 (gen t); pid = nextPID t + 1 + int n
      in (t\<lparr>gen := r, nextPID := pid\<rparr>,
          \<lparr>PID = pid, PPID = 2214, pUser = ''review'', pTTY = ''pts/0'', pStat = ''R+'', Comm = comm, pCmd = cmd,
           VSZ = 226044, RSS = 4352, SHR = 3584, pStart = tm, CPUTime = 0, pCPU = cpu, pBase = 0\<rparr>))"

definition memUsedKiB :: "proc_table \<Rightarrow> int" where
  "memUsedKiB t = memKernelKiB + sum_list (map RSS (procs t))"

definition table_uptime :: "proc_table \<Rightarrow> int \<Rightarrow> int" where
  "table_uptime t tm = tm - boot t"

section \<open>Bounds\<close>

definition rng_ok :: "rng \<Rightarrow> bool" where
  "rng_ok r \<longleftrightarrow> (\<forall>n. 0 \<le> rFloat r n \<and> rFloat r n < 1) \<and> (\<forall>n k. 0 < k \<longrightarrow> rInt r n k < k)"

lemma rng_ok_drawn [simp]: "rng_ok (r\<lparr>drawn := n\<rparr>) = rng_ok r"
  by (simp add: rng_ok_def)

lemma rng_draws:
  assumes "rng_ok r"
  shows "0 \<le> fst (rng_Float64 r)" "fst (rng_Float64 r) \<le> 1" "rng_ok (snd (rng_Float64 r))"
    "0 < k \<Longrightarrow> fst (rng_IntN k r) < k" "rng_ok (snd (rng_IntN k r))"
  using assms by (auto simp: rng_Float64_def rng_IntN_def rng_ok_def less_imp_le)

text \<open>Bounds of the operations by numbers that are exact.\<close>

definition bounded :: "rat \<Rightarrow> float64 \<Rightarrow> bool" where
  "bounded b x \<longleftrightarrow> 0 \<le> x \<and> x \<le> b"

lemma is_float_numeral: "(numeral n :: int) \<le> 2 ^ 53 \<Longrightarrow> is_float (numeral n)" "is_float 1"
  using is_float_int [of "numeral n"] is_float_int [of 1] by simp_all

lemma bounded_rnd: "is_float b \<Longrightarrow> bounded b x \<Longrightarrow> bounded b (rnd x)"
  by (simp add: bounded_def rnd_nonneg rnd_le)

lemma bounded_fadd: "bounded a x \<Longrightarrow> bounded b y \<Longrightarrow> is_float c \<Longrightarrow> a + b \<le> c \<Longrightarrow> bounded c (fadd x y)"
  unfolding fadd_def by (rule bounded_rnd) (auto simp: bounded_def)

lemma bounded_fmul: "bounded a x \<Longrightarrow> bounded b y \<Longrightarrow> is_float c \<Longrightarrow> a * b \<le> c \<Longrightarrow> bounded c (fmul x y)"
  unfolding fmul_def by (rule bounded_rnd) (auto simp: bounded_def intro: order_trans [OF mult_mono])

lemma bounded_fdiv: "bounded a x \<Longrightarrow> 0 < d \<Longrightarrow> is_float c \<Longrightarrow> a / d \<le> c \<Longrightarrow> bounded c (fdiv x d)"
  unfolding fdiv_def by (rule bounded_rnd) (auto simp: bounded_def intro: order_trans [OF divide_right_mono])

lemma bounded_lit: "0 \<le> a \<Longrightarrow> 0 < b \<Longrightarrow> is_float c \<Longrightarrow> of_int a / of_int b \<le> c \<Longrightarrow> bounded c (lit a b)"
  unfolding lit_def by (rule bounded_rnd) (simp_all add: bounded_def)

section \<open>The table stays sound\<close>

text \<open>What sampling never changes of a process.\<close>

definition statics :: "proc \<Rightarrow> proc" where
  "statics p = p\<lparr>CPUTime := 0, pCPU := 0\<rparr>"

lemma machine_bases: "p \<in> set (machine_procs b) \<Longrightarrow> bounded 3 (pBase p)"
  by (auto simp: machine_procs_def service_def intro!: bounded_lit is_float_numeral)

lemma statics_base: "map statics ps = machine_procs b \<Longrightarrow> p \<in> set ps \<Longrightarrow> bounded 3 (pBase p)"
proof -
  assume "map statics ps = machine_procs b" "p \<in> set ps"
  then have "statics p \<in> set (machine_procs b)" by (metis image_eqI list.set_map)
  from machine_bases [OF this] show ?thesis by (simp add: statics_def)
qed

lemma sample_proc_ok:
  assumes "rng_ok r" "bounded 3 (pBase p)" "0 \<le> dt" "sample_proc dt r p = (p', r')"
  shows "rng_ok r' \<and> statics p' = statics p \<and> bounded 19 (pCPU p') \<and> CPUTime p \<le> CPUTime p'"
proof -
  obtain x r1 where x: "rng_Float64 r = (x, r1)" by force
  obtain n r2 where n: "rng_IntN 8 r1 = (n, r2)" by force
  obtain y r3 where y: "rng_Float64 r2 = (y, r3)" by force
  note ok1 = rng_draws(1-3) [OF assms(1), unfolded x fst_conv snd_conv]
  note ok2 = rng_draws(5) [OF ok1(3), of 8, unfolded n fst_conv snd_conv]
  note ok3 = rng_draws(1-3) [OF ok2, unfolded y fst_conv snd_conv]
  define cpu0 where "cpu0 = fmul (pBase p) (fadd (lit 4 10) (fmul (lit 12 10) x))"
  have "bounded 1 (lit 4 10)" "bounded 2 (lit 12 10)" "bounded 1 x" "bounded 1 y"
    using ok1 ok3 by (simp_all add: bounded_lit is_float_numeral, simp_all add: bounded_def)
  note parts = this
  have "bounded 2 (fmul (lit 12 10) x)" by (rule bounded_fmul [OF parts(2,3)]) (simp_all add: is_float_numeral)
  from bounded_fadd [OF parts(1) this, of 3] have "bounded 3 (fadd (lit 4 10) (fmul (lit 12 10) x))"
    by (simp add: is_float_numeral)
  from bounded_fmul [OF assms(2) this, of 9] have c0: "bounded 9 cpu0" by (simp add: cpu0_def is_float_numeral)
  have nums: "bounded 6 6" "bounded 4 4" by (simp_all add: bounded_def)
  have "bounded 6 (fmul 6 y)" by (rule bounded_fmul [OF nums(1) parts(4)]) (simp_all add: is_float_numeral)
  from bounded_fadd [OF nums(2) this, of 10] have "bounded 10 (fadd 4 (fmul 6 y))" by (simp add: is_float_numeral)
  from bounded_fadd [OF c0 this, of 19] have c1: "bounded 19 (fadd cpu0 (fadd 4 (fmul 6 y)))" by (simp add: is_float_numeral)
  have "bounded 19 cpu0" using c0 by (simp add: bounded_def)
  have time: "0 \<le> ftrunc (fmul (fdiv c 100) (fint dt))" if "bounded 19 c" for c
  proof -
    have "0 \<le> fmul (fdiv c 100) (fint dt)"
      using that assms(3) by (simp add: fmul_def fdiv_def fint_def bounded_def rnd_nonneg)
    then show ?thesis by (simp add: ftrunc_def)
  qed
  show ?thesis
    using assms(4) ok1 ok2 ok3 c1 \<open>bounded 19 cpu0\<close> time [OF c1] time [OF \<open>bounded 19 cpu0\<close>]
    by (auto simp: sample_proc_def x n y cpu0_def [symmetric] statics_def Let_def split: if_splits)
qed

lemma sample_procs_ok:
  assumes "rng_ok r" "\<And>p. p \<in> set ps \<Longrightarrow> bounded 3 (pBase p)" "0 \<le> dt" "bounded (of_nat k * 19) tot"
    "sample_procs dt r tot ps = (ps', r', tot')" "k + length ps \<le> 100"
  shows "rng_ok r' \<and> map statics ps' = map statics ps \<and> list_all2 (\<lambda>p p'. CPUTime p \<le> CPUTime p') ps ps' \<and>
    list_all (\<lambda>p. bounded 19 (pCPU p)) ps' \<and> bounded (of_nat (k + length ps) * 19) tot'"
  using assms
proof (induction ps arbitrary: r tot k ps' r' tot')
  case (Cons p ps)
  obtain p1 r1 where p: "sample_proc dt r p = (p1, r1)" by force
  obtain ps1 r2 tot1 where ps: "sample_procs dt r1 (fadd tot (pCPU p1)) ps = (ps1, r2, tot1)" by (metis prod_cases3)
  from sample_proc_ok [OF Cons.prems(1) _ Cons.prems(3) p] Cons.prems(2)
  have one: "rng_ok r1" "statics p1 = statics p" "bounded 19 (pCPU p1)" "CPUTime p \<le> CPUTime p1" by auto
  have "is_float (of_int (int (Suc k) * 19))" by (rule is_float_int) (use Cons.prems(6) in simp)
  then have "is_float (of_nat (Suc k) * 19)" by simp
  from bounded_fadd [OF Cons.prems(4) one(3) this] have "bounded (of_nat (Suc k) * 19) (fadd tot (pCPU p1))"
    by (simp add: algebra_simps)
  from Cons.IH [OF one(1) _ Cons.prems(3) this ps] Cons.prems(2,6)
  have "rng_ok r2 \<and> map statics ps1 = map statics ps \<and> list_all2 (\<lambda>p p'. CPUTime p \<le> CPUTime p') ps ps1 \<and>
    list_all (\<lambda>p. bounded 19 (pCPU p)) ps1 \<and> bounded (of_nat (Suc k + length ps) * 19) tot1" by auto
  with Cons.prems(5) p ps one show ?case by (auto simp: Let_def)
qed simp

lemma smooth_bounded:
  assumes "is_float l" "bounded 9 l" "bounded 9 inst" "bounded (1 / 2) w"
  shows "is_float (smooth inst w l) \<and> bounded 9 (smooth inst w l)"
proof -
  define y where "y = rnd (inst - l)"
  have "is_float y" by (simp add: y_def)
  have w: "0 \<le> w" "w \<le> 1 / 2" and l: "0 \<le> l" "l \<le> 9" and i: "0 \<le> inst" "inst \<le> 9"
    using assms by (simp_all add: bounded_def)
  have up: "rnd (w * y) \<le> 9 - l"
  proof (cases "0 \<le> inst - l")
    case True
    then have "0 \<le> y" by (simp add: y_def rnd_nonneg)
    then have "rnd (w * y) \<le> y / 2"
      using w mult_right_mono [of w "1/2" y] by (intro rnd_le is_float_half \<open>is_float y\<close>) simp
    also have "\<dots> \<le> inst - l" using rnd_le_double [OF True] by (simp add: y_def)
    finally show ?thesis using i by simp
  next
    case False
    then have "y \<le> 0" using rnd_mono [of "inst - l" 0] by (simp add: y_def)
    then have "w * y \<le> 0" using w by (simp add: mult_nonneg_nonpos)
    then have "rnd (w * y) \<le> 0" by (simp add: rnd_le)
    with l show ?thesis by simp
  qed
  have down: "- l \<le> rnd (w * y)"
  proof (rule rnd_ge)
    have "- l \<le> y" unfolding y_def by (rule rnd_ge) (use assms(1) i in simp_all)
    have "w * - l \<le> w * y" by (rule mult_left_mono [OF \<open>- l \<le> y\<close> w(1)])
    moreover have "w * l \<le> l" using w l mult_right_mono [of w 1 l] by simp
    ultimately show "- l \<le> w * y" by simp
  qed (use assms(1) in simp)
  show ?thesis
    using up down by (auto simp: smooth_def fadd_def fmul_def fsub_def y_def [symmetric] bounded_def
        intro!: rnd_nonneg rnd_le is_float_numeral)
qed

text \<open>
  Process IDs are those of the machine, in order and below the first fresh one; the load averages are floats.
\<close>

definition table_inv :: "proc_table \<Rightarrow> bool" where
  "table_inv t \<longleftrightarrow>
     rng_ok (gen t) \<and> map statics (procs t) = machine_procs (boot t) \<and>
     list_all (\<lambda>p. bounded 19 (pCPU p)) (procs t) \<and> 48211 \<le> nextPID t \<and>
     length (loads t) = 3 \<and> list_all (\<lambda>l. is_float l \<and> bounded 9 l) (loads t)"

lemma machine_pids: "sorted_wrt (<) (map PID (machine_procs b))" "list_all (\<lambda>p. PID p < 48211) (machine_procs b)"
  "length (machine_procs b) = 17"
  by (simp_all add: machine_procs_def service_def)

lemma statics_pids:
  assumes "map statics ps = machine_procs b"
  shows "sorted_wrt (<) (map PID ps)" "list_all (\<lambda>p. PID p < 48211) ps" "length ps = 17"
proof -
  have "map PID ps = map PID (map statics ps)" "list_all (\<lambda>p. PID p < 48211) ps = list_all (\<lambda>p. PID p < 48211) (map statics ps)"
    by (simp_all add: statics_def comp_def list_all_length)
  then show "sorted_wrt (<) (map PID ps)" "list_all (\<lambda>p. PID p < 48211) ps"
    using machine_pids(1,2) [of b] by (simp_all only: assms)
  show "length ps = 17" using arg_cong [OF assms, of length] machine_pids(3) by simp
qed

lemma sort_strict: "sorted_wrt (<) (map f xs) \<Longrightarrow> sort_key f xs = xs" for f :: "'a \<Rightarrow> int"
  by (rule sort_key_id_if_sorted) (auto simp: sorted_map intro: sorted_wrt_mono_rel [rotated] simp: sorted_wrt_map)

lemma sample_ok:
  assumes inv: "rng_ok (gen t)" "map statics (procs t) = machine_procs (boot t)" "48211 \<le> nextPID t"
    "length (loads t) = 3" "list_all (\<lambda>l. is_float l \<and> bounded 9 l) (loads t)"
    and s: "sample tm t = (t', shown)"
  shows "table_inv t' \<and> shown = procs t' \<and> boot t' = boot t \<and> nextPID t' = nextPID t \<and>
    list_all2 (\<lambda>p p'. CPUTime p \<le> CPUTime p') (procs t) (procs t')"
proof -
  define dt where "dt = max 0 (tm - sampled t)"
  obtain ps r tot where ps: "sample_procs dt (gen t) 0 (procs t) = (ps, r, tot)" by (metis prod_cases3)
  obtain x r1 where x: "rng_Float64 r = (x, r1)" by force
  define inst where "inst = fadd (fmul (fdiv tot 100) (fint numCPU)) (fmul (lit 15 100) x)"
  from sample_procs_ok [OF inv(1) _ _ _ ps, of 0] statics_base [OF inv(2)] statics_pids(3) [OF inv(2)]
  have all: "rng_ok r" "map statics ps = map statics (procs t)" "list_all (\<lambda>p. bounded 19 (pCPU p)) ps"
    "list_all2 (\<lambda>p p'. CPUTime p \<le> CPUTime p') (procs t) ps" and tot: "bounded 323 tot"
    by (simp_all add: dt_def bounded_def)
  note draws = rng_draws(1-3) [OF all(1), unfolded x fst_conv snd_conv]
  have "bounded 4 (fdiv tot 100)" "bounded 2 (fint numCPU)" "bounded 1 (lit 15 100)"
    using tot by (simp_all add: bounded_fdiv bounded_lit is_float_numeral numCPU_def, simp add: bounded_def)
  note parts = this
  have "bounded 8 (fmul (fdiv tot 100) (fint numCPU))"
    by (rule bounded_fmul [OF parts(1,2)]) (simp_all add: is_float_numeral)
  moreover have "bounded 1 (fmul (lit 15 100) x)"
    by (rule bounded_fmul [OF parts(3), of 1]) (use draws in \<open>simp_all add: is_float_numeral bounded_def\<close>)
  ultimately have i: "bounded 9 inst" unfolding inst_def by (rule bounded_fadd) (simp_all add: is_float_numeral)
  have half: "is_float (1 / 2)" using is_float_half [OF is_float_numeral(2)] by simp
  have "list_all (bounded (1 / 2)) load_weights"
    by (simp add: load_weights_def bounded_lit half)
  moreover obtain a b c where l: "loads t = [a, b, c]" using inv(4) by (auto simp: numeral_3_eq_3 length_Suc_conv)
  ultimately have new: "length (map2 (smooth inst) load_weights (loads t)) = 3"
    "list_all (\<lambda>l. is_float l \<and> bounded 9 l) (map2 (smooth inst) load_weights (loads t))"
    using inv(5) i smooth_bounded [of _ inst] by (simp_all add: load_weights_def)
  have t': "t' = t\<lparr>sampled := tm, gen := r1, procs := ps, loads := map2 (smooth inst) load_weights (loads t)\<rparr>"
    "shown = sort_key PID ps"
    using s by (simp_all add: sample_def ps x inst_def dt_def [symmetric] Let_def)
  have "shown = ps" using sort_strict [OF statics_pids(1)] all(2) inv(2) t'(2) by simp
  with t' all new draws inv(2,3) show ?thesis by (simp add: table_inv_def)
qed

datatype table_op = TSample int | TTransient int string string float64 | TDraw

fun table_step :: "proc_table \<Rightarrow> table_op \<Rightarrow> proc_table" where
  "table_step t (TSample tm) = fst (sample tm t)"
| "table_step t (TTransient tm comm cmd cpu) = fst (transient tm comm cmd cpu t)"
| "table_step t TDraw = t\<lparr>gen := snd (rng_Float64 (gen t))\<rparr>"

lemma sample_inv:
  assumes "table_inv t" "sample tm t = (t', shown)"
  shows "table_inv t' \<and> shown = procs t' \<and> boot t' = boot t \<and> nextPID t' = nextPID t \<and>
    list_all2 (\<lambda>p p'. CPUTime p \<le> CPUTime p') (procs t) (procs t')"
  using sample_ok [OF _ _ _ _ _ assms(2)] assms(1) by (simp add: table_inv_def)

lemma transient_inv:
  assumes "table_inv t" "transient tm comm cmd cpu t = (t', p)"
  shows "table_inv t' \<and> procs t' = procs t \<and> boot t' = boot t \<and> PID p = nextPID t' \<and> nextPID t < nextPID t' \<and>
    nextPID t' \<le> nextPID t + 6"
proof -
  obtain n r where n: "rng_IntN 6 (gen t) = (n, r)" by force
  have "n < 6" "rng_ok r" using rng_draws(4,5) [of "gen t" 6] assms(1) n by (auto simp: table_inv_def)
  with assms(2) n assms(1) show ?thesis by (auto simp: transient_def table_inv_def Let_def)
qed

lemma table_inv_step: "table_inv t \<Longrightarrow> table_inv (table_step t op)"
proof (cases op)
  case (TSample tm)
  assume "table_inv t"
  then show ?thesis using sample_inv [of t tm] TSample by (cases "sample tm t") auto
next
  case (TTransient tm comm cmd cpu)
  assume "table_inv t"
  then show ?thesis
    using transient_inv [of t tm comm cmd cpu] TTransient by (cases "transient tm comm cmd cpu t") auto
next
  case TDraw
  assume "table_inv t"
  then show ?thesis using rng_draws(3) [of "gen t"] TDraw by (simp add: table_inv_def)
qed

interpretation machine_table: invariant_machine table_step table_inv
  by unfold_locales (rule table_inv_step)

lemma newProcTable_inv:
  assumes "rng_ok r"
  shows "table_inv (newProcTable tm r)" "boot (newProcTable tm r) = tm - fakeUptime"
proof -
  define ps where "ps = map (\<lambda>p. p\<lparr>CPUTime := ftrunc (fmul (fdiv (pBase p) 100) (fint (tm - pStart p)))\<rparr>) (machine_procs (tm - fakeUptime))"
  define t where "t = \<lparr>boot = tm - fakeUptime, sampled = tm, gen = r, procs = ps, nextPID = 48211,
      loads = [lit 42 100, lit 37 100, lit 31 100]\<rparr>"
  have "map statics (machine_procs b) = machine_procs b" for b
    by (simp add: machine_procs_def service_def statics_def)
  moreover have "map statics ps = map statics (machine_procs (tm - fakeUptime))"
    by (simp add: ps_def comp_def statics_def)
  ultimately have st: "map statics ps = machine_procs (tm - fakeUptime)" by simp
  have l: "list_all (\<lambda>l. is_float l \<and> bounded 9 l) (loads t)"
    by (simp add: t_def bounded_lit is_float_numeral) (simp add: lit_def)
  obtain t' shown where s: "sample tm t = (t', shown)" by force
  have "newProcTable tm r = t'" using s by (simp add: newProcTable_def t_def ps_def Let_def)
  then show "table_inv (newProcTable tm r)" "boot (newProcTable tm r) = tm - fakeUptime"
    using sample_ok [OF _ _ _ _ l s] assms st by (simp_all add: t_def)
qed

text \<open>
  C27. The simulated machine stays believable however long it is watched: after any samples, short-lived processes and
  draws, the table still has the machine's 17 processes, shown in strictly increasing order of process ID; every CPU
  share is between 0 and 19 percent and no CPU time runs backwards; the load averages stay between 0 and 9; and a
  short-lived process gets an ID above all others.
\<close>

theorem proc_table_sound:
  assumes "rng_ok r" "t = foldl table_step (newProcTable tm0 r) ops" "sample tm t = (t1, shown)"
    "transient tm comm cmd cpu t1 = (t2, p)"
  shows "map statics shown = machine_procs (tm0 - fakeUptime) \<and> sorted_wrt (<) (map PID shown) \<and>
    list_all (\<lambda>p. 0 \<le> pCPU p \<and> pCPU p \<le> 19) shown \<and> list_all2 (\<lambda>p p'. CPUTime p \<le> CPUTime p') (procs t) shown \<and>
    length (loads t1) = 3 \<and> list_all (\<lambda>l. 0 \<le> l \<and> l \<le> 9) (loads t1) \<and>
    list_all (\<lambda>p'. PID p' < PID p) shown \<and> nextPID t < PID p"
proof -
  have boot: "boot (foldl table_step u ops') = boot u" if "table_inv u" for u ops'
    using that
  proof (induction ops' arbitrary: u)
    case (Cons op ops')
    have "boot (table_step u op) = boot u"
      using sample_inv [OF Cons.prems] transient_inv [OF Cons.prems]
      by (cases op) (simp_all, (metis prod.collapse)+)
    with Cons show ?case by (simp add: table_inv_step)
  qed simp
  note new = newProcTable_inv [OF assms(1), of tm0]
  have t: "table_inv t" "boot t = tm0 - fakeUptime"
    using machine_table.run_inv [OF new(1)] boot [OF new(1)] new(2) by (simp_all add: assms(2))
  from sample_inv [OF t(1) assms(3)] t(2)
  have s: "table_inv t1" "shown = procs t1" "map statics shown = machine_procs (tm0 - fakeUptime)" "nextPID t1 = nextPID t"
    "list_all2 (\<lambda>p p'. CPUTime p \<le> CPUTime p') (procs t) shown"
    by (auto simp: table_inv_def)
  have "nextPID t < PID p" "48211 \<le> nextPID t" using transient_inv [OF s(1) assms(4)] s(1,4) by (auto simp: table_inv_def)
  then have "list_all (\<lambda>p'. PID p' < PID p) shown"
    using statics_pids(2) [OF s(3)] by (auto simp: list_all_iff)
  with s statics_pids(1) [OF s(3)] \<open>nextPID t < PID p\<close> show ?thesis
    by (auto simp: table_inv_def bounded_def list_all_iff)
qed

definition demo_rng :: rng where
  "demo_rng = \<lparr>rFloat = (\<lambda>_. 1/2), rInt = (\<lambda>_ _. 0), drawn = 0\<rparr>"

theorem proc_table_sound_witness:
  "rng_ok demo_rng \<and>
   length (snd (sample 1 (foldl table_step (newProcTable 0 demo_rng) [TSample 1, TDraw, TTransient 1 ''ps'' ''ps'' 0]))) = 17"
proof -
  let ?t = "foldl table_step (newProcTable 0 demo_rng) [TSample 1, TDraw, TTransient 1 ''ps'' ''ps'' 0]"
  have r: "rng_ok demo_rng" by (simp add: rng_ok_def demo_rng_def)
  obtain t1 shown where s: "sample 1 ?t = (t1, shown)" by force
  obtain t2 p where "transient 1 [] [] 0 t1 = (t2, p)" by force
  from proc_table_sound [OF r refl s this] have "map statics shown = machine_procs (0 - fakeUptime)" by blast
  then have "length shown = 17" by (rule statics_pids(3))
  with r s show ?thesis by simp
qed

end
