(* ===== verification/Tty_Ops.thy ===== *)
theory Tty_Ops
  imports Fake_Session Line_Editor
begin

text \<open>
  What the programs of the simulated machine share in using their TTY (\<^verbatim>\<open>src/fakeshell/session.go\<close>): the output of
  the line editor as TTY operations, and \<^verbatim>\<open>TTY.Sleep\<close> as the operations it performs.
\<close>

fun out_op :: "editor_out \<Rightarrow> tty_op" where
  "out_op (EOut s) = TWrite s"
| "out_op EClear = TClear"

definition interrupt_echo :: bytes where
  "interrupt_echo = [CHR ''^'', CHR ''C'', CHR 0x0A]"

fun sleep_ops :: "sleep_event list \<Rightarrow> tty_op list \<times> bool option" where
  "sleep_ops [] = ([], None)"
| "sleep_ops (SleepCancelled # _) = ([], Some False)"
| "sleep_ops (SleepTimer # _) = ([], Some True)"
| "sleep_ops (SleepKey k # evs) = (if k = KeyCtrlC then ([TWrite interrupt_echo], Some False) else sleep_ops evs)"

text \<open>The operations give the TTY what \<open>tty_Sleep\<close> gives it.\<close>

lemma sleep_ops_tty:
  "tty_Sleep t evs = (fst (tty_run t (fst (sleep_ops evs))), snd (tty_run t (fst (sleep_ops evs))), snd (sleep_ops evs))"
  by (induction evs rule: sleep_ops.induct) (auto simp: interrupt_echo_def case_prod_beta)

text \<open>Output of the editor never starts a new line.\<close>

fun starts_line :: "tty_op \<Rightarrow> bool" where
  "starts_line (TWrite (c # s)) = (c = CHR 0x0A)"
| "starts_line _ = False"

definition no_new_line :: "editor \<Rightarrow> bool" where
  "no_new_line e \<longleftrightarrow> list_all (\<lambda>o'. \<not> starts_line (out_op o')) (out e)"

lemma no_new_line_render [simp]: "no_new_line (render wd e prompt l p) = no_new_line e"
  by (simp add: no_new_line_def render_def render_pieces_def Let_def)

lemma no_new_line_emit [simp]: "no_new_line (emit e s) = (no_new_line e \<and> \<not> starts_line (TWrite s))"
  by (auto simp: no_new_line_def emit_def)

lemma no_new_line_update [simp]:
  "no_new_line (e\<lparr>cursorRow := n\<rparr>) = no_new_line e"
  "no_new_line (e\<lparr>out := []\<rparr>)"
  "no_new_line (e\<lparr>out := out e @ [EClear]\<rparr>) = no_new_line e"
  by (simp_all add: no_new_line_def)

lemma no_new_line_addHistory [simp]: "no_new_line (addHistory e l) = no_new_line e"
  by (simp add: no_new_line_def addHistory_def Let_def)

lemma no_new_line_read_key: "no_new_line e \<Longrightarrow> no_new_line (fst (read_key c wd prompt e s k))"
  by (simp add: read_key_def Let_def case_prod_beta split: option.split)

lemma no_new_line_read_loop: "no_new_line e \<Longrightarrow> no_new_line (fst (read_loop c prompt e s evs))"
proof (induction c prompt e s evs rule: read_loop.induct)
  case (5 c prompt e s wd k evs)
  obtain e1 r where k: "read_key c wd prompt e s k = (e1, r)" by force
  with no_new_line_read_key [OF 5(3), of c wd prompt s k] have "no_new_line e1" by simp
  with 5(1,2) k show ?case by (cases r) auto
qed simp_all

lemma no_new_line_ReadLine: "no_new_line e \<Longrightarrow> no_new_line (fst (ReadLine c wd prompt e evs))"
  by (simp add: ReadLine_def no_new_line_read_loop)

end
