(* ===== verification/Shell_Display.thy ===== *)
theory Shell_Display
  imports Proc_Table Tty_Ops
begin

text \<open>
  The commands that display the simulated machine: \<^verbatim>\<open>date\<close>, \<^verbatim>\<open>uptime\<close>, \<^verbatim>\<open>free\<close>, \<^verbatim>\<open>df\<close>, \<^verbatim>\<open>systemctl\<close>, \<^verbatim>\<open>sleep\<close>, \<^verbatim>\<open>build\<close> of
  \<^verbatim>\<open>src/fakeshell/commands.go\<close> and \<^verbatim>\<open>ps\<close> of \<^verbatim>\<open>src/fakeshell/top.go\<close>.  They change the process table and write to the
  TTY.

  What a command meets: \<open>dClock i\<close> is the answer to its \<open>i\<close>-th look at the clock, \<open>dCal\<close> and \<open>dUtc\<close> break a time
  down in the local zone and in UTC, \<open>dSize i\<close> is the \<open>i\<close>-th window size, \<open>dNap i\<close> how its \<open>i\<close>-th pause ends, and
  \<open>dWaits\<close> what arrives while \<^verbatim>\<open>top\<close> waits between frames.  \<open>dFloat\<close> is \<^verbatim>\<open>strconv.ParseFloat\<close>.
\<close>

datatype float_value = Finite float64 | Infinite bool | NotANumber

datatype wait_event = WaitCtxDone | WaitIdle | WaitTick | WaitResized | WaitKey key

record display_world =
  dClock :: "nat \<Rightarrow> int"
  dCal :: "int \<Rightarrow> clock"
  dUtc :: "int \<Rightarrow> clock"
  dSize :: "nat \<Rightarrow> nat \<times> nat"
  dNap :: "nat \<Rightarrow> nap"
  dWaits :: "wait_event list list"
  dFloat :: "string \<Rightarrow> float_value option"

type_synonym display = "display_world \<Rightarrow> string list \<Rightarrow> proc_table \<Rightarrow> proc_table \<times> tty_op list \<times> int"

definition dWidth :: "display_world \<Rightarrow> nat \<Rightarrow> nat" where
  "dWidth wd i = fst (dSize wd i)"

definition nap_ops :: "nap \<Rightarrow> tty_op list" where
  "nap_ops n = (if n = NapInterrupted then [TWrite interrupt_echo] else [])"

definition sq :: "string \<Rightarrow> string" where
  "sq s = [CHR 0x27] @ s @ [CHR 0x27]"

section \<open>Time\<close>

definition cmdDate :: display where
  "cmdDate wd args t =
     (let tm = dClock wd 0 in
      case dateCommand (dCal wd tm) (dUtc wd tm) (drop 1 args) of
        Inl err \<Rightarrow> (t, [TWrite (err @ [LF])], 1)
      | Inr shown \<Rightarrow> (t, [TWrite shown], 0))"

definition load_text :: "float64 list \<Rightarrow> string" where
  "load_text ls = Join (map (fixed 2) ls) '', ''"

definition cmdUptime :: display where
  "cmdUptime wd args t =
     (let tm = dClock wd 0; (t1, _) = sample tm t; up = table_uptime t1 tm in
      if length args > 1 then
        if args ! 1 = ''-p'' \<or> args ! 1 = ''--pretty'' then (t1, [TWrite (formatUptimePretty up @ [LF])], 0)
        else if args ! 1 = ''-s'' \<or> args ! 1 = ''--since'' then
          (t1, [TWrite (fmt_ymd (dCal wd (boot t1)) @ '' '' @ fmt_hms (dCal wd (boot t1)) @ [LF])], 0)
        else (t1, [TWrite (''uptime: invalid option -- '' @ sq (TrimLeft (args ! 1) ''-'') @ [LF])], 1)
      else
        (t1, [TWrite ('' '' @ fmt_hms (dCal wd tm) @ '' up '' @ formatUptime up @ '',  1 user,  load average: '' @
                      load_text (loads t1) @ [LF])], 0))"

definition cmdSystemctl :: display where
  "cmdSystemctl wd args t =
     (if length args \<ge> 3 \<and> args ! 1 = ''status'' then
        let c = dCal wd (boot t) in
        (t, [TWrite (CSI @ ''32m'' @ [CHR 0xE2, CHR 0x97, CHR 0x8F] @ CSI @ ''0m '' @ args ! 2 @ ''.service - '' @ args ! 2 @ [LF] @
               ''     Loaded: loaded (/usr/lib/systemd/system/'' @ args ! 2 @ ''.service; enabled)'' @ [LF] @
               ''     Active: '' @ CSI @ ''32mactive (running)'' @ CSI @ ''0m since '' @ short_day c @ '' '' @ fmt_ymd c @ '' '' @
               fmt_hms c @ '' '' @ ZoneName c @ ''; '' @ drop 3 (formatUptimePretty (dClock wd 0 - boot t)) @ '' ago'' @ [LF])], 0)
      else
        (t, [TWrite (''systemctl: only '' @ sq ''systemctl status NAME'' @ '' is available on this demo machine'' @ [LF])], 1))"

section \<open>Memory and disks\<close>

fun human_kib :: "string list \<Rightarrow> float64 \<Rightarrow> string" where
  "human_kib [] v = fixed 1 v @ ''Pi''"
| "human_kib (u # us) v =
     (if v < 1024 then (if v < 10 \<and> u \<noteq> ''Ki'' then fixed 1 v @ u else fixed 0 v @ u)
      else human_kib us (fdiv v 1024))"

definition humanKiB :: "int \<Rightarrow> string" where
  "humanKiB kib = human_kib [''Ki'', ''Mi'', ''Gi'', ''Ti''] (fint kib)"

text \<open>The options: the unit in KiB and whether for humans.\<close>

fun free_args :: "float64 \<Rightarrow> bool \<Rightarrow> string list \<Rightarrow> string + float64 \<times> bool" where
  "free_args unit human [] = Inr (unit, human)"
| "free_args unit human (a # as) =
     (if a = ''-h'' \<or> a = ''--human'' then free_args unit True as
      else if a = ''-m'' \<or> a = ''--mebi'' then free_args 1024 human as
      else if a = ''-g'' \<or> a = ''--gibi'' then free_args (1024 * 1024) human as
      else if a = ''-k'' \<or> a = ''--kibi'' then free_args unit human as
      else Inl a)"

definition free_text :: "float64 \<Rightarrow> bool \<Rightarrow> int \<Rightarrow> string" where
  "free_text unit human kib = pad_left 10 (if human then humanKiB kib else Itoa (ftrunc (fdiv (fint kib) unit)))"

definition cacheAvailKiB :: int where
  "cacheAvailKiB = memCacheKiB * 8 div 10"

definition cmdFree :: display where
  "cmdFree wd args t =
     (case free_args 1 False (drop 1 args) of
        Inl a \<Rightarrow> (t, [TWrite (''free: invalid option -- '' @ sq (TrimLeft a ''-'') @ [LF])], 1)
      | Inr (unit, human) \<Rightarrow>
          let taken = memUsedKiB t; free = memTotalKiB - taken - memCacheKiB; avail = free + cacheAvailKiB;
              f = free_text unit human
          in (t, [TWrite (''               total        used        free      shared  buff/cache   available'' @ [LF]),
                  TWrite (''Mem:      '' @ Join [f memTotalKiB, f taken, f free, f 10240, f memCacheKiB, f avail] ''  '' @ [LF]),
                  TWrite (''Swap:     '' @ Join [f swapTotalKiB, f 0, f swapTotalKiB] ''  '' @ [LF])], 0))"

fun human_bytes :: "string list \<Rightarrow> float64 \<Rightarrow> string" where
  "human_bytes [] v = fixed 0 v @ ''P''"
| "human_bytes (u # us) v =
     (if v < 1024 then (if v < 10 then fixed 1 v @ u else fixed 0 v @ u) else human_bytes us (fdiv v 1024))"

definition humanBytes :: "int \<Rightarrow> string" where
  "humanBytes kib = (if kib = 0 then ''0'' else human_bytes [''K'', ''M'', ''G'', ''T''] (fint kib))"

definition df_rows :: "(string \<times> int \<times> int \<times> string) list" where
  "df_rows =
     [(''/dev/vda3'', 41930752, 9142316, ''/''), (''devtmpfs'', 4096, 0, ''/dev''), (''tmpfs'', 2007724, 84, ''/dev/shm''),
      (''/dev/vda2'', 996780, 271636, ''/boot''), (''tmpfs'', 2007728, 1200, ''/tmp'')]"

definition df_row :: "bool \<Rightarrow> string \<times> int \<times> int \<times> string \<Rightarrow> string" where
  "df_row human r =
     (case r of (fs, total', taken, mount) \<Rightarrow>
        let avail = total' - taken; pct = div_trunc (taken * 100 + total' - 1) total' in
        (if human
         then pad_right 15 fs @ '' '' @ pad_left 4 (humanBytes total') @ '' '' @ pad_left 5 (humanBytes taken) @ '' '' @
              pad_left 5 (humanBytes avail)
         else pad_right 14 fs @ '' '' @ blank_pad 10 total' @ '' '' @ blank_pad 7 taken @ '' '' @ blank_pad 9 avail) @
        '' '' @ blank_pad 3 pct @ ''% '' @ mount @ [LF])"

definition cmdDf :: display where
  "cmdDf wd args t =
     (let human = (length args > 1 \<and> (args ! 1 = ''-h'' \<or> args ! 1 = ''--human-readable'')) in
      (t, TWrite ((if human then ''Filesystem      Size  Used Avail Use% Mounted on''
                   else ''Filesystem     1K-blocks    Used Available Use% Mounted on'') @ [LF]) #
          map (\<lambda>r. TWrite (df_row human r)) df_rows, 0))"

section \<open>Waiting\<close>

definition cmdSleep :: display where
  "cmdSleep wd args t =
     (if length args < 2 then (t, [TWrite (''sleep: missing operand'' @ [LF])], 1)
      else
        let invalid = (t, [TWrite (''sleep: invalid time interval '' @ sq (args ! 1) @ [LF])], 1);
            limited = [TWrite (''sleep: limited to 60 seconds on this demo machine'' @ [LF])];
            wait = (\<lambda>ops. (t, ops @ nap_ops (dNap wd 0), if dNap wd 0 = NapDone then 0 else 130))
        in case dFloat wd (TrimSuffix (args ! 1) ''s'') of
            None \<Rightarrow> invalid
          | Some (Finite secs) \<Rightarrow> if secs < 0 then invalid else wait (if secs > 60 then limited else [])
          | Some (Infinite negative) \<Rightarrow> if negative then invalid else wait limited
          | Some NotANumber \<Rightarrow> wait [])"

definition build_steps :: "string list" where
  "build_steps =
     [''resolving modules'', ''compiling internal/store'', ''compiling internal/api'', ''compiling cmd/demo-app'',
      ''linking bin/demo-app'']"

fun build_run :: "display_world \<Rightarrow> nat \<Rightarrow> string list \<Rightarrow> tty_op list \<times> bool" where
  "build_run wd i [] = ([], True)"
| "build_run wd i (s # ss) =
     (let op = TWrite (CSI @ ''36m['' @ show_nat (i + 1) @ ''/'' @ show_nat (length build_steps) @ '']'' @ CSI @ ''0m '' @ s @ [LF]) in
      if dNap wd i = NapDone then (let (ops, done') = build_run wd (i + 1) ss in (op # ops, done'))
      else (op # nap_ops (dNap wd i) @ [TWrite (CSI @ ''33mbuild interrupted'' @ CSI @ ''0m'' @ [LF])], False))"

definition cmdBuild :: display where
  "cmdBuild wd args t =
     (let (ops, done') = build_run wd 0 build_steps in
      if done' then
        (t, ops @ [TWrite (CSI @ ''1;32mBUILD SUCCESSFUL'' @ CSI @ ''0m in '' @
                     fixed 1 (dur_Seconds (dClock wd 1 - dClock wd 0)) @ ''s'' @ [LF])], 0)
      else (t, ops, 130))"

section \<open>Processes\<close>

text \<open>\<^verbatim>\<open>truncate\<close>: a width of 0 does not cut.\<close>

definition truncate_to :: "string \<Rightarrow> nat \<Rightarrow> string" where
  "truncate_to s width = (if width > 0 \<and> length s > width then take width s else s)"

definition memPct :: "int \<Rightarrow> float64" where
  "memPct rss = fdiv (fmul (fint rss) 100) (fint memTotalKiB)"

datatype ps_format = PsDefault | PsAux | PsEf | PsE

fun ps_style :: "ps_format \<Rightarrow> string list \<Rightarrow> ps_format option" where
  "ps_style st [] = Some st"
| "ps_style st (a # as) =
     (let b = TrimPrefix a ''-'' in
      if b \<in> set [''aux'', ''axu'', ''au'', ''ux'', ''ax'', ''a'', ''x'', ''u''] then ps_style PsAux as
      else if b \<in> set [''ef'', ''fe'', ''eF'', ''ely''] then ps_style PsEf as
      else if b = ''e'' \<or> b = ''A'' then ps_style PsE as
      else if b = ''f'' then ps_style (if st = PsE then PsEf else st) as
      else None)"

definition start_text :: "display_world \<Rightarrow> int \<Rightarrow> int \<Rightarrow> string" where
  "start_text wd tm start =
     (let c = dCal wd start in if tm - start > 24 * hour_ns then short_month c @ two (Day c) else fmt_hm c)"

definition ps_short :: "proc \<Rightarrow> string \<Rightarrow> string" where
  "ps_short p time =
     blank_pad 7 (PID p) @ '' '' @ pad_right 8 (pTTY p) @ '' '' @ pad_left 8 time @ '' '' @ Comm p @ [LF]"

definition ps_aux :: "display_world \<Rightarrow> int \<Rightarrow> proc \<Rightarrow> string" where
  "ps_aux wd tm p =
     (let life = tm - pStart p;
          avg = (if life > 0 then fdiv (fmul (fint (CPUTime p)) 100) (fint life) else 0)
      in pad_right 8 (pUser p) @ '' '' @ blank_pad 7 (PID p) @ '' '' @ pad_left 4 (fixed 1 avg) @ '' '' @
         pad_left 4 (fixed 1 (memPct (RSS p))) @ '' '' @ blank_pad 6 (VSZ p) @ '' '' @ blank_pad 5 (RSS p) @ '' '' @
         pad_right 8 (pTTY p) @ '' '' @ pad_right 4 (pStat p) @ '' '' @ pad_left 5 (start_text wd tm (pStart p)) @ '' '' @
         pad_left 6 (clockDuration (CPUTime p)) @ '' '' @ pCmd p)"

definition ps_ef :: "display_world \<Rightarrow> int \<Rightarrow> proc \<Rightarrow> string" where
  "ps_ef wd tm p =
     pad_right 8 (pUser p) @ '' '' @ blank_pad 7 (PID p) @ '' '' @ blank_pad 7 (PPID p) @ '' '' @
     blank_pad 2 (ftrunc (pCPU p)) @ '' '' @ pad_left 5 (start_text wd tm (pStart p)) @ '' '' @ pad_right 8 (pTTY p) @ '' '' @
     pad_left 8 (hmsDuration (CPUTime p)) @ '' '' @ pCmd p"

definition ps_rows :: "display_world \<Rightarrow> int \<Rightarrow> nat \<Rightarrow> ps_format \<Rightarrow> proc list \<Rightarrow> proc \<Rightarrow> string list" where
  "ps_rows wd tm width st ps self =
     (case st of
        PsDefault \<Rightarrow>
          (''    PID TTY          TIME CMD'' @ [LF]) #
          map (\<lambda>p. ps_short p (hmsDuration (CPUTime p))) (filter (\<lambda>p. pTTY p = ''pts/0'') ps) @
          [blank_pad 7 (PID self) @ '' '' @ pad_right 8 (pTTY self) @ '' '' @ pad_left 8 ''00:00:00'' @ '' ps'' @ [LF]]
      | PsE \<Rightarrow>
          (''    PID TTY          TIME CMD'' @ [LF]) # map (\<lambda>p. ps_short p (hmsDuration (CPUTime p))) (ps @ [self])
      | PsAux \<Rightarrow>
          map (\<lambda>l. truncate_to l width @ [LF])
            (''USER         PID %CPU %MEM    VSZ   RSS TTY      STAT START   TIME COMMAND'' # map (ps_aux wd tm) (ps @ [self]))
      | PsEf \<Rightarrow>
          map (\<lambda>l. truncate_to l width @ [LF])
            (''UID          PID    PPID  C STIME TTY          TIME CMD'' # map (ps_ef wd tm) (ps @ [self])))"

definition cmdPs :: display where
  "cmdPs wd args t =
     (let tm = dClock wd 0; (t1, ps) = sample tm t; (t2, self) = transient tm ''ps'' (Join args '' '') 0 t1 in
      case ps_style PsDefault (drop 1 args) of
        None \<Rightarrow> (t2, [TWrite (''ps: this demo supports ps, ps aux, ps -e and ps -ef'' @ [LF])], 1)
      | Some st \<Rightarrow> (t2, map TWrite (ps_rows wd tm (dWidth wd 0) st ps self), 0))"

end
