(* ===== verification/Shell_Top.thy ===== *)
theory Shell_Top
  imports Shell_Display "HOL-Library.Product_Lexorder"
begin

text \<open>
  The process monitor, \<^verbatim>\<open>top\<close> of \<^verbatim>\<open>src/fakeshell/top.go\<close>: one frame, the wait between two frames, the options and the
  two loops.  The list of what arrives in each wait ends with the session.
\<close>

section \<open>A frame\<close>

definition kernelThreads :: int where "kernelThreads = 86"

definition total_cpu :: "proc list \<Rightarrow> float64" where
  "total_cpu ps = foldl (\<lambda>acc p. fadd acc (pCPU p)) 0 ps"

text \<open>User, system and idle time in percent.\<close>

definition cpu_split :: "float64 \<Rightarrow> float64 \<times> float64 \<times> float64" where
  "cpu_split tot =
     (let half = fdiv tot (fint numCPU);
          us = min (fmul half (lit 72 100)) 99;
          sy = min (fmul half (lit 28 100)) (fsub 100 us)
      in (us, sy, max (fsub (fsub (fsub 100 us) sy) (lit 2 10)) 0))"

definition mib :: "int \<Rightarrow> float64" where
  "mib kib = fdiv (fint kib) 1024"

definition mib_text :: "int \<Rightarrow> string" where
  "mib_text kib = pad_left 8 (fixed 1 (mib kib))"

definition top_summary :: "display_world \<Rightarrow> proc_table \<Rightarrow> int \<Rightarrow> proc list \<Rightarrow> string list" where
  "top_summary wd t tm ps =
     (let (us, sy, idle) = cpu_split (total_cpu ps);
          taken = memUsedKiB t; free = memTotalKiB - taken - memCacheKiB;
          tasks = int (length ps) + kernelThreads
      in [''top - '' @ fmt_hms (dCal wd tm) @ '' up '' @ formatUptime (table_uptime t tm) @ '',  1 user,  load average: '' @
            load_text (loads t),
          ''Tasks: '' @ blank_pad 3 tasks @ '' total,   1 running, '' @ blank_pad 3 (tasks - 1) @
            '' sleeping,   0 stopped,   0 zombie'',
          ''%Cpu(s): '' @ pad_left 4 (fixed 1 us) @ '' us, '' @ pad_left 4 (fixed 1 sy) @ '' sy,  0.0 ni, '' @
            pad_left 4 (fixed 1 idle) @ '' id,  0.1 wa,  0.0 hi,  0.1 si,  0.0 st'',
          ''MiB Mem : '' @ mib_text memTotalKiB @ '' total, '' @ mib_text free @ '' free, '' @ mib_text taken @ '' used, '' @
            mib_text memCacheKiB @ '' buff/cache'',
          ''MiB Swap: '' @ mib_text swapTotalKiB @ '' total, '' @ mib_text swapTotalKiB @ '' free, '' @
            pad_left 8 (fixed 1 0) @ '' used. '' @ mib_text (free + cacheAvailKiB) @ '' avail Mem'',
          []])"

definition top_header :: "nat \<Rightarrow> string" where
  "top_header width =
     truncate_to (pad_right width ''    PID USER      PR  NI    VIRT    RES    SHR S  %CPU  %MEM     TIME+ COMMAND'') width"

definition by_cpu :: "proc list \<Rightarrow> proc list" where
  "by_cpu ps = sort_key (\<lambda>p. (- pCPU p, PID p)) ps"

definition top_row :: "nat \<Rightarrow> proc \<Rightarrow> string" where
  "top_row width p =
     (let line = blank_pad 7 (PID p) @ '' '' @ pad_right 8 (truncate_to (pUser p) 8) @ '' '' @ pad_left 3 ''20'' @ '' '' @
            blank_pad 3 0 @ '' '' @ blank_pad 7 (VSZ p) @ '' '' @ blank_pad 6 (RSS p) @ '' '' @ blank_pad 6 (SHR p) @ '' '' @
            take 1 (pStat p) @ '' '' @ pad_left 5 (fixed 1 (pCPU p)) @ '' '' @ pad_left 5 (fixed 1 (memPct (RSS p))) @ '' '' @
            pad_left 9 (topDuration (CPUTime p)) @ '' '' @ Comm p
      in if Comm p = ''top'' then CSI @ ''1m'' @ truncate_to line width @ CSI @ ''0m'' else truncate_to line width)"

text \<open>The loop over the processes stops when the frame has \<open>rows\<close> lines.\<close>

fun top_rows :: "nat \<Rightarrow> nat \<Rightarrow> string list \<Rightarrow> proc list \<Rightarrow> string list" where
  "top_rows width rows lines [] = lines"
| "top_rows width rows lines (p # ps) =
     (if length lines \<ge> rows then lines else top_rows width rows (lines @ [top_row width p]) ps)"

definition topFrame :: "display_world \<Rightarrow> proc_table \<Rightarrow> int \<Rightarrow> proc list \<Rightarrow> nat \<Rightarrow> nat \<Rightarrow> string list" where
  "topFrame wd t tm ps width rows =
     top_rows width rows
       (map (\<lambda>l. truncate_to l width) (top_summary wd t tm ps) @ [CSI @ ''7m'' @ top_header width @ CSI @ ''0m''])
       (by_cpu ps)"

section \<open>Options\<close>

text \<open>The delay in nanoseconds; \<open>None\<close> is the implementation's conversion of \<^verbatim>\<open>NaN\<close>.\<close>

definition top_delay :: "float_value \<Rightarrow> int option" where
  "top_delay v =
     (case v of
        Finite d \<Rightarrow> Some (ftrunc (fmul (min (max d (lit 1 2)) 10) (of_int second_ns)))
      | Infinite negative \<Rightarrow> Some (10 * second_ns)
      | NotANumber \<Rightarrow> None)"

definition not_positive :: "float_value \<Rightarrow> bool" where
  "not_positive v = (case v of Finite d \<Rightarrow> d \<le> 0 | Infinite negative \<Rightarrow> negative | NotANumber \<Rightarrow> False)"

fun top_args ::
    "display_world \<Rightarrow> bool \<Rightarrow> int \<Rightarrow> int option \<Rightarrow> string list \<Rightarrow> string + bool \<times> int \<times> int option" where
  "top_args wd batch iters delay [] = Inr (batch, iters, delay)"
| "top_args wd batch iters delay (a # as) =
     (if a = ''-b'' then top_args wd True iters delay as
      else if a = ''-n'' \<and> as \<noteq> [] then
        (case Atoi (hd as) of
           None \<Rightarrow> Inl (''top: bad iterations argument '' @ sq (hd as))
         | Some n \<Rightarrow> if n < 1 then Inl (''top: bad iterations argument '' @ sq (hd as))
                     else top_args wd batch n delay (tl as))
      else if a = ''-d'' \<and> as \<noteq> [] then
        (case dFloat wd (hd as) of
           None \<Rightarrow> Inl (''top: bad delay interval '' @ sq (hd as))
         | Some d \<Rightarrow> if not_positive d then Inl (''top: bad delay interval '' @ sq (hd as))
                     else top_args wd batch iters (top_delay d) (tl as))
      else Inl ''top: this demo supports -b, -n N and -d SECONDS'')"

section \<open>The loops\<close>

fun topWait :: "wait_event list \<Rightarrow> bool" where
  "topWait [] = False"
| "topWait (WaitCtxDone # _) = False"
| "topWait (WaitIdle # _) = False"
| "topWait (WaitTick # _) = True"
| "topWait (WaitResized # _) = True"
| "topWait (WaitKey k # evs) =
     (if k = byte_code (CHR ''q'') \<or> k = byte_code (CHR ''Q'') \<or> k = KeyCtrlC then False
      else if k = byte_code (CHR '' '') \<or> k = KeyEnter then True
      else topWait evs)"

text \<open>A new sample, with the CPU share of \<^verbatim>\<open>top\<close> itself drawn first.\<close>

definition top_sample :: "int \<Rightarrow> proc_table \<Rightarrow> proc \<Rightarrow> proc_table \<times> proc list \<times> proc" where
  "top_sample tm t self =
     (let (x, r) = rng_Float64 (gen t);
          self1 = self\<lparr>pCPU := fadd (lit 3 10) (fmul (lit 6 10) x)\<rparr>;
          (t1, ps) = sample tm (t\<lparr>gen := r\<rparr>)
      in (t1, ps @ [self1], self1))"

fun top_batch :: "display_world \<Rightarrow> nat \<Rightarrow> nat \<Rightarrow> proc \<Rightarrow> proc_table \<Rightarrow> proc_table \<times> tty_op list \<times> int" where
  "top_batch wd i 0 self t = (t, [], 0)"
| "top_batch wd i (Suc n) self t =
     (let nap = (if i > 0 then dNap wd (i - 1) else NapDone) in
      if nap \<noteq> NapDone then (t, nap_ops nap, 130)
      else
        let tm = dClock wd (i + 1);
            (t1, ps, self1) = top_sample tm t self;
            text = stripANSI (Join (topFrame wd t1 tm ps (dWidth wd i) (2 ^ 30)) [LF]) @ [LF, LF];
            (t2, ops, st) = top_batch wd (i + 1) n self1 t1
        in (t2, TWrite text # ops, st))"

definition frame_text :: "string list \<Rightarrow> string" where
  "frame_text ls = CSI @ ''?25l'' @ CSI @ ''H'' @ Join ls (CSI @ ''K'' @ [LF]) @ CSI @ ''K'' @ CSI @ ''J''"

definition top_frame_op :: "display_world \<Rightarrow> nat \<Rightarrow> proc \<Rightarrow> proc_table \<Rightarrow> proc_table \<times> tty_op \<times> proc" where
  "top_frame_op wd i self t =
     (let tm = dClock wd (i + 1);
          (t1, ps, self1) = top_sample tm t (self\<lparr>CPUTime := CPUTime self + 20 * 10 ^ 6\<rparr>);
          (width, rows) = dSize wd i
      in (t1, TFrame (frame_text (topFrame wd t1 tm ps width rows)), self1))"

fun top_live :: "display_world \<Rightarrow> nat \<Rightarrow> int \<Rightarrow> proc \<Rightarrow> proc_table \<Rightarrow> wait_event list list \<Rightarrow> proc_table \<times> tty_op list" where
  "top_live wd i iters self t [] =
     (if iters \<noteq> 0 \<and> iters \<le> int i then (t, [])
      else let (t1, op, self1) = top_frame_op wd i self t in (t1, [op]))"
| "top_live wd i iters self t (evs # waits) =
     (if iters \<noteq> 0 \<and> iters \<le> int i then (t, [])
      else
        let (t1, op, self1) = top_frame_op wd i self t in
        if topWait evs then (let (t2, ops) = top_live wd (i + 1) iters self1 t1 waits in (t2, op # ops))
        else (t1, [op]))"

definition cmdTop :: display where
  "cmdTop wd args t =
     (case top_args wd False 0 (Some (2 * second_ns)) (drop 1 args) of
        Inl err \<Rightarrow> (t, [TWrite (err @ [LF])], 1)
      | Inr (batch, iters, delay) \<Rightarrow>
          let (t1, self) = transient (dClock wd 0) ''top'' ''top'' (lit 7 10) t in
          if batch then top_batch wd 0 (nat (if iters = 0 then 1 else iters)) self t1
          else
            let (t2, ops) = top_live wd 0 iters self t1 (dWaits wd)
            in (t2, ops @ [TWrite (CSI @ ''?25h''), TClear], 0))"

section \<open>A frame fits the window\<close>

lemma length_truncate: "0 < width \<Longrightarrow> length (truncate_to s width) \<le> width"
  by (simp add: truncate_to_def)

lemma length_top_rows:
  "length (top_rows width rows ls ps) = max (length ls) (min rows (length ls + length ps))"
  by (induction ps arbitrary: ls) (auto simp: max_def min_def)

lemma top_rows_lines: "set (top_rows width rows ls ps) \<subseteq> set ls \<union> top_row width ` set ps"
proof (induction ps arbitrary: ls)
  case (Cons p ps)
  show ?case
  proof (cases "rows \<le> length ls")
    case False
    with Cons [of "ls @ [top_row width p]"] show ?thesis by auto
  qed auto
qed simp

text \<open>A line of a frame, alone or inside one pair of attributes.\<close>

definition fits_line :: "nat \<Rightarrow> string \<Rightarrow> bool" where
  "fits_line width l \<longleftrightarrow>
     (\<exists>s. length s \<le> width \<and> (l = s \<or> l = CSI @ ''7m'' @ s @ CSI @ ''0m'' \<or> l = CSI @ ''1m'' @ s @ CSI @ ''0m''))"

lemma fits_top_row: "0 < width \<Longrightarrow> fits_line width (top_row width p)"
proof -
  assume w: "0 < width"
  have "\<exists>line. top_row width p = truncate_to line width \<or>
      top_row width p = CSI @ ''1m'' @ truncate_to line width @ CSI @ ''0m''"
    by (simp only: top_row_def Let_def split: if_split) blast
  with length_truncate [OF w] show ?thesis unfolding fits_line_def by blast
qed

lemma length_summary [simp]: "length (top_summary wd t tm ps) = 6"
  by (simp add: top_summary_def Let_def case_prod_beta)

text \<open>
  C34. A frame of \<^verbatim>\<open>top\<close> fits its window: every line, apart from the attributes around it, is at most as wide as the
  window, and there are as many lines as the window has rows or processes to show - but never fewer than the seven of
  the heading, so that only a window of fewer than seven rows scrolls.
\<close>

theorem top_frame_fits:
  assumes "0 < width"
  shows "list_all (fits_line width) (topFrame wd t tm ps width rows) \<and>
    length (topFrame wd t tm ps width rows) = max 7 (min rows (7 + length ps)) \<and>
    (7 \<le> rows \<longrightarrow> length (topFrame wd t tm ps width rows) \<le> rows)"
proof -
  let ?head = "map (\<lambda>l. truncate_to l width) (top_summary wd t tm ps) @ [CSI @ ''7m'' @ top_header width @ CSI @ ''0m'']"
  have "fits_line width l" if "l \<in> set ?head" for l
    using that length_truncate [OF assms] unfolding fits_line_def top_header_def by auto
  moreover have "length (by_cpu ps) = length ps" by (simp add: by_cpu_def)
  ultimately show ?thesis
    using top_rows_lines [of width rows ?head "by_cpu ps"] fits_top_row [OF assms]
    by (auto simp: topFrame_def list_all_iff length_top_rows)
qed

theorem top_frame_fits_witness:
  "length (topFrame \<lparr>dClock = (\<lambda>_. 0), dCal = (\<lambda>_. demo_clock), dUtc = (\<lambda>_. demo_clock), dSize = (\<lambda>_. (80, 24)),
      dNap = (\<lambda>_. NapDone), dWaits = [], dFloat = (\<lambda>_. None)\<rparr> (newProcTable 0 demo_rng) 0 [] 80 24) = 7"
  using top_frame_fits [of 80 _ _ _ "[]" 24] by simp

section \<open>Percentages\<close>

text \<open>From 64 on, the difference to 100 is exact.\<close>

lemma fsub_100_exact:
  assumes "is_float x" "64 \<le> x" "x \<le> 100"
  shows "fsub 100 x = 100 - x"
proof -
  have "ilog2 x = 6" by (rule ilog2_unique) (use assms in simp_all)
  then have "x = of_int (round_half_even (x / 2 powi (- 46))) * 2 powi (- 46)"
    using assms by (simp add: is_float_def rnd_def round_pos_def Let_def)
  then obtain k where x: "x = of_int k * 2 powi (- 46)" by blast
  have pw: "(2::rat) powi (- 46) = 1 / 2 ^ 46" by (simp add: power_int_def power_one_over)
  have "(of_int k :: rat) \<le> of_int (100 * 2 ^ 46)" "(0::rat) \<le> of_int k" using assms by (simp_all add: x pw)
  then have "k \<le> 100 * 2 ^ 46" "0 \<le> k" by (simp_all only: of_int_le_iff of_int_0_le_iff)
  then have "\<bar>100 * 2 ^ 46 - k\<bar> \<le> 2 ^ 53" by simp
  then have "rnd (of_int (100 * 2 ^ 46 - k) * 2 powi (- 46)) = of_int (100 * 2 ^ 46 - k) * 2 powi (- 46)" by (rule rnd_exact)
  moreover have "of_int (100 * 2 ^ 46 - k) * 2 powi (- 46) = 100 - x" by (simp add: x pw field_simps)
  ultimately show ?thesis unfolding fsub_def by metis
qed

lemma is_float_sixteenths: "\<bar>m\<bar> \<le> 2 ^ 53 \<Longrightarrow> is_float (of_int m / 16)"
proof -
  assume m: "\<bar>m\<bar> \<le> 2 ^ 53"
  have pw: "(2::rat) powi (- 4) = 1 / 16" by (simp add: power_int_def power_one_over)
  from rnd_exact [OF m, of "- 4"] show ?thesis by (simp only: pw is_float_def times_divide_eq_right mult_1_right)
qed

lemma shares_add:
  assumes half: "0 \<le> half" and us: "us = min (fmul half (lit 72 100)) 99"
    and sy: "0 \<le> us" "sy \<le> fmul half (lit 28 100)" "sy \<le> fsub 100 us"
  shows "us + sy \<le> 100"
proof (cases "64 \<le> us")
  case True
  have "is_float us" by (auto simp: us min_def fmul_def is_float_numeral)
  from fsub_100_exact [OF this True] us sy show ?thesis by simp
next
  case False
  then have lt: "rnd (half * lit 72 100) < 64" by (auto simp: us fmul_def)
  have "half * lit 72 100 < 64"
    using lt rnd_ge [of 64 "half * lit 72 100"] by (force simp: is_float_numeral not_le)
  moreover have "11 / 16 \<le> lit 72 100" unfolding lit_def
    by (rule rnd_ge) (use is_float_sixteenths [of 11] in simp_all)
  moreover have "lit 28 100 \<le> 5 / 16" unfolding lit_def
    by (rule rnd_le) (use is_float_sixteenths [of 5] in simp_all)
  moreover have "half * (11 / 16) \<le> half * lit 72 100" "half * lit 28 100 \<le> half * (5 / 16)"
    using calculation half by (simp_all only: mult_left_mono)
  ultimately have "half * lit 28 100 \<le> 36" by simp
  then have "fmul half (lit 28 100) \<le> 36" by (simp add: fmul_def rnd_le is_float_numeral)
  with False sy show ?thesis by simp
qed

text \<open>
  The CPU line is consistent: whatever the processes use, user, system and idle time are percentages, and user and
  system time together are at most 100.
\<close>

theorem top_percentages:
  assumes "list_all (\<lambda>p. 0 \<le> pCPU p) ps" "cpu_split (total_cpu ps) = (us, sy, idle)"
  shows "0 \<le> us \<and> us \<le> 99 \<and> 0 \<le> sy \<and> us + sy \<le> 100 \<and> 0 \<le> idle \<and> idle \<le> 100"
proof -
  have "0 \<le> foldl (\<lambda>acc p. fadd acc (pCPU p)) a ps" if "0 \<le> a" for a
    using assms(1) that by (induction ps arbitrary: a) (auto simp: fadd_def rnd_nonneg)
  then have tot: "0 \<le> total_cpu ps" by (simp add: total_cpu_def)
  define half where "half = fdiv (total_cpu ps) (fint numCPU)"
  have half: "0 \<le> half" using tot by (simp add: half_def fdiv_def numCPU_def rnd_nonneg)
  have lits: "0 \<le> lit a 100" if "0 \<le> a" for a using that by (simp add: lit_def rnd_nonneg)
  have us: "us = min (fmul half (lit 72 100)) 99" and sy: "sy = min (fmul half (lit 28 100)) (fsub 100 us)"
    and idle: "idle = max (fsub (fsub (fsub 100 us) sy) (lit 2 10)) 0"
    using assms(2) by (auto simp: cpu_split_def half_def [symmetric] Let_def)
  have u: "0 \<le> us" "us \<le> 99" using half lits [of 72] by (simp_all add: us fmul_def rnd_nonneg)
  have rest: "0 \<le> fsub 100 us" "fsub 100 us \<le> 100"
    using u by (simp_all add: fsub_def rnd_nonneg rnd_le is_float_numeral)
  have s: "0 \<le> sy" "sy \<le> fsub 100 us" using half lits [of 28] rest by (simp_all add: sy fmul_def rnd_nonneg)
  have "fsub (fsub (fsub 100 us) sy) (lit 2 10) \<le> 100"
  proof -
    have "fsub (fsub 100 us) sy \<le> 100" using rest s by (simp add: fsub_def rnd_le is_float_numeral)
    moreover have "0 \<le> lit 2 10" by (simp add: lit_def rnd_nonneg)
    ultimately show ?thesis by (simp add: fsub_def rnd_le is_float_numeral)
  qed
  then have "0 \<le> idle" "idle \<le> 100" by (simp_all add: idle)
  moreover have "us + sy \<le> 100" using shares_add [OF half us] s u sy by simp
  ultimately show ?thesis using u s by blast
qed

text \<open>All processes busy at once: more than the machine has.\<close>

definition demo_busy :: "proc list" where
  "demo_busy = map (\<lambda>p. p\<lparr>pCPU := 19\<rparr>) (machine_procs 0)"

theorem top_percentages_witness:
  "\<exists>us sy idle. cpu_split (total_cpu demo_busy) = (us, sy, idle) \<and> us \<le> 99 \<and> us + sy \<le> 100"
proof -
  obtain us sy idle where split: "cpu_split (total_cpu demo_busy) = (us, sy, idle)" by (metis prod_cases3)
  have "list_all (\<lambda>p. 0 \<le> pCPU p) demo_busy" by (simp add: demo_busy_def list_all_iff)
  from top_percentages [OF this split] split show ?thesis by blast
qed

section \<open>Displaying keeps the table sound\<close>

lemma table_inv_gen: "table_inv t \<Longrightarrow> rng_ok r \<Longrightarrow> table_inv (t\<lparr>gen := r\<rparr>)"
  by (simp add: table_inv_def)

lemma sample_keeps: "table_inv t \<Longrightarrow> table_inv (fst (sample tm t))"
  using sample_inv [of t tm] by (cases "sample tm t") simp

lemma transient_keeps: "table_inv t \<Longrightarrow> table_inv (fst (transient tm comm cmd cpu t))"
  using transient_inv [of t tm comm cmd cpu] by (cases "transient tm comm cmd cpu t") simp

lemma top_sample_keeps:
  assumes "table_inv t"
  shows "table_inv (fst (top_sample tm t self))"
proof -
  have "rng_ok (snd (rng_Float64 (gen t)))" using assms rng_draws(3) by (simp add: table_inv_def)
  from sample_keeps [OF table_inv_gen [OF assms this]] show ?thesis
    by (simp add: top_sample_def Let_def case_prod_beta)
qed

lemma top_batch_keeps: "table_inv t \<Longrightarrow> table_inv (fst (top_batch wd i n self t))"
proof (induction n arbitrary: i self t)
  case (Suc n)
  note IH = Suc.IH [OF top_sample_keeps [OF Suc.prems]]
  with Suc.prems show ?case by (simp add: Let_def case_prod_beta)
qed simp

lemma top_frame_op_keeps: "table_inv t \<Longrightarrow> table_inv (fst (top_frame_op wd i self t))"
  using top_sample_keeps by (simp add: top_frame_op_def Let_def case_prod_beta)

lemma top_live_keeps: "table_inv t \<Longrightarrow> table_inv (fst (top_live wd i iters self t waits))"
proof (induction waits arbitrary: i self t)
  case Nil
  then show ?case using top_frame_op_keeps by (simp add: Let_def case_prod_beta)
next
  case (Cons evs waits)
  have "table_inv (fst (top_live wd (i + 1) iters self' (fst (top_frame_op wd i self t)) waits))" for self'
    by (rule Cons.IH [OF top_frame_op_keeps [OF Cons.prems]])
  with Cons.prems top_frame_op_keeps [OF Cons.prems] show ?case by (auto simp: Let_def case_prod_beta)
qed

lemma display_keeps:
  assumes "table_inv t"
  shows "table_inv (fst (cmdDate wd args t))" "table_inv (fst (cmdUptime wd args t))"
    "table_inv (fst (cmdSystemctl wd args t))" "table_inv (fst (cmdFree wd args t))" "table_inv (fst (cmdDf wd args t))"
    "table_inv (fst (cmdSleep wd args t))" "table_inv (fst (cmdBuild wd args t))" "table_inv (fst (cmdPs wd args t))"
    "table_inv (fst (cmdTop wd args t))"
proof -
  show "table_inv (fst (cmdUptime wd args t))"
    using sample_keeps [OF assms] by (simp add: cmdUptime_def Let_def case_prod_beta)
  show "table_inv (fst (cmdPs wd args t))"
    using transient_keeps [OF sample_keeps [OF assms]]
    by (simp add: cmdPs_def Let_def case_prod_beta split: option.split)
  show "table_inv (fst (cmdTop wd args t))"
    using assms top_batch_keeps [OF transient_keeps [OF assms]] top_live_keeps [OF transient_keeps [OF assms]]
    by (simp add: cmdTop_def Let_def case_prod_beta split: sum.split)
qed (use assms in \<open>simp_all add: cmdDate_def cmdSystemctl_def cmdFree_def cmdDf_def cmdSleep_def cmdBuild_def Let_def
      case_prod_beta split: sum.split option.split float_value.split\<close>)

end
