(* ===== verification/Shell.thy ===== *)
theory Shell
  imports Shell_Top Vfs_Correct
begin

text \<open>
  The simulated shell, \<^verbatim>\<open>src/fakeshell/shell.go\<close>: its state, login and reset, the prompt and banner, file name
  patterns and Tab completion.

  What the shell writes is the list of its TTY operations.  \<open>e\<close> is what the file tree's generated files and
  clock see at a call, \<open>w\<close> the window width.
\<close>

section \<open>State\<close>

definition shellUser :: string where "shellUser = ''review''"
definition shellHome :: string where "shellHome = ''/home/review''"
definition shellPath :: string where "shellPath = ''/home/review/.local/bin:/usr/local/bin:/usr/bin''"

record 'e shell =
  sHost :: string
  sFs :: "'e fs"
  sProcs :: proc_table
  sEd :: editor
  cwd :: string
  oldpwd :: string
  env :: env
  status :: int
  dirty :: bool
  tout :: "tty_op list"

definition say :: "string \<Rightarrow> 'e shell \<Rightarrow> 'e shell" where
  "say s sh = sh\<lparr>tout := tout sh @ [TWrite s]\<rparr>"

definition say_clear :: "'e shell \<Rightarrow> 'e shell" where
  "say_clear sh = sh\<lparr>tout := tout sh @ [TClear]\<rparr>"

definition default_env :: "string \<Rightarrow> env" where
  "default_env host =
     [(''HOME'', shellHome), (''USER'', shellUser), (''LOGNAME'', shellUser), (''SHELL'', ''/bin/bash''),
      (''TERM'', ''xterm-256color''), (''LANG'', ''C.UTF-8''), (''PATH'', shellPath), (''HOSTNAME'', host),
      (''EDITOR'', ''vi'')]"

definition shell_reset :: "'e shell \<Rightarrow> 'e shell" where
  "shell_reset sh =
     sh\<lparr>sFs := fs_Reset (sFs sh), sEd := ResetHistory (sEd sh), cwd := shellHome, oldpwd := [], status := 0,
        dirty := False, env := default_env (sHost sh)\<rparr>"

text \<open>
  The tree of the shell.  The embedded base tree and what the generated files print are arguments.
\<close>

definition extra_dirs :: "string list" where
  "extra_dirs = [''/tmp'', ''/var/tmp'', ''/opt'', ''/mnt'', ''/home/review/.cache'']"

definition shell_fs_config ::
    "base_fs \<Rightarrow> (string \<times> string) list \<Rightarrow> (string \<times> ('e \<Rightarrow> bytes)) list \<Rightarrow> ('e \<Rightarrow> time) \<Rightarrow> time \<Rightarrow> 'e vfs_config" where
  "shell_fs_config base static generated clock base_time =
     \<lparr>Base = Some base, ExtraDirs = extra_dirs, Static = static, Generated = generated, User = shellUser,
      Home = shellHome, Writable = [shellHome, ''/tmp'', ''/var/tmp''], Private = [''/root'', ''/etc/shadow''],
      BaseTime = base_time, Now = clock, MaxEntries = 0, MaxBytes = 0\<rparr>"

definition newShell :: "string \<Rightarrow> 'e vfs_config \<Rightarrow> time \<Rightarrow> rng \<Rightarrow> 'e shell" where
  "newShell host c tm r =
     shell_reset
       \<lparr>sHost = host, sFs = fs_New c, sProcs = newProcTable tm r, sEd = editor_New, cwd = [], oldpwd = [], env = [], status = 0,
        dirty = False, tout = []\<rparr>"

definition shell_abs :: "'e shell \<Rightarrow> string \<Rightarrow> string" where
  "shell_abs sh p = Resolve (cwd sh) p"

definition prompt :: "'e shell \<Rightarrow> string" where
  "prompt sh =
     (let dir = (if cwd sh = shellHome then ''~''
                 else if HasPrefix (cwd sh) (shellHome @ ''/'') then ''~'' @ drop (length shellHome) (cwd sh)
                 else cwd sh)
      in CSI @ ''1;32m'' @ shellUser @ ''@'' @ sHost sh @ CSI @ ''0m:'' @ CSI @ ''1;34m'' @ dir @ CSI @ ''0m$ '')"

definition banner :: "string list \<Rightarrow> string \<Rightarrow> int \<Rightarrow> string" where
  "banner names host w =
     CSI @ ''1m'' @ TrimSuffix (wrapText (''Welcome to '' @ host @ '', a Scomp demo machine.'') w) [LF] @ CSI @ ''0m'' @ [LF, LF] @
     wrapText ''This is a simulated shell: nothing you type is executed and no file here is real, so feel free to explore.'' w @
     [LF] @ CSI @ ''1mAvailable commands:'' @ CSI @ ''0m'' @ [LF] @ columns names w ''  '' @ [LF] @
     wrapText ''Try: top, ps aux, ls -la, cat README.md, build, git status, date. Type help for details. Other sessions on this host: agent (answer y/n) and logs.'' w @
     [LF]"

definition shell_login :: "string list \<Rightarrow> int \<Rightarrow> 'e shell \<Rightarrow> 'e shell" where
  "shell_login names w sh = say (banner names (sHost sh) w) (say_clear sh)"

section \<open>File name patterns\<close>

text \<open>
  Go's \<^verbatim>\<open>path.Match\<close>: a pattern is parsed into tokens, \<open>None\<close> if it is malformed.
\<close>

datatype pattern_token = PStar | PAnyRune | PRune rune | PClass bool "(rune \<times> rune) list"

definition getEsc :: "rune list \<Rightarrow> (rune \<times> rune list) option" where
  "getEsc rs =
     (case rs of
        [] \<Rightarrow> None
      | r # rest \<Rightarrow>
          if r = rune_of CHR ''-'' \<or> r = rune_of CHR '']'' then None
          else
            let r2 = (if r = rune_of CHR 0x5C then rest else rs) in
            case r2 of
              [] \<Rightarrow> None
            | c # rest2 \<Rightarrow> if rest2 = [] then None else Some (c, rest2))"

lemma getEsc_shorter: "getEsc rs = Some (c, rest) \<Longrightarrow> length rest < length rs"
  by (auto simp: getEsc_def Let_def split: list.splits if_splits)

function parse_ranges :: "nat \<Rightarrow> rune list \<Rightarrow> ((rune \<times> rune) list \<times> rune list) option" where
  "parse_ranges n rs =
     (if rs \<noteq> [] \<and> hd rs = rune_of CHR '']'' \<and> n > 0 then Some ([], tl rs)
      else case getEsc rs of
          None \<Rightarrow> None
        | Some (lo, rest) \<Rightarrow>
            if hd rest = rune_of CHR ''-'' then
              (case getEsc (tl rest) of
                 None \<Rightarrow> None
               | Some (hi, rest2) \<Rightarrow> map_option (\<lambda>(ps, r). ((lo, hi) # ps, r)) (parse_ranges (n + 1) rest2))
            else map_option (\<lambda>(ps, r). ((lo, lo) # ps, r)) (parse_ranges (n + 1) rest))"
  by auto
termination
proof (relation "measure (\<lambda>(n, rs). length rs)", goal_cases)
  case (2 n rs x lo rest y hi rest2)
  then have "length rest < length rs" "length rest2 < length (tl rest)" by (auto dest!: getEsc_shorter)
  then show ?case by simp
next
  case (3 n rs x lo rest)
  then show ?case by (auto dest!: getEsc_shorter)
qed simp

declare parse_ranges.simps [simp del]

lemma parse_ranges_shorter: "parse_ranges n rs = Some (ps, rest) \<Longrightarrow> length rest \<le> length rs"
proof (induction n rs arbitrary: ps rest rule: parse_ranges.induct)
  case (1 n rs)
  show ?case
  proof (cases "rs \<noteq> [] \<and> hd rs = rune_of CHR '']'' \<and> n > 0")
    case True
    with 1(3) show ?thesis by (subst (asm) parse_ranges.simps) auto
  next
    case False
    with 1(3) obtain lo r1 where e: "getEsc rs = Some (lo, r1)"
      by (subst (asm) parse_ranges.simps) (auto split: option.splits)
    note l1 = getEsc_shorter [OF e]
    show ?thesis
    proof (cases "hd r1 = rune_of CHR ''-''")
      case True
      with False 1(3) e obtain hi r2 qs where h: "getEsc (tl r1) = Some (hi, r2)" "parse_ranges (n + 1) r2 = Some (qs, rest)"
        by (subst (asm) parse_ranges.simps) (auto split: option.splits)
      have "length rest \<le> length r2" using 1(1) [OF False e refl True h(1) refl h(2)] .
      with l1 getEsc_shorter [OF h(1)] show ?thesis by simp
    next
      case no: False
      with False 1(3) e obtain qs where h: "parse_ranges (n + 1) r1 = Some (qs, rest)"
        by (subst (asm) parse_ranges.simps) (auto split: option.splits)
      have "length rest \<le> length r1" using 1(2) [OF False e refl no h] .
      with l1 show ?thesis by simp
    qed
  qed
qed

function parse_pattern :: "rune list \<Rightarrow> pattern_token list option" where
  "parse_pattern [] = Some []"
| "parse_pattern (r # rs) =
     (if r = rune_of CHR ''*'' then map_option ((#) PStar) (parse_pattern rs)
      else if r = rune_of CHR ''?'' then map_option ((#) PAnyRune) (parse_pattern rs)
      else if r = rune_of CHR ''['' then
        let neg = (rs \<noteq> [] \<and> hd rs = rune_of CHR ''^'');
            body = (if neg then tl rs else rs)
        in case parse_ranges 0 body of
             None \<Rightarrow> None
           | Some (ps, rest) \<Rightarrow> map_option ((#) (PClass neg ps)) (parse_pattern rest)
      else if r = rune_of CHR 0x5C then
        (case rs of [] \<Rightarrow> None | c # rest \<Rightarrow> map_option ((#) (PRune c)) (parse_pattern rest))
      else map_option ((#) (PRune r)) (parse_pattern rs))"
  by pat_completeness auto
termination
  by (relation "measure length") (auto dest!: parse_ranges_shorter simp: less_Suc_eq_le split: if_splits)

fun match_tokens :: "pattern_token list \<Rightarrow> rune list \<Rightarrow> bool" where
  "match_tokens [] s \<longleftrightarrow> s = []"
| "match_tokens (PStar # ts) [] \<longleftrightarrow> match_tokens ts []"
| "match_tokens (PStar # ts) (r # s) \<longleftrightarrow>
     match_tokens ts (r # s) \<or> (r \<noteq> rune_of slash \<and> match_tokens (PStar # ts) s)"
| "match_tokens (t # ts) [] \<longleftrightarrow> False"
| "match_tokens (PAnyRune # ts) (r # s) \<longleftrightarrow> r \<noteq> rune_of slash \<and> match_tokens ts s"
| "match_tokens (PRune c # ts) (r # s) \<longleftrightarrow> r = c \<and> match_tokens ts s"
| "match_tokens (PClass neg ps # ts) (r # s) \<longleftrightarrow>
     list_ex (\<lambda>(lo, hi). lo \<le> r \<and> r \<le> hi) ps \<noteq> neg \<and> match_tokens ts s"

definition path_Match :: "string \<Rightarrow> string \<Rightarrow> bool option" where
  "path_Match pat name =
     map_option (\<lambda>ts. match_tokens ts (runes_of_string name)) (parse_pattern (runes_of_string pat))"

definition shell_glob :: "'e \<Rightarrow> 'e shell \<Rightarrow> string \<Rightarrow> string list" where
  "shell_glob e sh pat =
     (let dir = dir_part pat; base = after_last slash pat;
          lookup = (if dir = [] then cwd sh else shell_abs sh dir)
      in if path_Match base [] = None then [pat]
         else case fs_ReadDir e (sFs sh) lookup of
             Inl _ \<Rightarrow> [pat]
           | Inr infos \<Rightarrow>
               let found = map (\<lambda>i. dir @ iName i)
                     (filter (\<lambda>i. \<not> (HasPrefix (iName i) ''.'' \<and> \<not> HasPrefix base ''.'') \<and>
                        path_Match base (iName i) = Some True) infos)
               in if found = [] then [pat] else found)"

section \<open>Completion\<close>

definition splice :: "rune list \<Rightarrow> nat \<Rightarrow> nat \<Rightarrow> string \<Rightarrow> rune list \<times> int \<times> string list" where
  "splice l start p ins =
     (let rs = runes_of_string ins in (take start l @ rs @ drop p l, int (start + length rs), []))"

text \<open>The common prefix, shortened byte by byte until the next candidate starts with it.\<close>

fun shorten :: "string \<Rightarrow> string \<Rightarrow> string" where
  "shorten ins common =
     (if HasPrefix ins common then common else if common = [] then [] else shorten ins (butlast common))"

declare shorten.simps [simp del]

definition word_candidates :: "'e \<Rightarrow> string list \<Rightarrow> 'e shell \<Rightarrow> string \<Rightarrow> string \<Rightarrow> (string \<times> string) list" where
  "word_candidates e names sh before pre =
     (if TrimSpace before = [] \<and> \<not> Contains pre ''/'' then
        map (\<lambda>n. (n, n @ '' '')) (filter (\<lambda>n. HasPrefix n pre) names)
      else
        let dir = dir_part pre; base = after_last slash pre;
            lookup = (if dir = [] then cwd sh
                      else shell_abs sh (if HasPrefix dir ''~'' then shellHome @ drop 1 dir else dir));
            infos = (case fs_ReadDir e (sFs sh) lookup of Inr is \<Rightarrow> is | Inl _ \<Rightarrow> [])
        in map (\<lambda>i. if iDir i then (iName i @ ''/'', dir @ iName i @ ''/'') else (iName i, dir @ iName i @ '' ''))
             (filter (\<lambda>i. HasPrefix (iName i) base \<and> \<not> (HasPrefix (iName i) ''.'' \<and> \<not> HasPrefix base ''.'')) infos))"

definition complete :: "'e \<Rightarrow> string list \<Rightarrow> 'e shell \<Rightarrow> rune list \<Rightarrow> nat \<Rightarrow> rune list \<times> int \<times> string list" where
  "complete e names sh l p =
     (let start = skip_back (\<lambda>r. r \<noteq> rune_of CHR '' '') l p;
          pre = string_of_runes (drop start (take p l));
          cands = word_candidates e names sh (string_of_runes (take start l)) pre
      in case cands of
           [] \<Rightarrow> (l, int p, [])
         | [(_, ins)] \<Rightarrow> splice l start p ins
         | (_, ins) # _ \<Rightarrow>
             let common = foldl (\<lambda>common (_, i). shorten i common) ins cands
             in if length common > length pre then splice l start p common
                else (l, int p, sort (map fst cands)))"

end
