(* ===== verification/Shell_Commands.thy ===== *)
theory Shell_Commands
  imports Shell
begin

text \<open>
  The commands of the simulated shell, \<^verbatim>\<open>src/fakeshell/commands.go\<close>, and the line interpreter \<^verbatim>\<open>run\<close> of
  \<^verbatim>\<open>shell.go\<close>.

  \<open>world\<close> is what a line meets outside the shell: the moment \<open>wE\<close>, the window width, how its naps end, the
  formatting of times in the local zone, Unicode lower-casing, and what the commands that display the simulated
  machine meet.
\<close>

section \<open>Surroundings\<close>

record 'e world =
  wE :: 'e
  wWidth :: int
  wNap :: nap
  wFormat :: "time \<Rightarrow> string \<Rightarrow> string"
  wLower :: "string \<Rightarrow> string"
  wDisplay :: display_world

section \<open>Command table\<close>

datatype cmd_run =
    CBuild | CCat | CCd | CClear | CDate | CDf | CEcho | CEnv | CExit | CFree | CGit | CGrep | CHead | CHelp
  | CHistory | CHostname | CID | CLs | CMkdir | CPs | CPwd | CRm | CSleep | CTail | CTop | CTouch | CUname
  | CUptime | CWhoami | CExport | CUnset | CRmdir | CTrue | CFalse | CWhich | CMan | CSudo | CSu | CKill
  | CSystemctl | CNotAvailable string

record command =
  cName :: string
  cUsage :: string
  cHelp :: string
  cHidden :: bool
  cRun :: cmd_run

definition listed :: "string \<Rightarrow> string \<Rightarrow> string \<Rightarrow> cmd_run \<Rightarrow> command" where
  "listed n u h r = \<lparr>cName = n, cUsage = u, cHelp = h, cHidden = False, cRun = r\<rparr>"

definition unlisted :: "cmd_run \<Rightarrow> string \<Rightarrow> command" where
  "unlisted r n = \<lparr>cName = n, cUsage = [], cHelp = [], cHidden = True, cRun = r\<rparr>"

definition commandTable :: "command list" where
  "commandTable =
     [listed ''build'' ''build'' ''run the demo app's build (Ctrl-C stops it)'' CBuild,
      listed ''cat'' ''cat FILE...'' ''print files'' CCat,
      listed ''cd'' ''cd [DIR]'' ''change directory (cd -, cd ~)'' CCd,
      listed ''clear'' ''clear'' ''clear the screen (or Ctrl-L)'' CClear,
      listed ''date'' ''date [-u] [-R|-I] [+FORMAT]'' ''current date and time'' CDate,
      listed ''df'' ''df [-h]'' ''disk usage'' CDf,
      listed ''echo'' ''echo [-n] TEXT'' ''print text; $HOME and $? expand'' CEcho,
      listed ''env'' ''env'' ''environment variables'' CEnv,
      listed ''exit'' ''exit'' ''log out (a new login starts)'' CExit,
      listed ''free'' ''free [-h|-m]'' ''memory usage'' CFree,
      listed ''git'' ''git status|log|diff|branch'' ''the demo project's history'' CGit,
      listed ''grep'' ''grep [-i] [-n] TEXT FILE...'' ''find lines containing TEXT'' CGrep,
      listed ''head'' ''head [-n N] FILE...'' ''first lines of files'' CHead,
      listed ''help'' ''help'' ''this list'' CHelp,
      listed ''history'' ''history [-c]'' ''commands typed in this session'' CHistory,
      listed ''hostname'' ''hostname'' ''the machine name'' CHostname,
      listed ''id'' ''id'' ''user and group ids'' CID,
      listed ''ls'' ''ls [-la] [PATH...]'' ''list directory contents'' CLs,
      listed ''mkdir'' ''mkdir [-p] DIR...'' ''create directories (in memory)'' CMkdir,
      listed ''ps'' ''ps [aux|-ef]'' ''running processes'' CPs,
      listed ''pwd'' ''pwd'' ''current directory'' CPwd,
      listed ''rm'' ''rm [-r] PATH...'' ''remove files you created'' CRm,
      listed ''sleep'' ''sleep SECONDS'' ''wait (at most 60 s; Ctrl-C stops)'' CSleep,
      listed ''tail'' ''tail [-n N] FILE...'' ''last lines of files'' CTail,
      listed ''top'' ''top [-b] [-n N] [-d SEC]'' ''live process monitor (q quits)'' CTop,
      listed ''touch'' ''touch FILE...'' ''create empty files (in memory)'' CTouch,
      listed ''uname'' ''uname [-a]'' ''system information'' CUname,
      listed ''uptime'' ''uptime [-p]'' ''time since boot and load'' CUptime,
      listed ''whoami'' ''whoami'' ''current user'' CWhoami,
      unlisted CExit ''logout'', unlisted CEnv ''printenv'', unlisted CExport ''export'', unlisted CUnset ''unset'',
      unlisted CRmdir ''rmdir'', unlisted CCat ''less'', unlisted CCat ''more'', unlisted CTrue ''true'',
      unlisted CFalse ''false'', unlisted CWhich ''which'', unlisted CWhich ''type'', unlisted CMan ''man'',
      unlisted CSudo ''sudo'', unlisted CSu ''su'', unlisted CKill ''kill'', unlisted CSystemctl ''systemctl''] @
     map (unlisted (CNotAvailable ''editors are not available; try cat'')) [''vi'', ''vim'', ''nano'', ''emacs''] @
     map (unlisted (CNotAvailable ''this demo machine has no network access''))
       [''curl'', ''wget'', ''ssh'', ''scp'', ''ping'', ''nc'', ''telnet'', ''ftp''] @
     map (unlisted (CNotAvailable ''not available on this demo machine; type help for what is''))
       [''bash'', ''sh'', ''zsh'', ''python'', ''python3'', ''node'', ''go'', ''make'', ''docker'', ''dnf'', ''apt'', ''yum'']"

definition lookupCommand :: "string \<Rightarrow> command option" where
  "lookupCommand name = find (\<lambda>c. cName c = name) commandTable"

definition visibleCommands :: "command list" where
  "visibleCommands = sort_key cName (filter (\<lambda>c. \<not> cHidden c) commandTable)"

definition visibleCommandNames :: "string list" where
  "visibleCommandNames = map cName visibleCommands"

definition fsErr :: "string \<Rightarrow> string \<Rightarrow> vfs_error \<Rightarrow> string" where
  "fsErr prog name err = line_of (prog @ '': '' @ name @ '': '' @ vfs_error_text err)"

section \<open>Commands\<close>

type_synonym 'e cmd = "'e world \<Rightarrow> string list \<Rightarrow> 'e shell \<Rightarrow> 'e shell \<times> int"

definition cmdHelp :: "'e cmd" where
  "cmdHelp wd args sh =
     (let sh1 = say (line_of ''Commands of this demo machine (nothing is executed for real):'' @ [LF]) sh;
          sh2 = foldl (\<lambda>sh c. say (if wWidth wd \<ge> 60
                    then line_of (''  '' @ pad_right 28 (cUsage c) @ '' '' @ cHelp c)
                    else line_of (''  '' @ cUsage c) @ line_of (''      '' @ cHelp c)) sh) sh1 visibleCommands
      in (say ([LF] @ line_of ''Keys: Up/Down history, Tab completion, Ctrl-C cancel, Ctrl-L clear.'') sh2, 0))"

definition cmdPwd :: "'e cmd" where
  "cmdPwd wd args sh = (say (line_of (cwd sh)) sh, 0)"

definition cmdCd :: "'e cmd" where
  "cmdCd wd args sh =
     (if length args > 2 then (say (line_of ''bash: cd: too many arguments'') sh, 1)
      else
        let target = (if length args = 2 then args ! 1 else shellHome) in
        if target = ''-'' \<and> oldpwd sh = [] then (say (line_of ''bash: cd: OLDPWD not set'') sh, 1)
        else
          let (target1, sh1) = (if target = ''-'' then (oldpwd sh, say (line_of (oldpwd sh)) sh) else (target, sh));
              p = shell_abs sh1 target1
          in case fs_Stat (wE wd) (sFs sh1) p of
               Inl err \<Rightarrow> (say (fsErr ''bash: cd'' target1 err) sh1, 1)
             | Inr st \<Rightarrow>
                 if \<not> iDir st then (say (fsErr ''bash: cd'' target1 ErrNotDir) sh1, 1)
                 else case fs_ReadDir (wE wd) (sFs sh1) p of
                     Inl err \<Rightarrow> (say (fsErr ''bash: cd'' target1 err) sh1, 1)
                   | Inr _ \<Rightarrow>
                       (sh1\<lparr>oldpwd := cwd sh1, cwd := p,
                            env := AList.update ''OLDPWD'' (cwd sh1) (AList.update ''PWD'' p (env sh1))\<rparr>, 0))"

text \<open>\<^verbatim>\<open>ls\<close>: the flags, or the first rune that is none.\<close>

record ls_flags =
  lsLong :: bool
  lsAll :: bool
  lsAlmost :: bool
  lsPaths :: "string list"

fun ls_letters :: "ls_flags \<Rightarrow> rune list \<Rightarrow> rune + ls_flags" where
  "ls_letters fl [] = Inr fl"
| "ls_letters fl (f # fs) =
     (if f = rune_of CHR ''l'' then ls_letters (fl\<lparr>lsLong := True\<rparr>) fs
      else if f = rune_of CHR ''a'' then ls_letters (fl\<lparr>lsAll := True\<rparr>) fs
      else if f = rune_of CHR ''A'' then ls_letters (fl\<lparr>lsAlmost := True\<rparr>) fs
      else if f \<in> set (map rune_of ''h1FGrtSd'') then ls_letters fl fs
      else Inl f)"

fun ls_args :: "ls_flags \<Rightarrow> string list \<Rightarrow> rune + ls_flags" where
  "ls_args fl [] = Inr fl"
| "ls_args fl (a # args) =
     (if a = ''--all'' then ls_args (fl\<lparr>lsAll := True\<rparr>) args
      else if a = ''--almost-all'' then ls_args (fl\<lparr>lsAlmost := True\<rparr>) args
      else if HasPrefix a ''--'' then ls_args fl args
      else if HasPrefix a ''-'' \<and> length a > 1 then
        (case ls_letters fl (runes_of_string (drop 1 a)) of Inl f \<Rightarrow> Inl f | Inr fl1 \<Rightarrow> ls_args fl1 args)
      else ls_args (fl\<lparr>lsPaths := lsPaths fl @ [a]\<rparr>) args)"

definition modeString :: "info \<Rightarrow> string" where
  "modeString i =
     (if iDir i then ''d'' else ''-'') @
     map (\<lambda>k. if iMode i div 2 ^ (8 - k) mod 2 = 0 then CHR ''-'' else ''rwxrwxrwx'' ! k) [0..<9]"

definition lsColor :: "info \<Rightarrow> string" where
  "lsColor i =
     (if iDir i then CSI @ ''01;34m'' @ iName i @ CSI @ ''0m''
      else if iMode i mod 2 = 1 \<or> iMode i div 8 mod 2 = 1 \<or> iMode i div 64 mod 2 = 1
      then CSI @ ''01;32m'' @ iName i @ CSI @ ''0m''
      else iName i)"

definition hour :: int where "hour = 3600 * 10 ^ 9"

definition ls_row :: "'e world \<Rightarrow> time \<Rightarrow> info \<Rightarrow> string" where
  "ls_row wd tm i =
     (let links = (if iDir i then 2 else 1);
          stamp = (if tm - iModTime i > 180 * 24 * hour \<or> iModTime i > tm + hour
                   then wFormat wd (iModTime i) ''Jan _2  2006'' else wFormat wd (iModTime i) ''Jan _2 15:04'')
      in line_of (modeString i @ '' '' @ pad_left 2 (show_int links) @ '' '' @ pad_right 6 (iOwner i) @ '' '' @
           pad_right 6 (iOwner i) @ '' '' @ pad_left 6 (show_int (iSize i)) @ '' '' @ stamp @ '' '' @ lsColor i))"

definition lsPrint :: "'e world \<Rightarrow> info list \<Rightarrow> bool \<Rightarrow> 'e shell \<Rightarrow> 'e shell" where
  "lsPrint wd infos long sh =
     (if infos = [] then sh
      else if \<not> long then say (columns (map lsColor infos) (wWidth wd) []) sh
      else foldl (\<lambda>sh i. say (ls_row wd (Now (cfg (sFs sh)) (wE wd)) i) sh) sh infos)"

fun ls_stat :: "'e world \<Rightarrow> string list \<Rightarrow> 'e shell \<Rightarrow> 'e shell \<times> int \<times> info list \<times> string list" where
  "ls_stat wd [] sh = (sh, 0, [], [])"
| "ls_stat wd (p # ps) sh =
     (case fs_Stat (wE wd) (sFs sh) (shell_abs sh p) of
        Inl err \<Rightarrow>
          let (sh1, st, fis, ds) =
            ls_stat wd ps (say (line_of (''ls: cannot access '' @ [CHR 0x27] @ p @ [CHR 0x27] @ '': '' @ vfs_error_text err)) sh)
          in (sh1, 2, fis, ds)
      | Inr i \<Rightarrow>
          let (sh1, st, fis, ds) = ls_stat wd ps sh
          in if iDir i then (sh1, st, fis, p # ds) else (sh1, st, i\<lparr>iName := p\<rparr> # fis, ds))"

definition ls_special :: "'e world \<Rightarrow> 'e shell \<Rightarrow> string \<Rightarrow> string \<Rightarrow> info list" where
  "ls_special wd sh name p = (case fs_Stat (wE wd) (sFs sh) p of Inr st \<Rightarrow> [st\<lparr>iName := name\<rparr>] | Inl _ \<Rightarrow> [])"

fun ls_dirs :: "'e world \<Rightarrow> ls_flags \<Rightarrow> nat \<Rightarrow> bool \<Rightarrow> int \<Rightarrow> string list \<Rightarrow> 'e shell \<Rightarrow> 'e shell \<times> int" where
  "ls_dirs wd fl npaths printed st [] sh = (sh, st)"
| "ls_dirs wd fl npaths printed st (d # ds) sh =
     (let p = shell_abs sh d in
      case fs_ReadDir (wE wd) (sFs sh) p of
        Inl err \<Rightarrow>
          ls_dirs wd fl npaths printed 2 ds
            (say (line_of (''ls: cannot open directory '' @ [CHR 0x27] @ d @ [CHR 0x27] @ '': '' @ vfs_error_text err)) sh)
      | Inr infos \<Rightarrow>
          let shown = (if lsAll fl then ls_special wd sh ''.'' p @ ls_special wd sh ''..'' (path_Dir p) else []) @
                      filter (\<lambda>i. \<not> (HasPrefix (iName i) ''.'' \<and> \<not> lsAll fl \<and> \<not> lsAlmost fl)) infos;
              sh1 = (if printed then say [LF] sh else sh);
              sh2 = (if npaths > 1 then say (line_of (d @ '':'')) sh1 else sh1);
              sh3 = (if lsLong fl
                     then say (line_of (''total '' @ show_int (sum_list (map (\<lambda>i. div_trunc (iSize i + 4095) 4096 * 4) shown)))) sh2
                     else sh2)
          in ls_dirs wd fl npaths True st ds (lsPrint wd shown (lsLong fl) sh3))"

definition cmdLs :: "'e cmd" where
  "cmdLs wd args sh =
     (case ls_args \<lparr>lsLong = False, lsAll = False, lsAlmost = False, lsPaths = []\<rparr> (drop 1 args) of
        Inl f \<Rightarrow> (say (line_of (''ls: invalid option -- '' @ [CHR 0x27] @ EncodeRune f @ [CHR 0x27])) sh, 2)
      | Inr fl \<Rightarrow>
          let paths = (if lsPaths fl = [] then [''.''] else lsPaths fl);
              (sh1, st, fis, ds) = ls_stat wd paths sh;
              sh2 = (if fis \<noteq> [] then lsPrint wd fis (lsLong fl) sh1 else sh1)
          in ls_dirs wd fl (length paths) (fis \<noteq> []) st ds sh2)"

text \<open>Reading files: \<open>each\<close> gives what is written for a file, piece by piece.\<close>

fun read_each ::
    "'e world \<Rightarrow> string \<Rightarrow> (string \<Rightarrow> bytes \<Rightarrow> string list) \<Rightarrow> string list \<Rightarrow> 'e shell \<Rightarrow> 'e shell \<times> int \<times> bool" where
  "read_each wd prog each [] sh = (sh, 0, False)"
| "read_each wd prog each (n # ns) sh =
     (case fs_ReadFile (wE wd) (sFs sh) (shell_abs sh n) of
        Inl err \<Rightarrow> let (sh1, st, wrote) = read_each wd prog each ns (say (fsErr prog n err) sh) in (sh1, 1, wrote)
      | Inr data \<Rightarrow>
          let (sh1, st, wrote) = read_each wd prog each ns (foldl (\<lambda>sh t. say t sh) sh (each n data))
          in (sh1, st, wrote \<or> each n data \<noteq> []))"

definition readFiles ::
    "'e world \<Rightarrow> string \<Rightarrow> string list \<Rightarrow> (string \<Rightarrow> bytes \<Rightarrow> string list) \<Rightarrow> 'e shell \<Rightarrow> 'e shell \<times> int \<times> bool" where
  "readFiles wd prog names each sh =
     (if names = [] then
        (say (line_of (prog @ '': reading standard input is not supported on this demo machine; give a file name'')) sh, 1, False)
      else read_each wd prog each names sh)"

definition cmdCat :: "'e cmd" where
  "cmdCat wd args sh =
     (let names = filter (\<lambda>a. \<not> HasPrefix a ''-'' \<or> a = ''-'') (drop 1 args);
          (sh1, st, _) = readFiles wd (hd args) names (\<lambda>_ data. [data]) sh
      in (sh1, st))"

text \<open>\<^verbatim>\<open>-n N\<close>, \<^verbatim>\<open>-nN\<close> and \<^verbatim>\<open>-N\<close>, or the message for what is none of them.\<close>

definition quoted :: "string \<Rightarrow> string" where
  "quoted s = [CHR 0x27] @ s @ [CHR 0x27]"

definition count_arg :: "string \<Rightarrow> string \<Rightarrow> string + int" where
  "count_arg msg a = (case Atoi a of Some v \<Rightarrow> if v < 0 then Inl (msg @ quoted a) else Inr v | None \<Rightarrow> Inl (msg @ quoted a))"

fun line_count :: "int \<Rightarrow> string list \<Rightarrow> string list \<Rightarrow> string + int \<times> string list" where
  "line_count n names [] = Inr (n, names)"
| "line_count n names (a # args) =
     (if a = ''-n'' \<and> args \<noteq> [] then
        (case count_arg ''invalid number of lines: '' (hd args) of
           Inl e \<Rightarrow> Inl e | Inr v \<Rightarrow> line_count v names (tl args))
      else if HasPrefix a ''-n'' then
        (case count_arg ''invalid number of lines: '' (drop 2 a) of
           Inl e \<Rightarrow> Inl e | Inr v \<Rightarrow> line_count v names args)
      else if HasPrefix a ''-'' \<and> length a > 1 then
        (case count_arg ''invalid option -- '' (drop 1 a) of
           Inl e \<Rightarrow> Inl e | Inr v \<Rightarrow> line_count v names args)
      else line_count n (names @ [a]) args)"

definition lineCountArgs :: "string list \<Rightarrow> string + int \<times> string list" where
  "lineCountArgs args = line_count 10 [] args"

definition file_lines :: "bytes \<Rightarrow> string list" where
  "file_lines data = (let ls = split_after LF data in if ls \<noteq> [] \<and> last ls = [] then butlast ls else ls)"

definition headTail :: "bool \<Rightarrow> 'e cmd" where
  "headTail tail wd args sh =
     (case lineCountArgs (drop 1 args) of
        Inl e \<Rightarrow> (say (line_of (hd args @ '': '' @ e)) sh, 1)
      | Inr (n, names) \<Rightarrow>
          let each = (\<lambda>name data.
                let ls = file_lines data;
                    ls1 = (if tail then drop (length ls - nat n) ls else take (min (nat n) (length ls)) ls)
                in (if length names > 1 then [line_of (''==> '' @ name @ '' <=='')] else []) @ [concat ls1]);
              (sh1, st, _) = readFiles wd (hd args) names each sh
          in (sh1, st))"

text \<open>\<^verbatim>\<open>grep\<close>: its options come before the text; \<open>None\<close> is an option it does not have.\<close>

fun grep_letters :: "bool \<times> bool \<Rightarrow> rune list \<Rightarrow> (bool \<times> bool) option" where
  "grep_letters (ic, num) [] = Some (ic, num)"
| "grep_letters (ic, num) (f # fs) =
     (if f = rune_of CHR ''i'' then grep_letters (True, num) fs
      else if f = rune_of CHR ''n'' then grep_letters (ic, True) fs else None)"

fun grep_args :: "bool \<times> bool \<Rightarrow> string list \<Rightarrow> string list \<Rightarrow> ((bool \<times> bool) \<times> string list) option" where
  "grep_args fl rest [] = Some (fl, rest)"
| "grep_args fl rest (a # args) =
     (if HasPrefix a ''-'' \<and> length a > 1 \<and> rest = [] then
        (case grep_letters fl (runes_of_string (drop 1 a)) of None \<Rightarrow> None | Some fl1 \<Rightarrow> grep_args fl1 rest args)
      else grep_args fl (rest @ [a]) args)"

definition grep_file :: "'e world \<Rightarrow> bool \<Rightarrow> bool \<Rightarrow> string \<Rightarrow> nat \<Rightarrow> string \<Rightarrow> bytes \<Rightarrow> string list" where
  "grep_file wd ic num pat nfiles name data =
     (let ls = split_on LF (TrimSuffix data [LF]) in
      List.map_filter
        (\<lambda>(i, l).
           if Contains (if ic then wLower wd l else l) pat then
             Some (line_of
               ((if nfiles > 1 then CSI @ ''35m'' @ name @ CSI @ ''36m:'' @ CSI @ ''0m'' else []) @
                (if num then CSI @ ''32m'' @ show_int (int (i + 1)) @ CSI @ ''36m:'' @ CSI @ ''0m'' else []) @ l))
           else None)
        (List.enumerate 0 ls))"

definition cmdGrep :: "'e cmd" where
  "cmdGrep wd args sh =
     (case grep_args (False, False) [] (drop 1 args) of
        None \<Rightarrow> (say (line_of ''grep: this demo supports only -i and -n'') sh, 2)
      | Some ((ic, num), []) \<Rightarrow> (say (line_of ''Usage: grep [-i] [-n] TEXT FILE...'') sh, 2)
      | Some ((ic, num), text # names) \<Rightarrow>
          let pat = (if ic then wLower wd text else text);
              (sh1, st, found) = readFiles wd ''grep'' names (grep_file wd ic num pat (length names)) sh
          in (sh1, if st \<noteq> 0 then 2 else if \<not> found then 1 else 0))"

definition cmdEcho :: "'e cmd" where
  "cmdEcho wd args sh =
     (let ws = drop 1 args;
          opts = takeWhile (\<lambda>a. a = ''-n'' \<or> a = ''-e'' \<or> a = ''-E'') ws;
          t = Join (drop (length opts) ws) '' ''
      in (say (if ''-n'' \<in> set opts then t else line_of t) sh, 0))"

definition cmdWhoami :: "'e cmd" where
  "cmdWhoami wd args sh = (say (line_of shellUser) sh, 0)"

definition cmdID :: "'e cmd" where
  "cmdID wd args sh =
     (say (line_of ''uid=1000(review) gid=1000(review) groups=1000(review) context=unconfined_u:unconfined_r:unconfined_t:s0-s0:c0.c1023'') sh, 0)"

definition cmdHostname :: "'e cmd" where
  "cmdHostname wd args sh =
     (if length args > 1 \<and> \<not> HasPrefix (args ! 1) ''-''
      then (say (line_of ''hostname: you must be root to change the host name'') sh, 1)
      else (say (line_of (sHost sh)) sh, 0))"

definition kernelRelease :: string where "kernelRelease = ''6.17.4-300.fc45.x86_64''"
definition kernelVersion :: string where
  "kernelVersion = ''#1 SMP PREEMPT_DYNAMIC Fri Oct 24 15:03:21 UTC 2026''"

definition uname_fields :: "string \<Rightarrow> (rune \<times> string) list" where
  "uname_fields host =
     [(rune_of CHR ''s'', ''Linux''), (rune_of CHR ''n'', host), (rune_of CHR ''r'', kernelRelease),
      (rune_of CHR ''v'', kernelVersion), (rune_of CHR ''m'', ''x86_64''), (rune_of CHR ''p'', ''unknown''),
      (rune_of CHR ''i'', ''unknown''), (rune_of CHR ''o'', ''GNU/Linux'')]"

fun uname_letters :: "string \<Rightarrow> rune list \<Rightarrow> rune list \<Rightarrow> string + rune list" where
  "uname_letters host want [] = Inr want"
| "uname_letters host want (f # fs) =
     (if f = rune_of CHR ''a'' then uname_letters host (want @ map rune_of ''snrvmo'') fs
      else if map_of (uname_fields host) f = None then Inl (''uname: invalid option -- '' @ quoted (EncodeRune f))
      else uname_letters host (want @ [f]) fs)"

fun uname_args :: "string \<Rightarrow> rune list \<Rightarrow> string list \<Rightarrow> string + rune list" where
  "uname_args host want [] = Inr want"
| "uname_args host want (a0 # args) =
     (let a = (if a0 = ''--all'' then ''-a'' else a0) in
      if \<not> HasPrefix a ''-'' then Inl (''uname: extra operand '' @ quoted a)
      else case uname_letters host want (runes_of_string (drop 1 a)) of
          Inl e \<Rightarrow> Inl e
        | Inr want1 \<Rightarrow> uname_args host want1 args)"

definition cmdUname :: "'e cmd" where
  "cmdUname wd args sh =
     (case uname_args (sHost sh) [] (drop 1 args) of
        Inl e \<Rightarrow> (say (line_of e) sh, 1)
      | Inr want0 \<Rightarrow>
          let want = (if want0 = [] then [rune_of CHR ''s''] else want0);
              fs = List.map_filter (\<lambda>f. if f \<in> set want then map_of (uname_fields (sHost sh)) f else None)
                     (map rune_of ''snrvmpio'')
          in (say (line_of (Join fs '' '')) sh, 0))"

definition cmdEnv :: "'e cmd" where
  "cmdEnv wd args sh =
     (if length args > 1 then
        (case map_of (env sh) (args ! 1) of None \<Rightarrow> (sh, 1) | Some v \<Rightarrow> (say (line_of v) sh, 0))
      else (foldl (\<lambda>sh k. say (line_of (k @ ''='' @ env_get (env sh) k)) sh) sh (sort (map fst (env sh))), 0))"

definition cmdExport :: "'e cmd" where
  "cmdExport wd args sh =
     (foldl (\<lambda>sh a. case cut (CHR ''='') a of
          Some (k, v) \<Rightarrow> if k \<noteq> [] then sh\<lparr>env := AList.update k v (env sh)\<rparr> else sh
        | None \<Rightarrow> sh) sh (drop 1 args), 0)"

definition cmdUnset :: "'e cmd" where
  "cmdUnset wd args sh = (foldl (\<lambda>sh a. sh\<lparr>env := AList.delete a (env sh)\<rparr>) sh (drop 1 args), 0)"

definition cmdHistory :: "'e cmd" where
  "cmdHistory wd args sh =
     (if length args > 1 \<and> args ! 1 = ''-c'' then (sh\<lparr>sEd := ResetHistory (sEd sh)\<rparr>, 0)
      else (foldl (\<lambda>sh (i, h). say (line_of (pad_left 5 (show_int (int (i + 1))) @ ''  '' @ h)) sh) sh
              (List.enumerate 0 (history (sEd sh))), 0))"

definition cmdClear :: "'e cmd" where
  "cmdClear wd args sh = (say_clear sh, 0)"

text \<open>A nap: Ctrl-C is echoed, a closed session ends it silently.\<close>

definition nap_echo :: "nap \<Rightarrow> 'e shell \<Rightarrow> 'e shell" where
  "nap_echo n sh = (if n = NapInterrupted then say (line_of ''^C'') sh else sh)"

definition logout :: "'e world \<Rightarrow> 'e shell \<Rightarrow> 'e shell" where
  "logout wd sh =
     (let sh1 = nap_echo (wNap wd) (shell_reset (say (line_of ''logout'') sh))
      in if wNap wd = NapCancelled then sh1 else shell_login visibleCommandNames (wWidth wd) sh1)"

definition cmdExit :: "'e cmd" where
  "cmdExit wd args sh = (logout wd sh, 0)"

definition on_fs :: "('e fs \<Rightarrow> 'e fs \<times> vfs_error option) \<Rightarrow> (vfs_error \<Rightarrow> string) \<Rightarrow> 'e shell \<times> int \<Rightarrow> 'e shell \<times> int" where
  "on_fs f msg st =
     (case f (sFs (fst st)) of
        (fs1, None) \<Rightarrow> ((fst st)\<lparr>sFs := fs1\<rparr>, snd st)
      | (fs1, Some err) \<Rightarrow> (say (msg err) ((fst st)\<lparr>sFs := fs1\<rparr>), 1))"

definition cannot :: "string \<Rightarrow> string \<Rightarrow> vfs_error \<Rightarrow> string" where
  "cannot what name err = line_of (what @ quoted name @ '': '' @ vfs_error_text err)"

definition cmdTouch :: "'e cmd" where
  "cmdTouch wd args sh =
     (if length args < 2 then (say (line_of ''touch: missing file operand'') sh, 1)
      else foldl (\<lambda>st a. on_fs (\<lambda>f. fs_Touch (wE wd) f (shell_abs (fst st) a)) (cannot ''touch: cannot touch '' a) st)
             (sh, 0) (drop 1 args))"

definition cmdMkdir :: "'e cmd" where
  "cmdMkdir wd args sh =
     (let parents = list_ex (\<lambda>a. a = ''-p'' \<or> a = ''--parents'') (drop 1 args);
          names = filter (\<lambda>a. \<not> (a = ''-p'' \<or> a = ''--parents'')) (drop 1 args)
      in if names = [] then (say (line_of ''mkdir: missing operand'') sh, 1)
         else foldl (\<lambda>st n. on_fs (\<lambda>f. fs_Mkdir (wE wd) f (shell_abs (fst st) n) parents)
                (cannot ''mkdir: cannot create directory '' n) st) (sh, 0) names)"

definition rm_one :: "'e world \<Rightarrow> bool \<Rightarrow> bool \<Rightarrow> 'e shell \<times> int \<Rightarrow> string \<Rightarrow> 'e shell \<times> int" where
  "rm_one wd recursive force st n =
     (let p = shell_abs (fst st) n in
      case fs_Stat (wE wd) (sFs (fst st)) p of
        Inl err \<Rightarrow> if force then st else (say (cannot ''rm: cannot remove '' n err) (fst st), 1)
      | Inr i \<Rightarrow>
          if iDir i \<and> \<not> recursive then (say (cannot ''rm: cannot remove '' n ErrIsDir) (fst st), 1)
          else on_fs (remove_total (wE wd) p recursive) (cannot ''rm: cannot remove '' n) st)"

definition cmdRm :: "'e cmd" where
  "cmdRm wd args sh =
     (let opts = filter (\<lambda>a. HasPrefix a ''-'' \<and> length a > 1) (drop 1 args);
          names = filter (\<lambda>a. \<not> (HasPrefix a ''-'' \<and> length a > 1)) (drop 1 args);
          recursive = list_ex (\<lambda>a. CHR ''r'' \<in> set (drop 1 a) \<or> CHR ''R'' \<in> set (drop 1 a)) opts;
          force = list_ex (\<lambda>a. CHR ''f'' \<in> set (drop 1 a)) opts
      in if names = [] then (say (line_of ''rm: missing operand'') sh, 1)
         else foldl (rm_one wd recursive force) (sh, 0) names)"

definition cmdRmdir :: "'e cmd" where
  "cmdRmdir wd args sh =
     foldl (\<lambda>st n. on_fs (remove_total (wE wd) (shell_abs (fst st) n) False) (cannot ''rmdir: failed to remove '' n) st)
       (sh, 0) (drop 1 args)"

definition cmdWhich :: "'e cmd" where
  "cmdWhich wd args sh =
     foldl (\<lambda>(sh, st) n.
         if lookupCommand n \<noteq> None then
           (say (line_of (if hd args = ''type'' then n @ '' is /usr/bin/'' @ n else ''/usr/bin/'' @ n)) sh, st)
         else (say (line_of (hd args @ '': no '' @ n @ '' in ('' @ shellPath @ '')'')) sh, 1)) (sh, 0) (drop 1 args)"

definition cmdKill :: "'e cmd" where
  "cmdKill wd args sh =
     (if length args < 2
      then (say (line_of ''kill: usage: kill [-s sigspec | -n signum | -sigspec] pid | jobspec ... or kill -l [sigspec]'') sh, 2)
      else (say (line_of (''bash: kill: ('' @ last args @ '') - Operation not permitted'')) sh, 1))"

definition cmdMan :: "'e cmd" where
  "cmdMan wd args sh =
     (if length args < 2
      then (say (line_of ''What manual page do you want?'' @ line_of (''For example, try '' @ quoted ''man man'' @ ''.'')) sh, 1)
      else (say (line_of (''No manual entry for '' @ args ! 1 @ ''. Type help for the commands of this demo machine.'')) sh, 16))"

definition git_commits :: "(string \<times> string \<times> int) list" where
  "git_commits =
     [(''3f9c2ab'', ''api: add /healthz endpoint'', 2 * hour),
      (''b71e04d'', ''store: retry the database connection on startup'', 26 * hour),
      (''9a0d5c3'', ''build: bump Go to 1.27'', 3 * 24 * hour),
      (''41ce8f7'', ''Initial commit'', 9 * 24 * hour)]"

definition git_entry :: "'e world \<Rightarrow> time \<Rightarrow> bool \<Rightarrow> nat \<times> string \<times> string \<times> int \<Rightarrow> string" where
  "git_entry wd tm oneline ic =
     (case ic of (i, h, msg, ago) \<Rightarrow>
        let top = (if i = 0
              then '' ('' @ CSI @ ''1;36mHEAD -> '' @ CSI @ ''1;32mmain'' @ CSI @ ''33m, '' @ CSI @ ''1;31morigin/main'' @ CSI @ ''33m)''
              else [])
        in if oneline then line_of (CSI @ ''33m'' @ h @ top @ CSI @ ''0m '' @ msg)
           else line_of (CSI @ ''33mcommit '' @ h @ ''9e1f04b2c7d3a8e6f5b0c1d2e3f4a5b6c7d8'' @ top @ CSI @ ''0m'') @
             line_of ''Author: Review Demo <review@scomp.me>'' @
             line_of (''Date:   '' @ wFormat wd (tm - ago) ''Mon Jan 2 15:04:05 2006 -0700'') @ [LF] @
             line_of (''    '' @ msg) @ [LF])"

abbreviation TAB :: char where "TAB \<equiv> CHR 0x09"

definition git_status_text :: string where
  "git_status_text =
     line_of ''On branch main'' @ line_of (''Your branch is up to date with '' @ quoted ''origin/main'' @ ''.'') @ [LF] @
     line_of ''Changes not staged for commit:'' @
     line_of (''  (use '' @ [CHR 0x22] @ ''git add <file>...'' @ [CHR 0x22] @ '' to update what will be committed)'') @
     line_of (''  (use '' @ [CHR 0x22] @ ''git restore <file>...'' @ [CHR 0x22] @ '' to discard changes in working directory)'') @
     line_of ([TAB] @ CSI @ ''31mmodified:   app/main.go'' @ CSI @ ''0m'') @ [LF] @
     line_of (''no changes added to commit (use '' @ [CHR 0x22] @ ''git add'' @ [CHR 0x22] @ '' and/or '' @ [CHR 0x22] @
       ''git commit -a'' @ [CHR 0x22] @ '')'')"

definition git_diff_text :: string where
  "git_diff_text =
     line_of (CSI @ ''1mdiff --git a/app/main.go b/app/main.go'' @ CSI @ ''0m'') @
     line_of (CSI @ ''1m--- a/app/main.go'' @ CSI @ ''0m'') @ line_of (CSI @ ''1m+++ b/app/main.go'' @ CSI @ ''0m'') @
     line_of (CSI @ ''36m@@ -9,6 +9,7 @@'' @ CSI @ ''0m func main() {'') @
     line_of ('' '' @ [TAB] @ ''http.HandleFunc('' @ [CHR 0x22] @ ''/healthz'' @ [CHR 0x22] @
       '', func(w http.ResponseWriter, r *http.Request) {'') @
     line_of (CSI @ ''31m-'' @ [TAB, TAB] @ ''fmt.Fprintln(w, '' @ [CHR 0x22] @ ''ok'' @ [CHR 0x22] @ '')'' @ CSI @ ''0m'') @
     line_of (CSI @ ''32m+'' @ [TAB, TAB] @ ''w.Header().Set('' @ [CHR 0x22] @ ''Cache-Control'' @ [CHR 0x22] @ '', '' @ [CHR 0x22] @
       ''no-store'' @ [CHR 0x22] @ '')'' @ CSI @ ''0m'') @
     line_of (CSI @ ''32m+'' @ [TAB, TAB] @ ''fmt.Fprintln(w, '' @ [CHR 0x22] @ ''ok'' @ [CHR 0x22] @ '')'' @ CSI @ ''0m'') @
     line_of ('' '' @ [TAB] @ ''})'')"

definition cmdGit :: "'e cmd" where
  "cmdGit wd args sh =
     (if cwd sh \<noteq> shellHome \<and> \<not> HasPrefix (cwd sh) (shellHome @ ''/'')
      then (say (line_of ''fatal: not a git repository (or any of the parent directories): .git'') sh, 128)
      else
        let sub = (if length args > 1 then args ! 1 else ''help'') in
        if sub = ''status'' then (say git_status_text sh, 0)
        else if sub = ''log'' then
          (foldl (\<lambda>sh ic. say (git_entry wd (Now (cfg (sFs sh)) (wE wd)) (length args > 2 \<and> args ! 2 = ''--oneline'') ic) sh)
             sh (List.enumerate 0 git_commits), 0)
        else if sub = ''diff'' then (say git_diff_text sh, 0)
        else if sub = ''branch'' then (say (line_of ''  feature/metrics'' @ line_of (''* '' @ CSI @ ''32mmain'' @ CSI @ ''0m'')) sh, 0)
        else if sub \<in> set [''push'', ''pull'', ''fetch'', ''clone'', ''remote''] then
          (say (line_of ''fatal: this demo machine has no network access'') sh, 128)
        else if sub = ''help'' \<or> sub = ''--help'' then
          (say (line_of ''usage: git status | git log [--oneline] | git diff | git branch'' @
                line_of ''(only these are available on this demo machine)'') sh, 0)
        else (say (line_of (''git: '' @ quoted sub @
               '' is not available on this demo machine. Try: git status, git log, git diff, git branch'')) sh, 1))"

text \<open>A display changes the process table and writes.\<close>

definition cmdShow :: "display \<Rightarrow> 'e cmd" where
  "cmdShow f wd args sh =
     (case f (wDisplay wd) args (sProcs sh) of
        (t, ops, st) \<Rightarrow> (sh\<lparr>sProcs := t, tout := tout sh @ ops\<rparr>, st))"

definition run_cmd :: "cmd_run \<Rightarrow> 'e cmd" where
  "run_cmd r =
     (case r of
        CCat \<Rightarrow> cmdCat | CCd \<Rightarrow> cmdCd | CClear \<Rightarrow> cmdClear | CEcho \<Rightarrow> cmdEcho | CEnv \<Rightarrow> cmdEnv | CExit \<Rightarrow> cmdExit
      | CGit \<Rightarrow> cmdGit | CGrep \<Rightarrow> cmdGrep | CHead \<Rightarrow> headTail False | CTail \<Rightarrow> headTail True | CHelp \<Rightarrow> cmdHelp
      | CHistory \<Rightarrow> cmdHistory | CHostname \<Rightarrow> cmdHostname | CID \<Rightarrow> cmdID | CLs \<Rightarrow> cmdLs | CMkdir \<Rightarrow> cmdMkdir
      | CPwd \<Rightarrow> cmdPwd | CRm \<Rightarrow> cmdRm | CTouch \<Rightarrow> cmdTouch | CUname \<Rightarrow> cmdUname | CWhoami \<Rightarrow> cmdWhoami
      | CExport \<Rightarrow> cmdExport | CUnset \<Rightarrow> cmdUnset | CRmdir \<Rightarrow> cmdRmdir
      | CTrue \<Rightarrow> (\<lambda>wd args sh. (sh, 0)) | CFalse \<Rightarrow> (\<lambda>wd args sh. (sh, 1)) | CWhich \<Rightarrow> cmdWhich | CMan \<Rightarrow> cmdMan
      | CSudo \<Rightarrow> (\<lambda>wd args sh. (say (line_of ''review is not in the sudoers file.'') sh, 1))
      | CSu \<Rightarrow> (\<lambda>wd args sh. (say (line_of ''su: Authentication failure'') sh, 1))
      | CKill \<Rightarrow> cmdKill
      | CNotAvailable msg \<Rightarrow> (\<lambda>wd args sh. (say (line_of (hd args @ '': '' @ msg)) sh, 127))
      | CBuild \<Rightarrow> cmdShow cmdBuild | CDate \<Rightarrow> cmdShow cmdDate | CDf \<Rightarrow> cmdShow cmdDf | CFree \<Rightarrow> cmdShow cmdFree
      | CPs \<Rightarrow> cmdShow cmdPs | CSleep \<Rightarrow> cmdShow cmdSleep | CTop \<Rightarrow> cmdShow cmdTop | CUptime \<Rightarrow> cmdShow cmdUptime
      | CSystemctl \<Rightarrow> cmdShow cmdSystemctl)"

section \<open>Running a line\<close>

definition runPath :: "'e world \<Rightarrow> string \<Rightarrow> 'e shell \<Rightarrow> 'e shell \<times> int" where
  "runPath wd name sh =
     (case fs_Stat (wE wd) (sFs sh) (shell_abs sh name) of
        Inl _ \<Rightarrow> (say (line_of (''bash: '' @ name @ '': No such file or directory'')) sh, 127)
      | Inr st \<Rightarrow>
          if iDir st then (say (line_of (''bash: '' @ name @ '': Is a directory'')) sh, 126)
          else if iMode st mod 2 = 0 \<and> iMode st div 8 mod 2 = 0 \<and> iMode st div 64 mod 2 = 0
          then (say (line_of (''bash: '' @ name @ '': Permission denied'')) sh, 126)
          else (say (line_of (name @ '': scripts are shown, not run, on this demo machine. Try: cat '' @ name)) sh, 126))"

definition set_status :: "'e shell \<times> int \<Rightarrow> 'e shell" where
  "set_status r = (fst r)\<lparr>status := snd r\<rparr>"

definition shell_args :: "'e \<Rightarrow> 'e shell \<Rightarrow> shell_word list \<Rightarrow> string list" where
  "shell_args e sh ws = concat (map (\<lambda>w. if wGlob w then shell_glob e sh (wText w) else [wText w]) ws)"

definition assign :: "env \<Rightarrow> string \<Rightarrow> env" where
  "assign en a = (case cut (CHR ''='') a of Some (k, v) \<Rightarrow> AList.update k v en | None \<Rightarrow> AList.update a [] en)"

definition run_args :: "'e world \<Rightarrow> string list \<Rightarrow> 'e shell \<Rightarrow> 'e shell" where
  "run_args wd args sh =
     (if args = [] then sh
      else if assignments args then sh\<lparr>env := foldl assign (env sh) args, status := 0\<rparr>
      else if Contains (hd args) ''/'' then set_status (runPath wd (hd args) sh)
      else case lookupCommand (hd args) of
          None \<Rightarrow>
            set_status (say (line_of (''bash: '' @ hd args @ '': command not found (type help for the commands of this demo machine)'')) sh, 127)
        | Some c \<Rightarrow> set_status (run_cmd (cRun c) wd args sh))"

definition shell_run :: "'e world \<Rightarrow> string \<Rightarrow> 'e shell \<Rightarrow> 'e shell" where
  "shell_run wd l sh =
     (case shell_split (env sh) (status sh) l of
        Inl errUnsupported \<Rightarrow>
          set_status (say (line_of ''bash: pipes, redirection, command chaining and substitution are not supported'' @
            line_of ''on this demo machine. Run one command at a time; type help for the list.'') sh, 2)
      | Inl errUnterminated \<Rightarrow> set_status (say (line_of ''bash: syntax error: unterminated quoted string'') sh, 2)
      | Inr ws \<Rightarrow> run_args wd (shell_args (wE wd) sh ws) sh)"

end
