(* ===== verification/Shell_Session.thy ===== *)
theory Shell_Session
  imports Shell_Commands
begin

text \<open>
  The main loop of the simulated shell (\<^verbatim>\<open>runShell\<close> of \<^verbatim>\<open>src/fakeshell/shell.go\<close>) and what a session promises:
  its file tree, directory and history stay sound whatever is typed, and nothing of one visitor is left for
  the next.
\<close>

section \<open>The loop\<close>

definition at_line_start :: "'e shell \<Rightarrow> bool" where
  "at_line_start sh = atLineStart (fst (tty_run tty_init (tout sh)))"

definition editor_of :: "'e world \<Rightarrow> 'e shell \<Rightarrow> editor_config" where
  "editor_of wd sh =
     \<lparr>edClear = True, MaxLen = 0, Complete = Some (complete (wE wd) visibleCommandNames sh)\<rparr>"

text \<open>
  One pass: a line is read from the events that arrive, and dealt with; \<open>None\<close> in the result of reading means
  the shell still waits.
\<close>

definition after_read :: "'e world \<Rightarrow> (read_error + string) option \<Rightarrow> 'e shell \<Rightarrow> 'e shell" where
  "after_read wd r sh =
     (case r of
        None \<Rightarrow> sh
      | Some (Inr l) \<Rightarrow> shell_run wd l (sh\<lparr>dirty := True\<rparr>)
      | Some (Inl ErrInterrupt) \<Rightarrow> sh\<lparr>dirty := True, status := 130\<rparr>
      | Some (Inl ErrIdle) \<Rightarrow>
          if dirty sh then shell_login visibleCommandNames (wWidth wd) (shell_reset sh) else sh
      | Some (Inl EOF) \<Rightarrow> logout wd sh
      | Some (Inl CtxDone) \<Rightarrow> sh)"

definition shell_turn :: "'e shell \<Rightarrow> 'e world \<times> read_event list \<Rightarrow> 'e shell" where
  "shell_turn sh turn =
     (case turn of (wd, evs) \<Rightarrow>
        let sh1 = (if at_line_start sh then sh else say [LF] sh);
            (ed, s, r) = ReadLine (editor_of wd sh1) (Some (wWidth wd)) (prompt sh1) ((sEd sh1)\<lparr>out := []\<rparr>) evs;
            sh2 = sh1\<lparr>sEd := ed, tout := tout sh1 @ map out_op (out ed)\<rparr>
        in after_read wd r sh2)"

definition runShell ::
    "'e world \<Rightarrow> string \<Rightarrow> 'e vfs_config \<Rightarrow> time \<Rightarrow> rng \<Rightarrow> ('e world \<times> read_event list) list \<Rightarrow> 'e shell" where
  "runShell wd host c tm r turns =
     foldl shell_turn (shell_login visibleCommandNames (wWidth wd) (newShell host c tm r)) turns"

section \<open>What commands keep\<close>

definition shell_inv :: "string \<Rightarrow> 'e vfs_config \<Rightarrow> 'e shell \<Rightarrow> bool" where
  "shell_inv host c sh \<longleftrightarrow>
     sHost sh = host \<and> vfs_inv (sFs sh) \<and> cfg (sFs sh) = cfg (fs_New c) \<and> clean_abs (cwd sh) \<and>
     history_ok DefaultMaxLen (history (sEd sh)) \<and> table_inv (sProcs sh)"

text \<open>A command keeps the invariant and does not touch the mark that the session was used.\<close>

definition keeps :: "string \<Rightarrow> 'e vfs_config \<Rightarrow> 'e shell \<Rightarrow> 'e shell \<Rightarrow> bool" where
  "keeps host c sh sh' \<longleftrightarrow> shell_inv host c sh' \<and> dirty sh' = dirty sh"

lemma keeps_refl: "shell_inv host c sh \<Longrightarrow> keeps host c sh sh"
  by (simp add: keeps_def)

lemma keeps_trans: "keeps host c sh sh1 \<Longrightarrow> keeps host c sh1 sh2 \<Longrightarrow> keeps host c sh sh2"
  by (simp add: keeps_def)

lemma keeps_inv: "keeps host c sh sh' \<Longrightarrow> shell_inv host c sh'"
  by (simp add: keeps_def)

lemma keeps_say [simp]: "keeps host c sh (say s sh') = keeps host c sh sh'"
  by (simp add: keeps_def shell_inv_def say_def)

lemma keeps_clear [simp]: "keeps host c sh (say_clear sh') = keeps host c sh sh'"
  by (simp add: keeps_def shell_inv_def say_clear_def)

lemma keeps_env [simp]: "keeps host c sh (sh'\<lparr>env := en\<rparr>) = keeps host c sh sh'"
  by (simp add: keeps_def shell_inv_def)

lemma keeps_status [simp]: "keeps host c sh (sh'\<lparr>status := st\<rparr>) = keeps host c sh sh'"
  by (simp add: keeps_def shell_inv_def)

lemma keeps_tout [simp]: "keeps host c sh (sh'\<lparr>tout := t\<rparr>) = keeps host c sh sh'"
  by (simp add: keeps_def shell_inv_def)

text \<open>Loops whose body keeps.\<close>

lemma keeps_foldl:
  assumes "\<And>sh' x. keeps host c sh sh' \<Longrightarrow> x \<in> set xs \<Longrightarrow> keeps host c sh (f sh' x)" "keeps host c sh sh'"
  shows "keeps host c sh (foldl f sh' xs)"
  using assms by (induction xs arbitrary: sh') auto

lemma keeps_foldl_fst:
  assumes "\<And>st x. keeps host c sh (fst st) \<Longrightarrow> x \<in> set xs \<Longrightarrow> keeps host c sh (fst (f st x))" "keeps host c sh (fst st)"
  shows "keeps host c sh (fst (foldl f st xs))"
  using assms by (induction xs arbitrary: st) auto

lemma keeps_fs:
  "keeps host c sh sh' \<Longrightarrow> vfs_inv f \<Longrightarrow> cfg f = cfg (sFs sh') \<Longrightarrow> keeps host c sh (sh'\<lparr>sFs := f\<rparr>)"
  by (simp add: keeps_def shell_inv_def)

lemma keeps_on_fs:
  assumes "keeps host c sh (fst st)" "vfs_inv (fst (f (sFs (fst st))))" "cfg (fst (f (sFs (fst st)))) = cfg (sFs (fst st))"
  shows "keeps host c sh (fst (on_fs f msg st))"
  using keeps_fs [OF assms] by (auto simp: on_fs_def split: prod.splits option.split)

lemma keeps_lsPrint: "keeps host c sh sh' \<Longrightarrow> keeps host c sh (lsPrint wd infos long sh')"
  unfolding lsPrint_def by (auto intro: keeps_foldl)

lemma keeps_ls_stat: "keeps host c sh sh' \<Longrightarrow> keeps host c sh (fst (ls_stat wd ps sh'))"
  by (induction ps arbitrary: sh') (auto split: sum.split simp: Let_def case_prod_beta)

lemma keeps_ls_dirs: "keeps host c sh sh' \<Longrightarrow> keeps host c sh (fst (ls_dirs wd fl n printed st ds sh'))"
proof (induction ds arbitrary: sh' printed st)
  case (Cons d ds)
  then show ?case by (auto split: sum.split simp: Let_def intro!: Cons.IH keeps_lsPrint)
qed simp

lemma keeps_read_each: "keeps host c sh sh' \<Longrightarrow> keeps host c sh (fst (read_each wd prog each ns sh'))"
proof (induction ns arbitrary: sh')
  case (Cons n ns)
  have "keeps host c sh (foldl (\<lambda>sh t. say t sh) sh' ts)" for ts
    by (rule keeps_foldl) (use Cons.prems in simp_all)
  note IH = Cons.IH [OF this] Cons.IH [of "say t sh'" for t]
  show ?case using Cons.prems IH by (simp add: Let_def case_prod_beta split: sum.split)
qed simp

lemma keeps_readFiles: "keeps host c sh sh' \<Longrightarrow> keeps host c sh (fst (readFiles wd prog names each sh'))"
  by (simp add: readFiles_def keeps_read_each)

section \<open>Every command keeps\<close>

lemma keeps_print:
  assumes "shell_inv host c sh"
  shows "keeps host c sh (fst (cmdHelp wd args sh))" "keeps host c sh (fst (cmdPwd wd args sh))"
    "keeps host c sh (fst (cmdEcho wd args sh))" "keeps host c sh (fst (cmdWhoami wd args sh))"
    "keeps host c sh (fst (cmdID wd args sh))" "keeps host c sh (fst (cmdHostname wd args sh))"
    "keeps host c sh (fst (cmdUname wd args sh))" "keeps host c sh (fst (cmdEnv wd args sh))"
    "keeps host c sh (fst (cmdClear wd args sh))" "keeps host c sh (fst (cmdKill wd args sh))"
    "keeps host c sh (fst (cmdMan wd args sh))"
    "keeps host c sh (fst (cmdWhich wd args sh))" "keeps host c sh (fst (runPath wd name sh))"
  using keeps_refl [OF assms]
  by (auto simp: cmdHelp_def cmdPwd_def cmdEcho_def cmdWhoami_def cmdID_def cmdHostname_def cmdUname_def
      cmdEnv_def cmdClear_def cmdKill_def cmdMan_def cmdWhich_def runPath_def Let_def
      split: sum.split option.split prod.split intro!: keeps_foldl keeps_foldl_fst)

lemma keeps_show:
  assumes "shell_inv host c sh" "table_inv (fst (f (wDisplay wd) args (sProcs sh)))"
  shows "keeps host c sh (fst (cmdShow f wd args sh))"
  using assms by (auto simp: cmdShow_def keeps_def shell_inv_def split: prod.split)

lemma keeps_displays:
  assumes "shell_inv host c sh"
  shows "keeps host c sh (fst (cmdShow cmdBuild wd args sh))" "keeps host c sh (fst (cmdShow cmdDate wd args sh))"
    "keeps host c sh (fst (cmdShow cmdDf wd args sh))" "keeps host c sh (fst (cmdShow cmdFree wd args sh))"
    "keeps host c sh (fst (cmdShow cmdPs wd args sh))" "keeps host c sh (fst (cmdShow cmdSleep wd args sh))"
    "keeps host c sh (fst (cmdShow cmdTop wd args sh))" "keeps host c sh (fst (cmdShow cmdUptime wd args sh))"
    "keeps host c sh (fst (cmdShow cmdSystemctl wd args sh))"
proof -
  have "table_inv (sProcs sh)" using assms by (simp add: shell_inv_def)
  note k = display_keeps [OF this]
  show "keeps host c sh (fst (cmdShow cmdBuild wd args sh))" "keeps host c sh (fst (cmdShow cmdDate wd args sh))"
    "keeps host c sh (fst (cmdShow cmdDf wd args sh))" "keeps host c sh (fst (cmdShow cmdFree wd args sh))"
    "keeps host c sh (fst (cmdShow cmdPs wd args sh))" "keeps host c sh (fst (cmdShow cmdSleep wd args sh))"
    "keeps host c sh (fst (cmdShow cmdTop wd args sh))" "keeps host c sh (fst (cmdShow cmdUptime wd args sh))"
    "keeps host c sh (fst (cmdShow cmdSystemctl wd args sh))"
    by (rule keeps_show [OF assms], rule k)+
qed

lemma keeps_git: "shell_inv host c sh \<Longrightarrow> keeps host c sh (fst (cmdGit wd args sh))"
  using keeps_refl [of host c sh] by (auto simp: cmdGit_def Let_def intro!: keeps_foldl)

lemma keeps_files:
  assumes "shell_inv host c sh"
  shows "keeps host c sh (fst (cmdCat wd args sh))" "keeps host c sh (fst (headTail tail wd args sh))"
    "keeps host c sh (fst (cmdGrep wd args sh))" "keeps host c sh (fst (cmdLs wd args sh))"
proof -
  note k = keeps_refl [OF assms]
  show "keeps host c sh (fst (cmdCat wd args sh))"
    using keeps_readFiles [OF k] by (simp add: cmdCat_def Let_def case_prod_beta)
  show "keeps host c sh (fst (headTail tail wd args sh))"
    using keeps_readFiles [OF k] k by (auto simp: headTail_def Let_def case_prod_beta split: sum.split)
  show "keeps host c sh (fst (cmdGrep wd args sh))"
    using keeps_readFiles [OF k] k
    by (auto simp: cmdGrep_def Let_def case_prod_beta split: option.split list.split)
  show "keeps host c sh (fst (cmdLs wd args sh))"
    using k
    by (auto simp: cmdLs_def Let_def case_prod_beta split: sum.split
        intro!: keeps_ls_dirs keeps_lsPrint keeps_ls_stat)
qed

lemma keeps_sets:
  assumes "shell_inv host c sh"
  shows "keeps host c sh (fst (cmdExport wd args sh))" "keeps host c sh (fst (cmdUnset wd args sh))"
    "keeps host c sh (fst (cmdHistory wd args sh))"
proof -
  note k = keeps_refl [OF assms]
  show "keeps host c sh (fst (cmdExport wd args sh))" "keeps host c sh (fst (cmdUnset wd args sh))"
    using k by (auto simp: cmdExport_def cmdUnset_def split: option.split intro!: keeps_foldl)
  have "keeps host c sh (sh\<lparr>sEd := ResetHistory (sEd sh)\<rparr>)"
    using k by (simp add: keeps_def shell_inv_def ResetHistory_def history_ok_def maxHistory_def)
  with k show "keeps host c sh (fst (cmdHistory wd args sh))"
    by (auto simp: cmdHistory_def intro!: keeps_foldl)
qed

lemma keeps_cd:
  assumes "shell_inv host c sh"
  shows "keeps host c sh (fst (cmdCd wd args sh))"
proof -
  have move: "keeps host c sh (sh'\<lparr>oldpwd := o', cwd := p, env := en\<rparr>)"
    if "keeps host c sh sh'" "fs_Stat e (sFs sh') p = Inr st" "p = shell_abs sh' target" for sh' e p st target o' en
  proof -
    have "p \<noteq> []" using that(2) by (auto simp: fs_Stat_def)
    then have "clean_abs p" using Resolve_cases [of "cwd sh'" target] that(3) by (simp add: shell_abs_def)
    with that(1) show ?thesis by (simp add: keeps_def shell_inv_def)
  qed
  show ?thesis
    using keeps_refl [OF assms] move
    by (auto simp: cmdCd_def Let_def split: sum.split if_splits)
qed

lemma inv_conf:
  assumes "conf (fs_New c)" "shell_inv host c sh"
  shows "conf (sFs sh)"
  using same_conf [of "sFs sh" "fs_New c"] assms by (simp add: shell_inv_def)

lemma keeps_writes:
  assumes conf: "conf (fs_New c)" and inv: "shell_inv host c sh"
  shows "keeps host c sh (fst (cmdTouch wd args sh))" "keeps host c sh (fst (cmdMkdir wd args sh))"
    "keeps host c sh (fst (cmdRm wd args sh))" "keeps host c sh (fst (cmdRmdir wd args sh))"
proof -
  note k = keeps_refl [OF inv]
  have fs: "vfs_inv (sFs sh') \<and> conf (sFs sh')" if "keeps host c sh sh'" for sh'
    using keeps_inv [OF that] inv_conf [OF conf] by (auto simp: shell_inv_def)
  note tree = vfs.touch_ok [OF fs] vfs.mkdir_ok [OF fs] vfs.remove_ok [OF fs]
  show "keeps host c sh (fst (cmdTouch wd args sh))"
    using k by (auto simp: cmdTouch_def shell_abs_def tree intro!: keeps_foldl_fst keeps_on_fs)
  show "keeps host c sh (fst (cmdMkdir wd args sh))"
    using k by (auto simp: cmdMkdir_def Let_def shell_abs_def tree intro!: keeps_foldl_fst keeps_on_fs)
  have rm: "keeps host c sh (fst (on_fs (remove_total e (shell_abs (fst st) n) rec) msg st))"
    if "keeps host c sh (fst st)" for st e n rec msg
    using that by (auto simp: shell_abs_def tree intro!: keeps_on_fs)
  show "keeps host c sh (fst (cmdRmdir wd args sh))"
    using k rm by (auto simp: cmdRmdir_def intro!: keeps_foldl_fst)
  show "keeps host c sh (fst (cmdRm wd args sh))"
    using k rm by (auto simp: cmdRm_def rm_one_def Let_def split: sum.split intro!: keeps_foldl_fst)
qed

section \<open>Fresh sessions\<close>

text \<open>What a visitor can see of the shell's state.\<close>

definition visible :: "'e shell \<Rightarrow> 'e fs \<times> string \<times> string \<times> env \<times> int \<times> string list" where
  "visible sh = (sFs sh, cwd sh, oldpwd sh, env sh, status sh, history (sEd sh))"

definition fresh_view :: "string \<Rightarrow> 'e vfs_config \<Rightarrow> 'e fs \<times> string \<times> string \<times> env \<times> int \<times> string list" where
  "fresh_view host c = (fs_New c, shellHome, [], default_env host, 0, [])"

definition fresh :: "string \<Rightarrow> 'e vfs_config \<Rightarrow> 'e shell \<Rightarrow> bool" where
  "fresh host c sh \<longleftrightarrow> visible sh = fresh_view host c \<and> \<not> dirty sh"

lemma fs_Reset_New: "cfg f = cfg (fs_New c) \<Longrightarrow> fs_Reset f = fs_New c"
  by (cases f) (auto simp: fs_Reset_def fs_New_def Let_def)

lemma history_ok_Nil [simp]: "history_ok n []"
  by (simp add: history_ok_def)

lemma home_clean: "clean_abs shellHome"
proof -
  have "list_all good_comp [''home'', ''review'']" "shellHome = abs_path [''home'', ''review'']"
    by (simp_all add: good_comp_def shellHome_def abs_path_def Join_def)
  then show ?thesis unfolding clean_abs_iff by blast
qed

lemma reset_fresh:
  assumes "shell_inv host c sh"
  shows "shell_inv host c (shell_reset sh)" "fresh host c (shell_reset sh)"
proof -
  have fs: "fs_Reset (sFs sh) = fs_New c" "fs_Reset (fs_New c) = fs_New c" and h: "sHost sh = host"
    using assms fs_Reset_New by (auto simp: shell_inv_def)
  show "shell_inv host c (shell_reset sh)"
    using assms by (simp add: shell_inv_def shell_reset_def ResetHistory_def fs h home_clean vfs_inv_New)
  show "fresh host c (shell_reset sh)"
    by (simp add: fresh_def visible_def fresh_view_def shell_reset_def ResetHistory_def fs h)
qed

lemma fresh_say [simp]: "fresh host c (say s sh) = fresh host c sh" "fresh host c (say_clear sh) = fresh host c sh"
  by (simp_all add: fresh_def visible_def say_def say_clear_def)

lemma inv_say [simp]:
  "shell_inv host c (say s sh) = shell_inv host c sh" "shell_inv host c (say_clear sh) = shell_inv host c sh"
  by (simp_all add: shell_inv_def say_def say_clear_def)

lemma login_keeps [simp]:
  "fresh host c (shell_login names w sh) = fresh host c sh" "shell_inv host c (shell_login names w sh) = shell_inv host c sh"
  by (simp_all add: shell_login_def)

lemma logout_fresh:
  assumes "shell_inv host c sh"
  shows "shell_inv host c (logout wd sh)" "fresh host c (logout wd sh)"
  using reset_fresh [of host c "say (line_of ''logout'') sh"] assms
  by (simp_all add: logout_def nap_echo_def Let_def)

text \<open>A state between two lines: sound, and fresh unless it was used.\<close>

definition ready :: "string \<Rightarrow> 'e vfs_config \<Rightarrow> 'e shell \<Rightarrow> bool" where
  "ready host c sh \<longleftrightarrow> shell_inv host c sh \<and> (dirty sh \<or> fresh host c sh)"

lemma keeps_ready: "keeps host c sh sh' \<Longrightarrow> dirty sh \<Longrightarrow> ready host c sh'"
  by (simp add: keeps_def ready_def)

lemma run_cmd_ready:
  assumes "conf (fs_New c)" "shell_inv host c sh" "dirty sh"
  shows "ready host c (set_status (run_cmd r wd args sh))"
proof (cases "r = CExit")
  case True
  have "status (logout wd sh) = 0" using logout_fresh(2) [OF assms(2), of wd]
    by (simp add: fresh_def visible_def fresh_view_def)
  then have "set_status (run_cmd r wd args sh) = logout wd sh"
    using True by (simp add: run_cmd_def set_status_def cmdExit_def)
  with logout_fresh [OF assms(2), of wd] show ?thesis by (simp add: ready_def)
next
  case False
  have "keeps host c sh (fst (run_cmd r wd args sh))"
    using False keeps_print [OF assms(2)] keeps_displays [OF assms(2)] keeps_git [OF assms(2)] keeps_files [OF assms(2)] keeps_sets [OF assms(2)]
      keeps_cd [OF assms(2)] keeps_writes [OF assms(1,2)] keeps_refl [OF assms(2)]
    by (cases r) (simp_all add: run_cmd_def)
  then have "keeps host c sh (set_status (run_cmd r wd args sh))" by (simp add: set_status_def)
  with assms(3) show ?thesis by (simp add: keeps_ready)
qed

lemma shell_run_ready:
  assumes "conf (fs_New c)" "shell_inv host c sh" "dirty sh"
  shows "ready host c (shell_run wd l sh)"
proof -
  note k = keeps_refl [OF assms(2)]
  have args: "ready host c (run_args wd as sh)" for as
  proof (cases "lookupCommand (hd as)")
    case None
    then show ?thesis
      using k keeps_print(13) [OF assms(2), of wd "hd as"] assms(3)
      by (auto simp: run_args_def set_status_def intro: keeps_ready)
  next
    case (Some cm)
    then show ?thesis
      using k keeps_print(13) [OF assms(2), of wd "hd as"] assms(3) run_cmd_ready [OF assms]
      by (auto simp: run_args_def set_status_def intro: keeps_ready)
  qed
  have "ready host c (set_status (say t sh, 2))" for t
    using k assms(3) by (auto simp: set_status_def intro: keeps_ready)
  then show ?thesis using args by (auto simp: shell_run_def split: sum.split split_error.split)
qed

section \<open>Turns\<close>

lemma read_key_history:
  assumes "read_key c wd pr e s k = (e1, r)"
  shows "k \<noteq> KeyEnter \<Longrightarrow> history e1 = history e" "k = KeyEnter \<Longrightarrow> \<exists>t. r = Finished (Inr t)"
proof -
  assume k: "k \<noteq> KeyEnter"
  show "history e1 = history e"
  proof (cases "k = KeyTab")
    case True
    then show ?thesis using assms k
      by (auto simp: read_key_def key_defs Let_def split: option.splits prod.splits if_splits)
  next
    case False
    then show ?thesis using assms k by (auto simp: read_key_def Let_def split: if_splits)
  qed
next
  assume "k = KeyEnter"
  then show "\<exists>t. r = Finished (Inr t)" using assms by (auto simp: read_key_def Let_def)
qed

lemma read_loop_history:
  "read_loop c pr e s evs = (e', s', r) \<Longrightarrow> (\<And>t. r \<noteq> Some (Inr t)) \<Longrightarrow> history e' = history e"
proof (induction c pr e s evs rule: read_loop.induct)
  case (5 c pr e s wd k evs)
  obtain e1 kr where k: "read_key c wd pr e s k = (e1, kr)" by fastforce
  have "k \<noteq> KeyEnter"
  proof
    assume "k = KeyEnter"
    then obtain t where "kr = Finished (Inr t)" using read_key_history(2) [OF k] by blast
    with 5(3) k have "r = Some (Inr t)" by simp
    with 5(4) [of t] show False by simp
  qed
  then have h: "history e1 = history e" using read_key_history(1) [OF k] by simp
  show ?case using 5 k h by (cases kr) auto
qed auto

definition turn_result :: "'e shell \<Rightarrow> 'e world \<times> read_event list \<Rightarrow> (read_error + string) option" where
  "turn_result sh turn =
     (case turn of (wd, evs) \<Rightarrow>
        let sh1 = (if at_line_start sh then sh else say [LF] sh)
        in snd (snd (ReadLine (editor_of wd sh1) (Some (wWidth wd)) (prompt sh1) ((sEd sh1)\<lparr>out := []\<rparr>) evs)))"

lemma shell_turn_ready:
  assumes "conf (fs_New c)" "ready host c sh"
  shows "ready host c (shell_turn sh (wd, evs))"
    "turn_result sh (wd, evs) \<in> {Some (Inl ErrIdle), Some (Inl EOF)} \<Longrightarrow> fresh host c (shell_turn sh (wd, evs))"
proof -
  let ?sh1 = "if at_line_start sh then sh else say [LF] sh"
  have r1: "ready host c ?sh1" using assms(2) by (simp add: ready_def say_def shell_inv_def fresh_def visible_def)
  obtain ed s r where read: "ReadLine (editor_of wd ?sh1) (Some (wWidth wd)) (prompt ?sh1) ((sEd ?sh1)\<lparr>out := []\<rparr>) evs = (ed, s, r)"
    by (cases "ReadLine (editor_of wd ?sh1) (Some (wWidth wd)) (prompt ?sh1) ((sEd ?sh1)\<lparr>out := []\<rparr>) evs")
  let ?sh2 = "?sh1\<lparr>sEd := ed, tout := tout ?sh1 @ map out_op (out ed)\<rparr>"
  have turn: "shell_turn sh (wd, evs) = after_read wd r ?sh2" "turn_result sh (wd, evs) = r"
    using read by (simp_all add: shell_turn_def turn_result_def Let_def del: if_split)
  have len: "max_len (editor_of wd ?sh1) = DefaultMaxLen" by (simp add: max_len_def editor_of_def)
  have ok: "history_ok DefaultMaxLen (history ed)"
    using ReadLine_ok [OF _ read] r1 len by (simp add: ready_def shell_inv_def)
  have inv: "shell_inv host c ?sh2" using r1 ok by (simp add: ready_def shell_inv_def)
  have same: "history ed = history (sEd ?sh1)" if "\<And>t. r \<noteq> Some (Inr t)"
    using read_loop_history [OF _ that] read by (simp add: ReadLine_def Let_def)
  have rdy: "ready host c ?sh2" if "\<And>t. r \<noteq> Some (Inr t)"
    using r1 inv same [OF that] by (simp add: ready_def fresh_def visible_def)
  have run: "ready host c (shell_run wd l (?sh2\<lparr>dirty := True\<rparr>))" for l
    by (rule shell_run_ready [OF assms(1)]) (use inv in \<open>simp_all add: shell_inv_def\<close>)
  have idle: "fresh host c (after_read wd r ?sh2) \<and> shell_inv host c (after_read wd r ?sh2)"
    if "r = Some (Inl ErrIdle) \<or> r = Some (Inl EOF)"
    using that rdy logout_fresh [OF inv, of wd] reset_fresh [OF inv] by (auto simp: after_read_def ready_def)
  show "fresh host c (shell_turn sh (wd, evs))" if "turn_result sh (wd, evs) \<in> {Some (Inl ErrIdle), Some (Inl EOF)}"
    using idle turn that by auto
  show "ready host c (shell_turn sh (wd, evs))"
  proof (cases r)
    case None
    with rdy turn show ?thesis by (simp add: after_read_def)
  next
    case (Some x)
    show ?thesis
    proof (cases x)
      case (Inr l)
      with Some run turn show ?thesis by (simp add: after_read_def)
    next
      case (Inl err)
      have "ready host c (?sh2\<lparr>dirty := True, status := 130\<rparr>)" using inv by (simp add: ready_def shell_inv_def)
      with Some Inl rdy idle turn show ?thesis by (cases err) (auto simp: after_read_def ready_def)
    qed
  qed
qed

lemma newShell_ready:
  assumes "rng_ok r"
  shows "ready host c (newShell host c tm r)" "visible (newShell host c tm r) = fresh_view host c"
  using newProcTable_inv(1) [OF assms, of tm]
  by (simp_all add: ready_def fresh_def newShell_def shell_reset_def shell_inv_def home_clean ResetHistory_def
      fs_Reset_New vfs_inv_New visible_def fresh_view_def editor_New_def)

text \<open>The loop is an invariant machine: every turn leads from ready states to ready states.\<close>

interpretation shell_loop: invariant_machine shell_turn "\<lambda>sh. conf (fs_New c) \<longrightarrow> ready host c sh" for host c
proof
  fix sh turn
  assume "conf (fs_New c) \<longrightarrow> ready host c sh"
  then show "conf (fs_New c) \<longrightarrow> ready host c (shell_turn sh turn)"
    using shell_turn_ready(1) by (cases turn) blast
qed

lemma runShell_ready:
  assumes "conf (fs_New c)" "rng_ok r"
  shows "ready host c (runShell wd host c tm r turns)"
proof -
  have "ready host c (shell_login visibleCommandNames (wWidth wd) (newShell host c tm r))"
    using newShell_ready(1) [OF assms(2), of host c tm]
    by (simp add: ready_def shell_login_def say_def say_clear_def fresh_def visible_def shell_inv_def)
  then show ?thesis using shell_loop.run_inv [of c host _ turns] assms(1) unfolding runShell_def by blast
qed

text \<open>
  Nothing of one visitor is left for the next.  After any session, whatever was typed, pasted, completed,
  created, exported and displayed, an idle timeout or a logout leaves exactly the state of a fresh shell: file tree,
  directories, variables, status and history; and until then the file tree keeps its quota and confinement,
  the working directory is a clean absolute path and the process table is sound.
\<close>

theorem shell_sessions_isolated:
  assumes "conf (fs_New c)" "rng_ok r"
  shows "(turn_result (runShell wd host c tm r turns) turn \<in> {Some (Inl ErrIdle), Some (Inl EOF)} \<longrightarrow>
      visible (shell_turn (runShell wd host c tm r turns) turn) = visible (newShell host c tm r))
    \<and> vfs_inv (sFs (runShell wd host c tm r turns)) \<and> clean_abs (cwd (runShell wd host c tm r turns))
    \<and> length (history (sEd (runShell wd host c tm r turns))) \<le> 200 \<and> table_inv (sProcs (runShell wd host c tm r turns))"
  using runShell_ready [OF assms, of host wd tm turns]
    shell_turn_ready(2) [OF assms(1) runShell_ready [OF assms]] newShell_ready(2) [OF assms(2), of host c tm]
  by (cases turn) (auto simp: ready_def fresh_def shell_inv_def history_ok_def maxHistory_def)

definition demo_display :: display_world where
  "demo_display =
     \<lparr>dClock = (\<lambda>_. 0), dCal = (\<lambda>_. demo_clock), dUtc = (\<lambda>_. demo_clock), dSize = (\<lambda>_. (80, 24)),
      dNap = (\<lambda>_. NapDone), dWaits = [], dFloat = (\<lambda>_. None)\<rparr>"

definition demo_world :: "unit world" where
  "demo_world =
     \<lparr>wE = (), wWidth = 80, wNap = NapDone, wFormat = (\<lambda>_ _. []), wLower = (\<lambda>s. s), wDisplay = demo_display\<rparr>"

definition demo_session :: "unit shell" where
  "demo_session =
     runShell demo_world ''h'' demo_config 0 demo_rng [(demo_world, [EKey None 0x61, EKey None KeyEnter])]"

theorem shell_sessions_isolated_witness:
  "visible (shell_turn demo_session (demo_world, [EIdle])) = visible (newShell ''h'' demo_config 0 demo_rng)"
proof -
  have r: "rng_ok demo_rng" by (simp add: rng_ok_def demo_rng_def)
  have "turn_result demo_session (demo_world, [EIdle]) = Some (Inl ErrIdle)"
    by (simp add: turn_result_def ReadLine_def Let_def)
  then show ?thesis
    using shell_sessions_isolated [OF demo_conf r, of demo_world "''h''" 0
        "[(demo_world, [EKey None 0x61, EKey None KeyEnter])]" "(demo_world, [EIdle])"]
    unfolding demo_session_def by blast
qed

end
