(* ===== verification/Shell_Image.thy ===== *)
theory Shell_Image
  imports Shell_Session
begin

text \<open>
  The machine that is shipped: the file tree \<^verbatim>\<open>newShell\<close> of \<^verbatim>\<open>src/fakeshell/shell.go\<close> puts together from the embedded
  directory \<^verbatim>\<open>src/fakeshell/honeyfs\<close>, the static files and the generated ones, and the shell that runs on it.

  Directory and file names of the embedded tree are those of the repository; the text of a file is \<open>contents\<close>.  What
  a generated file prints depends on the clock and on the shell's own process table, so each turn of the shell looks
  at the table as it stands.
\<close>

section \<open>The embedded tree\<close>

definition honeyfs_dirs :: "string list" where
  "honeyfs_dirs =
     [''.'', ''etc'', ''home'', ''home/review'', ''home/review/app'', ''proc'', ''root'', ''var'', ''var/log'', ''var/log/nginx'']"

definition honeyfs_files :: "string list" where
  "honeyfs_files =
     [''etc/os-release'', ''etc/passwd'', ''etc/resolv.conf'', ''etc/shadow'', ''etc/shells'', ''home/review/.bash_profile'',
      ''home/review/.bashrc'', ''home/review/README.md'', ''home/review/app/Makefile'', ''home/review/build.log'',
      ''home/review/deploy.sh'', ''home/review/notes.txt'', ''proc/cpuinfo'', ''root/.bash_history'',
      ''var/log/nginx/access.log'']"

definition honeyfs_names :: "string \<Rightarrow> string list" where
  "honeyfs_names p =
     sort (map path_Base (filter (\<lambda>q. q \<noteq> ''.'' \<and> path_Dir q = p) (honeyfs_dirs @ honeyfs_files)))"

definition honeyfs :: "(string \<Rightarrow> bytes) \<Rightarrow> base_fs" where
  "honeyfs contents =
     \<lparr>base_stat = (\<lambda>p. if p \<in> set honeyfs_dirs then Some (True, 0)
        else if p \<in> set honeyfs_files then Some (False, int (length (contents p))) else None),
      base_readdir = (\<lambda>p. if p \<in> set honeyfs_dirs then Some (honeyfs_names p) else None),
      base_readfile = (\<lambda>p. if p \<in> set honeyfs_files then Some (contents p) else None)\<rparr>"

definition dquoted :: "string \<Rightarrow> string" where
  "dquoted s = [CHR 0x22] @ s @ [CHR 0x22]"

definition staticFiles :: "(string \<times> string) list" where
  "staticFiles =
     [(''/home/review/app/go.mod'', line_of ''module example.com/demo-app'' @ [LF] @ line_of ''go 1.27''),
      (''/home/review/app/main.go'',
       line_of ''package main'' @ [LF] @
       line_of ''import ('' @ line_of (TAB # dquoted ''fmt'') @ line_of (TAB # dquoted ''log'') @
       line_of (TAB # dquoted ''net/http'') @ line_of '')'' @ [LF] @
       line_of ''func main() {'' @
       line_of (TAB # ''http.HandleFunc('' @ dquoted ''/healthz'' @ '', func(w http.ResponseWriter, r *http.Request) {'') @
       line_of (TAB # TAB # ''fmt.Fprintln(w, '' @ dquoted ''ok'' @ '')'') @
       line_of (TAB # ''})'') @
       line_of (TAB # ''log.Fatal(http.ListenAndServe('' @ dquoted '':8080'' @ '', nil))'') @
       line_of ''}'')]"

section \<open>Generated files\<close>

record machine_view =
  mvNow :: time
  mvProcs :: proc_table

definition proc_uptime_file :: "machine_view \<Rightarrow> bytes" where
  "proc_uptime_file v =
     (let up = dur_Seconds (table_uptime (mvProcs v) (mvNow v))
      in line_of (fixed 2 up @ '' '' @ fixed 2 (fmul up (lit 183 100))))"

definition proc_loadavg_file :: "machine_view \<Rightarrow> bytes" where
  "proc_loadavg_file v =
     line_of (Join (map (fixed 2) (loads (mvProcs v))) '' '' @ '' 1/'' @
       Itoa (int (length (procs (mvProcs v))) + 80) @ '' '' @ Itoa (nextPID (mvProcs v)))"

definition meminfo_line :: "string \<Rightarrow> int \<Rightarrow> string" where
  "meminfo_line label kib = line_of (label @ blank_pad 8 kib @ '' kB'')"

definition proc_meminfo_file :: "machine_view \<Rightarrow> bytes" where
  "proc_meminfo_file v =
     (let taken = memUsedKiB (mvProcs v); free = memTotalKiB - taken - memCacheKiB in
      meminfo_line ''MemTotal:       '' memTotalKiB @ meminfo_line ''MemFree:        '' free @
      meminfo_line ''MemAvailable:   '' (free + cacheAvailKiB) @ meminfo_line ''Cached:         '' memCacheKiB @
      meminfo_line ''SwapTotal:      '' swapTotalKiB @ meminfo_line ''SwapFree:       '' swapTotalKiB)"

definition hosts_file :: "string \<Rightarrow> bytes" where
  "hosts_file host =
     line_of ''127.0.0.1   localhost localhost.localdomain'' @
     line_of ''::1         localhost localhost.localdomain'' @ line_of (''10.0.0.15   '' @ host)"

definition generated_files :: "string \<Rightarrow> (string \<times> (machine_view \<Rightarrow> bytes)) list" where
  "generated_files host =
     [(''/etc/hostname'', \<lambda>_. line_of host),
      (''/etc/hosts'', \<lambda>_. hosts_file host),
      (''/etc/motd'', \<lambda>_. stripANSI (banner visibleCommandNames host 80)),
      (''/proc/version'', \<lambda>_. line_of (''Linux version '' @ kernelRelease @ '' (mockbuild@fedoraproject.org) #1 SMP PREEMPT_DYNAMIC'')),
      (''/proc/uptime'', proc_uptime_file), (''/proc/loadavg'', proc_loadavg_file), (''/proc/meminfo'', proc_meminfo_file)]"

section \<open>The shell on it\<close>

text \<open>\<^verbatim>\<open>now.Add(-36 * time.Hour).Truncate(time.Minute)\<close>.\<close>

definition image_time :: "time \<Rightarrow> time" where
  "image_time tm = (tm - 36 * hour_ns) - (tm - 36 * hour_ns) mod minute_ns"

definition shell_image :: "(string \<Rightarrow> bytes) \<Rightarrow> string \<Rightarrow> time \<Rightarrow> machine_view vfs_config" where
  "shell_image contents host tm =
     shell_fs_config (honeyfs contents) staticFiles (generated_files host) mvNow (image_time tm)"

definition sees_procs :: "machine_view shell \<Rightarrow> machine_view world \<Rightarrow> machine_view world" where
  "sees_procs sh wd = wd\<lparr>wE := (wE wd)\<lparr>mvProcs := sProcs sh\<rparr>\<rparr>"

definition machine_turn ::
    "machine_view shell \<Rightarrow> machine_view world \<times> read_event list \<Rightarrow> machine_view shell" where
  "machine_turn sh turn = (case turn of (wd, evs) \<Rightarrow> shell_turn sh (sees_procs sh wd, evs))"

definition newMachine :: "(string \<Rightarrow> bytes) \<Rightarrow> string \<Rightarrow> time \<Rightarrow> rng \<Rightarrow> machine_view shell" where
  "newMachine contents host tm r = newShell host (shell_image contents host tm) tm r"

definition runMachine ::
    "(string \<Rightarrow> bytes) \<Rightarrow> string \<Rightarrow> time \<Rightarrow> rng \<Rightarrow> machine_view world \<Rightarrow>
     (machine_view world \<times> read_event list) list \<Rightarrow> machine_view shell" where
  "runMachine contents host tm r wd turns =
     foldl machine_turn (shell_login visibleCommandNames (wWidth wd) (newMachine contents host tm r)) turns"

section \<open>The image is a tree\<close>

text \<open>Every path of the read-only layers, and what lies above a static or generated file.\<close>

definition image_leaves :: "string list" where
  "image_leaves =
     [''/home/review/app/go.mod'', ''/home/review/app/main.go'', ''/etc/hostname'', ''/etc/hosts'', ''/etc/motd'',
      ''/proc/version'', ''/proc/uptime'', ''/proc/loadavg'', ''/proc/meminfo'']"

definition image_paths :: "string list" where
  "image_paths =
     extra_dirs @ image_leaves @ map (Cons slash) (tl honeyfs_dirs @ honeyfs_files) @
     concat (map (\<lambda>g. map butlast (filter (\<lambda>q. q \<noteq> [] \<and> last q = slash) (prefixes g))) image_leaves)"

definition image_dirs :: "string list" where
  "image_dirs = [slash] # map (Cons slash) (tl honeyfs_dirs)"

lemma leaves_of_image: "map fst staticFiles @ map fst (generated_files host) = image_leaves"
  by (simp add: staticFiles_def generated_files_def image_leaves_def)

lemma image_clean: "list_all clean_abs (extra_dirs @ image_leaves @ [''/root'', ''/etc/shadow''])"
  by code_simp

lemma image_names: "list_all (\<lambda>q. good_comp (path_Base q)) (tl honeyfs_dirs @ honeyfs_files)"
  by code_simp

lemma image_parents: "list_all (\<lambda>p. p = [] \<or> p = [slash] \<or> path_Dir p \<in> set image_dirs) image_paths"
  by code_simp

lemma image_dirs_base: "list_all (\<lambda>p. p \<notin> set image_leaves \<and> basePath p \<in> set honeyfs_dirs) image_dirs"
  by code_simp

lemma above_prefixes:
  assumes "HasPrefix g (p @ [slash])"
  shows "p \<in> set (map butlast (filter (\<lambda>q. q \<noteq> [] \<and> last q = slash) (prefixes g)))"
proof -
  have "p @ [slash] \<in> set (prefixes g)" using assms by (simp add: HasPrefix_iff in_set_prefixes prefix_def)
  then have "p @ [slash] \<in> set (filter (\<lambda>q. q \<noteq> [] \<and> last q = slash) (prefixes g))" by simp
  then have "butlast (p @ [slash]) \<in> butlast ` set (filter (\<lambda>q. q \<noteq> [] \<and> last q = slash) (prefixes g))" by (rule imageI)
  then show ?thesis by simp
qed

lemma basePath_abs:
  assumes "clean_abs p" "p \<noteq> [slash]"
  shows "p = slash # basePath p" "basePath p \<noteq> ''.''"
proof -
  obtain r where p: "p = slash # r" using assms(1) by (auto simp: clean_abs_def HasPrefix_iff)
  then show "p = slash # basePath p" using assms(2) by (simp add: basePath_def TrimPrefix_def HasPrefix_iff)
  moreover have "\<not> clean_abs (slash # ''.'')" by code_simp
  ultimately show "basePath p \<noteq> ''.''" using assms(1) by metis
qed

lemma honeyfs_names_good: "list_all good_comp (honeyfs_names p)"
proof -
  have "set (filter (\<lambda>q. q \<noteq> ''.'' \<and> path_Dir q = p) (honeyfs_dirs @ honeyfs_files)) \<subseteq>
      set (tl honeyfs_dirs @ honeyfs_files)"
    unfolding honeyfs_dirs_def by auto
  with image_names show ?thesis unfolding honeyfs_names_def list_all_iff set_sort set_map by blast
qed

abbreviation image_fs :: "(string \<Rightarrow> bytes) \<Rightarrow> string \<Rightarrow> time \<Rightarrow> machine_view fs" where
  "image_fs contents host tm \<equiv> fs_New (shell_image contents host tm)"

lemma image_config:
  "ExtraDirs (cfg (image_fs contents host tm)) = extra_dirs" "Static (cfg (image_fs contents host tm)) = staticFiles"
  "Generated (cfg (image_fs contents host tm)) = generated_files host"
  "Base (cfg (image_fs contents host tm)) = Some (honeyfs contents)"
  "Private (cfg (image_fs contents host tm)) = [''/root'', ''/etc/shadow'']"
  by (simp_all add: fs_New_def fs_Reset_def shell_image_def shell_fs_config_def Let_def shellUser_def)

lemma image_user: "User (cfg (image_fs contents host tm)) = ''review''"
  by (simp add: fs_New_def fs_Reset_def shell_image_def shell_fs_config_def Let_def shellUser_def)

lemma leaf_files:
  "map_of staticFiles p \<noteq> None \<or> map_of (generated_files host) p \<noteq> None \<longleftrightarrow> p \<in> set image_leaves"
  unfolding leaves_of_image [of host, symmetric] by (simp add: map_of_eq_None_iff)

lemma image_entry:
  assumes "ro_entry (image_fs contents host tm) p" "clean_abs p" "p \<noteq> [slash]"
  shows "p \<in> set image_paths"
proof -
  let ?f = "image_fs contents host tm"
  have base: "p \<in> set (map (Cons slash) (tl honeyfs_dirs @ honeyfs_files))" if "base_entry ?f p \<noteq> None"
  proof -
    have "basePath p \<in> set (honeyfs_dirs @ honeyfs_files)"
      using that by (auto simp: base_entry_def image_config honeyfs_def split: if_splits)
    then have "basePath p \<in> set (tl honeyfs_dirs @ honeyfs_files)"
      using basePath_abs(2) [OF assms(2,3)] by (auto simp: honeyfs_dirs_def)
    then show ?thesis using basePath_abs(1) [OF assms(2,3)] by (metis imageI set_map)
  qed
  have above: "\<exists>g \<in> set image_leaves. HasPrefix g (p @ [slash])" if "generatedParent ?f p"
    using that assms(3) unfolding leaves_of_image [of host, symmetric]
    by (auto simp: generatedParent_def image_config under_def list_ex_iff)
  consider "p \<in> set extra_dirs" | "p \<in> set image_leaves" | "base_entry ?f p \<noteq> None" | "generatedParent ?f p"
    using assms(1) leaf_files [of p host] by (auto simp: ro_entry_def isExtraDir_def image_config)
  then show ?thesis
  proof cases
    case 3
    with base show ?thesis by (auto simp: image_paths_def)
  next
    case 4
    then obtain g where "g \<in> set image_leaves" "HasPrefix g (p @ [slash])" using above by blast
    then show ?thesis using above_prefixes [of g p] by (auto simp: image_paths_def)
  qed (simp_all add: image_paths_def)
qed

lemma image_dir:
  assumes "p \<in> set image_dirs"
  shows "ro_dir (image_fs contents host tm) p"
proof -
  have "p \<notin> set image_leaves" "basePath p \<in> set honeyfs_dirs" using assms image_dirs_base by (auto simp: list_all_iff)
  moreover have "p \<noteq> []" using assms by (auto simp: image_dirs_def)
  ultimately show ?thesis
    using leaf_files [of p host] by (auto simp: ro_dir_def base_entry_def image_config honeyfs_def)
qed

lemma image_conf: "conf (image_fs contents host tm)"
proof -
  let ?f = "image_fs contents host tm"
  have "config_paths ?f"
    using image_clean unfolding config_paths_def leaves_of_image [of host, symmetric]
    by (simp add: image_config list_all_iff ball_Un)
  moreover have "base_names ?f"
    using honeyfs_names_good by (auto simp: base_names_def image_config honeyfs_def split: if_splits)
  moreover have "ro_dir ?f (path_Dir p)" if "clean_abs p" "p \<noteq> [slash]" "ro_entry ?f p" for p
  proof -
    have "p \<in> set image_paths" using image_entry [OF that(3,1,2)] .
    moreover have "p \<noteq> []" using that(3) by (simp add: ro_entry_def)
    ultimately have "path_Dir p \<in> set image_dirs" using image_parents that(2) unfolding list_all_iff by blast
    then show ?thesis by (rule image_dir)
  qed
  ultimately show ?thesis by (simp add: conf_def base_tree_def)
qed

section \<open>Sessions on the shipped machine\<close>

interpretation machine_loop: invariant_machine machine_turn "ready host (shell_image contents host tm)" for contents host tm
proof
  fix sh :: "machine_view shell" and turn
  assume "ready host (shell_image contents host tm) sh"
  then show "ready host (shell_image contents host tm) (machine_turn sh turn)"
    using shell_turn_ready(1) [OF image_conf] by (cases turn) (simp add: machine_turn_def)
qed

lemma runMachine_ready:
  assumes "rng_ok r"
  shows "ready host (shell_image contents host tm) (runMachine contents host tm r wd turns)"
  unfolding runMachine_def newMachine_def
proof (rule machine_loop.run_inv)
  show "ready host (shell_image contents host tm)
      (shell_login visibleCommandNames (wWidth wd) (newShell host (shell_image contents host tm) tm r))"
    using newShell_ready(1) [OF assms, of host "shell_image contents host tm" tm]
    by (simp add: ready_def shell_login_def say_def say_clear_def fresh_def visible_def shell_inv_def)
qed

text \<open>
  C26. Nothing of one visitor is left for the next, on the machine as it is shipped.  After any session, whatever was
  typed, pasted, completed, created, exported and displayed, an idle timeout or a logout leaves exactly the state
  of a fresh shell: file tree, directories, variables, status and history.  Until then the file tree keeps its quota
  and confinement, the working directory is a clean absolute path, the process table is sound, and every file of the
  image, generated ones included, reads as on the fresh machine; what only root may read is never shown.
\<close>

theorem shipped_machine_isolated:
  assumes "rng_ok r" and sh: "sh = runMachine contents host tm r wd turns"
  shows "(turn_result sh (sees_procs sh w, evs) \<in> {Some (Inl ErrIdle), Some (Inl EOF)} \<longrightarrow>
      visible (machine_turn sh (w, evs)) = visible (newMachine contents host tm r)) \<and>
    vfs_inv (sFs sh) \<and> clean_abs (cwd sh) \<and> length (history (sEd sh)) \<le> 200 \<and> table_inv (sProcs sh) \<and>
    (\<forall>v p. ro_entry (image_fs contents host tm) p \<longrightarrow>
       fs_ReadFile v (sFs sh) p = fs_ReadFile v (image_fs contents host tm) p) \<and>
    (\<forall>v p. under p ''/root'' \<or> under p ''/etc/shadow'' \<longrightarrow> (\<exists>err. fs_ReadFile v (sFs sh) p = Inl err))"
proof -
  have ready: "ready host (shell_image contents host tm) sh" unfolding sh by (rule runMachine_ready) (rule assms(1))
  then have inv: "shell_inv host (shell_image contents host tm) sh" by (simp add: ready_def)
  then have fs: "vfs_inv (sFs sh)" "cfg (sFs sh) = cfg (image_fs contents host tm)" by (simp_all add: shell_inv_def)
  have "fs_ReadFile v (sFs sh) p = fs_ReadFile v (image_fs contents host tm) p"
    if "ro_entry (image_fs contents host tm) p" for v p
  proof (rule ReadFile_ro [OF fs(2)])
    show "p \<notin> overlay (image_fs contents host tm)" by (simp add: overlay_def fs_New_def fs_Reset_def Let_def)
    show "p \<notin> overlay (sFs sh)" using that vfs_invD(5) [OF fs(1), of p] same_cfg [OF fs(2)] by (auto simp: placed_def)
  qed
  moreover have "\<exists>err. fs_ReadFile v (sFs sh) p = Inl err" if "under p ''/root'' \<or> under p ''/etc/shadow''" for v p
  proof -
    have "is_private (sFs sh) p"
      using that by (auto simp: is_private_def fs(2) image_config image_user)
    then show ?thesis by (simp add: fs_ReadFile_def split: sum.splits)
  qed
  moreover have "visible (machine_turn sh (w, evs)) = visible (newMachine contents host tm r)"
    if "turn_result sh (sees_procs sh w, evs) \<in> {Some (Inl ErrIdle), Some (Inl EOF)}"
    using shell_turn_ready(2) [OF image_conf ready that] newShell_ready(2) [OF assms(1), of host "shell_image contents host tm" tm]
    by (simp add: machine_turn_def newMachine_def fresh_def)
  ultimately show ?thesis using inv by (auto simp: shell_inv_def history_ok_def maxHistory_def)
qed

definition demo_machine_world :: "machine_view world" where
  "demo_machine_world =
     \<lparr>wE = \<lparr>mvNow = 0, mvProcs = newProcTable 0 demo_rng\<rparr>, wWidth = 80, wNap = NapDone, wFormat = (\<lambda>_ _. []),
      wLower = (\<lambda>s. s), wDisplay = demo_display\<rparr>"

definition demo_machine :: "machine_view shell" where
  "demo_machine =
     runMachine (\<lambda>_. []) ''h'' 0 demo_rng demo_machine_world
       [(demo_machine_world, [EKey None 0x6C, EKey None 0x73, EKey None KeyEnter])]"

theorem shipped_machine_isolated_witness:
  "visible (machine_turn demo_machine (demo_machine_world, [EIdle])) = visible (newMachine (\<lambda>_. []) ''h'' 0 demo_rng)"
proof -
  have r: "rng_ok demo_rng" by (simp add: rng_ok_def demo_rng_def)
  have "turn_result demo_machine (sees_procs demo_machine demo_machine_world, [EIdle]) = Some (Inl ErrIdle)"
    by (simp add: turn_result_def ReadLine_def Let_def)
  then show ?thesis
    using shipped_machine_isolated [OF r demo_machine_def, of demo_machine_world "[EIdle]"] by blast
qed

end
