(* ===== verification/Shell_Complete.thy ===== *)
theory Shell_Complete
  imports Shell_Commands
begin

text \<open>
  Tab completion of the simulated shell (\<^verbatim>\<open>complete\<close> and \<^verbatim>\<open>splice\<close> of \<^verbatim>\<open>src/fakeshell/shell.go\<close>): what it inserts,
  and where its byte-wise common prefix goes wrong.
\<close>

lemma runes_of_string_append:
  "list_all valid_rune rs \<Longrightarrow> runes_of_string (string_of_runes rs @ s) = rs @ runes_of_string s"
proof (induction rs)
  case (Cons r rs)
  have "EncodeRune r \<noteq> []" by (simp add: EncodeRune_def Let_def)
  with Cons show ?case
    by (subst runes_of_string.simps) (simp add: string_of_runes_def DecodeRune_EncodeRune)
qed (simp add: string_of_runes_def)

lemma path_split: "dir_part p @ after_last slash p = p"
proof -
  have "rev (takeWhile (\<lambda>c. c \<noteq> slash) (rev p) @ dropWhile (\<lambda>c. c \<noteq> slash) (rev p)) = p" by simp
  then show ?thesis by (simp only: dir_part_def after_last_def rev_append)
qed

text \<open>Every candidate continues the word before the cursor.\<close>

lemma candidates_extend:
  assumes "(n, ins) \<in> set (word_candidates e names sh before pre)"
  shows "HasPrefix ins pre"
proof (cases "TrimSpace before = [] \<and> \<not> Contains pre ''/''")
  case True
  then show ?thesis using assms by (auto simp: word_candidates_def HasPrefix_iff)
next
  case False
  have "HasPrefix (dir_part pre @ m @ x) pre" if m: "HasPrefix m (after_last slash pre)" for m x
  proof -
    obtain r where "m = after_last slash pre @ r" using m by (auto simp: HasPrefix_iff)
    then have "dir_part pre @ m @ x = pre @ r @ x" using path_split [of pre] by (metis append_assoc)
    then show ?thesis unfolding HasPrefix_iff by (rule exI)
  qed
  with assms False show ?thesis
    by (auto simp: word_candidates_def Let_def split: if_splits)
qed

lemma shorten_keeps:
  "HasPrefix ins pre \<Longrightarrow> HasPrefix common pre \<Longrightarrow> HasPrefix (shorten ins common) pre \<and> HasPrefix ins (shorten ins common)"
proof (induction "length common" arbitrary: common)
  case 0
  then show ?case by (subst (1 2) shorten.simps) simp
next
  case (Suc n)
  show ?case
  proof (cases "HasPrefix ins common")
    case True
    with Suc.prems show ?thesis by (subst (1 2) shorten.simps) simp
  next
    case False
    have ne: "common \<noteq> []" using Suc(2) by auto
    have "pre \<noteq> common" using False Suc.prems(1) by auto
    then obtain r where r: "common = pre @ r" "r \<noteq> []" using Suc.prems(2) by (auto simp: HasPrefix_iff)
    then have "butlast common = pre @ butlast r" by (simp add: butlast_append)
    then have "HasPrefix (butlast common) pre" by (simp add: HasPrefix_iff)
    moreover have "n = length (butlast common)" using Suc(2) by simp
    ultimately show ?thesis
      using Suc.hyps(1) [of "butlast common"] Suc.prems(1) False ne by (subst (1 2) shorten.simps) simp
  qed
qed

lemma common_extends:
  assumes "\<And>n i. (n, i) \<in> set cands \<Longrightarrow> HasPrefix i pre" "HasPrefix ins pre"
  shows "HasPrefix (foldl (\<lambda>common (_, i). shorten i common) ins cands) pre"
  using assms
proof (induction cands arbitrary: ins)
  case (Cons ci cands)
  obtain n i where ci: "ci = (n, i)" by fastforce
  have "HasPrefix i pre" using Cons.prems(1) [of n i] ci by simp
  then have "HasPrefix (shorten i ins) pre" using shorten_keeps [of i pre ins] Cons.prems(2) by simp
  moreover have "HasPrefix j pre" if "(m, j) \<in> set cands" for m j using Cons.prems(1) [of m j] that by simp
  ultimately show ?case using Cons.IH [of "shorten i ins"] ci by simp
qed simp

lemma skip_back_split:
  "p \<le> length l \<Longrightarrow> take (skip_back P l p) l @ drop (skip_back P l p) (take p l) = take p l"
  using skip_back_le [of P l p] by (metis append_take_drop_id min.absorb2 take_take min.commute)

lemma splice_extends:
  assumes "p \<le> length l" "list_all valid_rune l" "HasPrefix ins (string_of_runes (drop start (take p l)))"
    and "take start l @ drop start (take p l) = take p l" "start \<le> p"
  shows "\<exists>new. splice l start p ins = (take p l @ new @ drop p l, int (p + length new), [])"
proof -
  let ?w = "drop start (take p l)"
  obtain r where r: "ins = string_of_runes ?w @ r" using assms(3) by (auto simp: HasPrefix_iff)
  have "list_all valid_rune ?w"
    using assms(2) by (auto simp: list_all_iff dest!: in_set_dropD in_set_takeD)
  then have "runes_of_string ins = ?w @ runes_of_string r" by (simp add: r runes_of_string_append)
  moreover have "take start l @ ?w @ x = take p l @ x" for x using assms(4) by (metis append_assoc)
  ultimately have "splice l start p ins = (take p l @ runes_of_string r @ drop p l, int (p + length (runes_of_string r)), [])"
    using assms(1,5) by (simp add: splice_def Let_def)
  then show ?thesis by blast
qed

text \<open>What Tab does: a candidate or the common part of all is put in place, or they are listed, or there is none.\<close>

lemma complete_cases:
  fixes l p defines "start \<equiv> skip_back (\<lambda>r. r \<noteq> rune_of CHR '' '') l p"
  obtains (put) ins where "complete e names sh l p = splice l start p ins"
      "HasPrefix ins (string_of_runes (drop start (take p l)))"
    | (list) choices where "complete e names sh l p = (l, int p, choices)" "choices = [] \<or> 2 \<le> length choices"
proof -
  let ?pre = "string_of_runes (drop start (take p l))"
  let ?cands = "word_candidates e names sh (string_of_runes (take start l)) ?pre"
  let ?result = "complete e names sh l p"
  have ext: "HasPrefix i ?pre" if "(n, i) \<in> set ?cands" for n i by (rule candidates_extend [OF that])
  consider (none) "?cands = []" | (one) n ins where "?cands = [(n, ins)]"
    | (more) n ins b rest where "?cands = (n, ins) # b # rest"
    by (metis list.exhaust surj_pair)
  then show ?thesis
  proof cases
    case none
    then have "?result = (l, int p, [])" by (simp add: complete_def Let_def start_def)
    then show ?thesis by (rule list) simp
  next
    case one
    then have "?result = splice l start p ins" by (simp add: complete_def Let_def start_def)
    then show ?thesis by (rule put) (use ext one in simp)
  next
    case more
    let ?common = "foldl (\<lambda>common (_, i). shorten i common) ins ?cands"
    have res: "?result = (if length ?common > length ?pre then splice l start p ?common else (l, int p, sort (map fst ?cands)))"
      using more by (simp add: complete_def Let_def start_def)
    show ?thesis
    proof (cases "length ?common > length ?pre")
      case True
      with res have "?result = splice l start p ?common" by simp
      moreover have "HasPrefix ?common ?pre" by (rule common_extends) (use ext more in auto)
      ultimately show ?thesis by (rule put)
    next
      case False
      with res have "?result = (l, int p, sort (map fst ?cands))" by simp
      then show ?thesis by (rule list) (simp add: more)
    qed
  qed
qed

text \<open>
  C33. Tab never rewrites what was typed: it inserts text at the cursor and moves the cursor behind it, or leaves
  the line alone and lists at least two choices, each of which continues the word, or does nothing.
\<close>

theorem completion_inserts:
  assumes "p \<le> length l" "list_all valid_rune l" "complete e names sh l p = (l', p', choices)"
  shows "\<exists>new. l' = take p l @ new @ drop p l \<and> p' = int (p + length new) \<and>
    (choices \<noteq> [] \<longrightarrow> new = [] \<and> length choices \<ge> 2)"
proof (cases rule: complete_cases [where e = e and names = names and sh = sh and l = l and p = p])
  case (put ins)
  have "\<exists>new. splice l (skip_back (\<lambda>r. r \<noteq> rune_of CHR '' '') l p) p ins = (take p l @ new @ drop p l, int (p + length new), [])"
    by (rule splice_extends [OF assms(1,2) put(2) skip_back_split [OF assms(1)] skip_back_le])
  with put(1) assms(3) show ?thesis by auto
next
  case (list cs)
  with assms(3) show ?thesis by (intro exI [of _ "[]"]) auto
qed

theorem completion_inserts_witness:
  "\<exists>new l' p' ch. complete () [''pwd''] (newShell ''h'' demo_config 0 demo_rng) [0x70, 0x77] 2 = (l', p', ch) \<and>
     l' = [0x70, 0x77] @ new \<and> p' = int (2 + length new)"
proof -
  obtain l' p' ch where r: "complete () [''pwd''] (newShell ''h'' demo_config 0 demo_rng) [0x70, 0x77] 2 = (l', p', ch)"
    by (cases "complete () [''pwd''] (newShell ''h'' demo_config 0 demo_rng) [0x70, 0x77] 2")
  have "list_all valid_rune [0x70, 0x77]" by (simp add: valid_rune_def)
  with completion_inserts [OF _ _ r] r show ?thesis by auto
qed

text \<open>
  The common prefix is cut byte by byte.  Two candidates whose names differ in the second byte of a two-byte
  rune, such as the accented letters U+00E9 and U+00E8, leave half a rune, and Tab inserts U+FFFD, which
  neither name contains.
\<close>

lemma completion_splits_rune:
  assumes "word_candidates e names sh (string_of_runes l) [] =
      [([CHR 0xC3, CHR 0xA8], [CHR 0xC3, CHR 0xA8, CHR '' '']), ([CHR 0xC3, CHR 0xA9], [CHR 0xC3, CHR 0xA9, CHR '' ''])]"
    and "l \<noteq> []" "last l = rune_of CHR '' ''"
  shows "complete e names sh l (length l) = (l @ [RuneError], int (length l) + 1, [])"
proof -
  have "skip_back (\<lambda>r. r \<noteq> rune_of CHR '' '') l (length l) = length l"
    using assms(2,3) by (cases l rule: rev_cases) (auto simp: nth_append)
  moreover have "shorten [CHR 0xC3, CHR 0xA8, CHR '' ''] [CHR 0xC3, CHR 0xA8, CHR '' ''] = [CHR 0xC3, CHR 0xA8, CHR '' '']"
    "shorten [CHR 0xC3, CHR 0xA9, CHR '' ''] [CHR 0xC3, CHR 0xA8, CHR '' ''] = [CHR 0xC3]"
    by (simp_all add: shorten.simps)
  moreover have "runes_of_string [CHR 0xC3] = [RuneError]"
    by (subst runes_of_string.simps) (simp add: DecodeRune_def utf8_first_def RuneError_def runes_of_string.simps)
  ultimately show ?thesis
    using assms(1) by (simp add: complete_def splice_def string_of_runes_def Let_def)
qed

end
