(* ===== verification/Shell_Layout.thy ===== *)
theory Shell_Layout
  imports Shell_Words
begin

text \<open>
  The text layout of the simulated shell (\<^verbatim>\<open>wrapText\<close> of \<^verbatim>\<open>src/fakeshell/shell.go\<close>).
\<close>

lemma fields_from_ne: "w \<in> set (fields_from cur s) \<Longrightarrow> w \<noteq> []"
proof (induction cur s rule: fields_from.induct)
  case (1 cur s)
  show ?case
  proof (cases s)
    case Nil
    with 1(4) show ?thesis by (subst (asm) fields_from.simps) (auto split: if_splits)
  next
    case (Cons c rest)
    show ?thesis
    proof (cases "space_at space_encodings s")
      case None
      with 1(4) Cons have "w \<in> set (fields_from (cur @ [c]) rest)" by (subst (asm) fields_from.simps) simp
      with 1(1) Cons None show ?thesis by simp
    next
      case (Some n)
      with 1(4) Cons
      have "0 < n \<Longrightarrow> w \<in> set (if cur = [] then [] else [cur]) \<or> w \<in> set (fields_from [] (drop n s))"
        "n = 0 \<Longrightarrow> w \<in> set (fields_from (cur @ [c]) rest)"
        by (subst (asm) fields_from.simps, simp)+
      with 1(2,3) Cons Some show ?thesis by (cases "0 < n") (auto split: if_splits)
    qed
  qed
qed

lemma Fields_ne: "w \<in> set (Fields s) \<Longrightarrow> w \<noteq> []"
  by (simp add: Fields_def fields_from_ne)

definition fits :: "int \<Rightarrow> string list \<Rightarrow> bool" where
  "fits width l \<longleftrightarrow> int (length (Join l '' '')) \<le> width \<or> length l = 1"

definition lines_text :: "string list list \<Rightarrow> string" where
  "lines_text ls = concat (map (\<lambda>l. Join l '' '' @ [LF]) ls)"

lemma Join_snoc_space: "l \<noteq> [] \<Longrightarrow> Join (l @ [w]) '' '' = Join l '' '' @ '' '' @ w"
  by (cases l) (auto simp: Join_def)

lemma wrap_words_lines:
  assumes "c \<noteq> []" "\<And>w. w \<in> set c \<union> set ws \<Longrightarrow> w \<noteq> []" "fits width c" "col = int (length (Join c '' ''))"
  shows "\<exists>ls. Join c '' '' @ wrap_words width col ws @ [LF] = lines_text ls \<and> concat ls = c @ ws \<and> list_all (fits width) ls"
  using assms
proof (induction ws arbitrary: c col)
  case Nil
  then show ?case by (intro exI [where x = "[c]"]) (simp add: lines_text_def)
next
  case (Cons w ws)
  have "Join c '' '' \<noteq> []" using Cons.prems(1,2) by (cases c) (auto simp: Join_def)
  then have pos: "0 < col" using Cons.prems(4) by simp
  show ?case
  proof (cases "col + 1 + int (length w) > width")
    case True
    have "\<exists>ls. Join [w] '' '' @ wrap_words width (int (length w)) ws @ [LF] = lines_text ls \<and> concat ls = [w] @ ws \<and> list_all (fits width) ls"
      by (rule Cons.IH) (use Cons.prems(2) in \<open>auto simp: fits_def Join_def\<close>)
    then obtain ls where ls: "w @ wrap_words width (int (length w)) ws @ [LF] = lines_text ls" "concat ls = w # ws"
      "list_all (fits width) ls"
      by (auto simp: Join_def)
    have "Join c '' '' @ wrap_words width col (w # ws) @ [LF] = lines_text (c # ls)"
      using True pos ls(1) by (simp add: lines_text_def)
    with ls Cons.prems(3) show ?thesis by (intro exI [where x = "c # ls"]) simp
  next
    case False
    have j: "Join (c @ [w]) '' '' = Join c '' '' @ '' '' @ w" using Cons.prems(1) by (rule Join_snoc_space)
    have "\<exists>ls. Join (c @ [w]) '' '' @ wrap_words width (col + 1 + int (length w)) ws @ [LF] = lines_text ls \<and>
        concat ls = (c @ [w]) @ ws \<and> list_all (fits width) ls"
      by (rule Cons.IH) (use Cons.prems False j in \<open>auto simp: fits_def\<close>)
    with False pos j show ?thesis by (simp add: add.commute add.left_commute)
  qed
qed

text \<open>
  Wrapping loses nothing and overflows nothing: the wrapped text is lines of the words of the input, all of
  them and in order, separated by single blanks; every line fits the window (at least 20 columns), except a
  line that is one word longer than that.
\<close>

theorem wrapText_fits:
  "\<exists>ls. wrapText s width = concat (map (\<lambda>l. Join l '' '' @ [LF]) ls) \<and> concat ls = Fields s \<and>
     list_all (\<lambda>l. int (length (Join l '' '')) \<le> max 20 width \<or> length l = 1) ls"
proof (cases "Fields s")
  case Nil
  then show ?thesis by (intro exI [where x = "[[]]"]) (simp add: wrapText_def Join_def)
next
  case (Cons w ws)
  define W where "W = max 20 width"
  have if_W: "(if width < 20 then 20 else width) = W" by (simp add: W_def)
  have "\<exists>ls. Join [w] '' '' @ wrap_words W (int (length w)) ws @ [LF] = lines_text ls \<and> concat ls = [w] @ ws \<and> list_all (fits W) ls"
    by (rule wrap_words_lines) (use Fields_ne [of _ s] Cons in \<open>auto simp: fits_def Join_def\<close>)
  then obtain ls where "w @ wrap_words W (int (length w)) ws @ [LF] = lines_text ls" "concat ls = w # ws" "list_all (fits W) ls"
    by (auto simp: Join_def)
  then show ?thesis
    by (intro exI [where x = ls])
      (simp add: wrapText_def if_W Cons lines_text_def fits_def [abs_def] flip: W_def)
qed

end
