(* ===== verification/Demo_Programs.thy ===== *)
theory Demo_Programs
  imports Tty_Ops Shell_Date "HOL-Library.Char_ord"
begin

text \<open>
  The two other programs of the simulated machine, \<^verbatim>\<open>src/fakeshell/programs.go\<close>: a pretend coding agent that asks for
  approval, and a log that scrolls.  What arrives (keys, the timers, the end of the session) is given as lists of
  events; a result \<open>None\<close> or \<open>Waiting\<close> means that the program still waits.
\<close>

section \<open>The coding agent\<close>

record agent_task =
  title :: string
  diff :: "string list"

definition agentTasks :: "agent_task list" where
  "agentTasks =
     [\<lparr>title = ''update the dependency lockfile'', diff = [''~ go.sum  (+3 -1)'']\<rparr>,
      \<lparr>title = ''add a cache header to /healthz'',
       diff = [''~ app/main.go  (+1)'',
               ''+   w.Header().Set('' @ [CHR 0x22] @ ''Cache-Control'' @ [CHR 0x22] @ '', '' @ [CHR 0x22] @ ''no-store'' @
               [CHR 0x22] @ '')'']\<rparr>,
      \<lparr>title = ''fix the flaky TestStoreReconnect'',
       diff = [''~ internal/store/store_test.go  (+4 -2)'', ''-   time.Sleep(100 * time.Millisecond)'',
               ''+   waitFor(t, store.Ready)'']\<rparr>,
      \<lparr>title = ''bump the Go toolchain to 1.27.2'',
       diff = [''~ go.mod  (+1 -1)'', ''-   go 1.27'', ''+   go 1.27.2'']\<rparr>]"

definition agent_task :: "nat \<Rightarrow> agent_task" where
  "agent_task n = agentTasks ! ((n - 1) mod length agentTasks)"

definition task_intro :: "nat \<Rightarrow> string" where
  "task_intro n =
     [CHR 0x0A] @ CSI @ ''1;36magent>'' @ CSI @ ''0m Task '' @ show_nat n @ '': '' @ title (agent_task n) @ [CHR 0x0A]"

definition diff_line :: "string \<Rightarrow> string" where
  "diff_line d =
     ''  '' @ CSI @ (if HasPrefix d ''+'' then ''32m'' else if HasPrefix d ''-'' then ''31m'' else ''33m'') @ d @
     CSI @ ''0m'' @ [CHR 0x0A]"

definition task_ops :: "nat \<Rightarrow> tty_op list" where
  "task_ops n = TWrite (task_intro n) # map (\<lambda>d. TWrite (diff_line d)) (diff (agent_task n))"

definition agent_editor :: editor_config where
  "agent_editor = \<lparr>edClear = True, MaxLen = 64, Complete = None\<rparr>"

text \<open>
  The loop \<^verbatim>\<open>ask\<close>.  Each turn is whether the session has ended when the loop looks, the window width and the events of
  one \<^verbatim>\<open>ReadLine\<close>.
\<close>

datatype ask_end = AskWaiting | AskNext | AskReturn

definition ask_prompt :: string where
  "ask_prompt = ''Apply this change? (y/n) ''"

text \<open>
  \<^verbatim>\<open>strings.ToLower\<close>, as far as the comparison needs it: no letter outside ASCII has one of the letters of the
  answers as its lower case.
\<close>

definition lower_ascii :: "string \<Rightarrow> string" where
  "lower_ascii s = map (\<lambda>c. if CHR ''A'' \<le> c \<and> c \<le> CHR ''Z'' then char_of (byte_code c + 32) else c) s"

definition answer_ops :: "string \<Rightarrow> tty_op list \<times> bool" where
  "answer_ops answer =
     (let a = lower_ascii (TrimSpace answer) in
      if a = ''y'' \<or> a = ''yes'' then ([TWrite (CSI @ ''32mapplied.'' @ CSI @ ''0m'' @ [CHR 0x0A])], True)
      else if a = ''n'' \<or> a = ''no'' then ([TWrite (''skipped.'' @ [CHR 0x0A])], True)
      else ([TWrite (''please answer y or n'' @ [CHR 0x0A])], False))"

fun agent_ask :: "editor \<Rightarrow> (bool \<times> int \<times> read_event list) list \<Rightarrow> editor \<times> tty_op list \<times> ask_end" where
  "agent_ask ed [] = (ed, [], AskWaiting)"
| "agent_ask ed ((ctxDone, wd, evs) # turns) =
     (if ctxDone then (ed, [], AskNext)
      else
        let (ed1, s, r) = ReadLine agent_editor (Some wd) ask_prompt (ed\<lparr>out := []\<rparr>) evs;
            ops1 = map out_op (out ed1)
        in case r of
            None \<Rightarrow> (ed1, ops1, AskWaiting)
          | Some (Inl ErrInterrupt) \<Rightarrow> (ed1, ops1 @ [TWrite (''skipped.'' @ [CHR 0x0A])], AskNext)
          | Some (Inl EOF) \<Rightarrow> (let (ed2, ops2, e) = agent_ask ed1 turns in (ed2, ops1 @ ops2, e))
          | Some (Inl _) \<Rightarrow> (ed1, ops1, AskReturn)
          | Some (Inr answer) \<Rightarrow>
              (let (said, next) = answer_ops answer in
               if next then (ed1, ops1 @ said, AskNext)
               else let (ed2, ops2, e) = agent_ask ed1 turns in (ed2, ops1 @ said @ ops2, e)))"

text \<open>
  One task: whether the session has ended before it, the turns of its question, the events of the pause after it, and
  whether the session has ended after the pause.
\<close>

record agent_round =
  endedBefore :: bool
  turns :: "(bool \<times> int \<times> read_event list) list"
  pause :: "sleep_event list"
  endedAfter :: bool

fun agent_loop :: "nat \<Rightarrow> editor \<Rightarrow> agent_round list \<Rightarrow> editor \<times> tty_op list \<times> bool" where
  "agent_loop n ed [] = (ed, [], False)"
| "agent_loop n ed (r # rs) =
     (if endedBefore r then (ed, [], True)
      else
        let (ed1, ops1, e) = agent_ask ed (turns r) in
        case e of
          AskWaiting \<Rightarrow> (ed1, task_ops n @ ops1, False)
        | AskReturn \<Rightarrow> (ed1, task_ops n @ ops1, True)
        | AskNext \<Rightarrow>
            let (ops2, slept) = sleep_ops (pause r) in
            case slept of
              None \<Rightarrow> (ed1, task_ops n @ ops1 @ ops2, False)
            | Some whole \<Rightarrow>
                if \<not> whole \<and> endedAfter r then (ed1, task_ops n @ ops1 @ ops2, True)
                else let (ed2, ops3, fin) = agent_loop (n + 1) ed1 rs in (ed2, task_ops n @ ops1 @ ops2 @ ops3, fin))"

definition demo_runAgent :: "agent_round list \<Rightarrow> editor \<times> tty_op list \<times> bool" where
  "demo_runAgent rs =
     (let (ed, ops, fin) = agent_loop 1 editor_New rs
      in (ed, [TClear, TWrite (CSI @ ''1mdemo-agent'' @ CSI @ ''0m: a pretend coding agent. Answer y or n; nothing is changed.'' @
                [CHR 0x0A])] @ ops, fin))"

section \<open>The log\<close>

definition logLine :: "nat \<Rightarrow> string" where
  "logLine n =
     [''deploy: health check ok (3/3 replicas)'',
      ''api: request p95 '' @ show_nat (38 + n mod 9) @ ''ms, errors 0'',
      ''worker: processed '' @ show_nat (120 + n mod 37) @ '' jobs'',
      ''nginx: 200 GET /healthz'',
      ''db: checkpoint complete: wrote '' @ show_nat (400 + n mod 211) @ '' buffers''] ! (n mod 5)"

definition log_text :: "clock \<Rightarrow> nat \<Rightarrow> string" where
  "log_text utc n = fmt_ymd utc @ ''T'' @ fmt_hms utc @ ''Z '' @ logLine n @ [CHR 0x0A]"

text \<open>A tick comes with the time in UTC.\<close>

datatype log_event = LogDone | LogKey key | LogTick clock

definition log_interrupt :: string where
  "log_interrupt =
     ''^C'' @ [CHR 0x0A] @ CSI @ ''2m-- this log is read-only and keeps following --'' @ CSI @ ''0m'' @ [CHR 0x0A]"

fun log_loop :: "nat \<Rightarrow> log_event list \<Rightarrow> tty_op list \<times> bool" where
  "log_loop n [] = ([], False)"
| "log_loop n (LogDone # _) = ([], True)"
| "log_loop n (LogKey k # evs) =
     (let (ops, fin) = log_loop n evs in ((if k = KeyCtrlC then [TWrite log_interrupt] else []) @ ops, fin))"
| "log_loop n (LogTick t # evs) =
     (let (ops, fin) = log_loop (n + 1) evs in (TWrite (log_text t n) # ops, fin))"

definition runLogs :: "log_event list \<Rightarrow> tty_op list \<times> bool" where
  "runLogs evs =
     (let (ops, fin) = log_loop 0 evs
      in ([TClear, TWrite (CSI @ ''2m-- following /var/log/demo-app/deploy.log (simulated, read-only) --'' @ CSI @ ''0m'' @
           [CHR 0x0A])] @ ops, fin))"

section \<open>Every answer only advances\<close>

lemma editor_no_new_line:
  "list_all (\<lambda>op. \<not> starts_line op) (map out_op (out (fst (ReadLine c wd p (e\<lparr>out := []\<rparr>) evs))))"
  using no_new_line_ReadLine [of "e\<lparr>out := []\<rparr>" c wd p evs] by (simp add: no_new_line_def list_all_iff)

lemma answer_no_new_line: "list_all (\<lambda>op. \<not> starts_line op) (fst (answer_ops a))"
  by (simp add: answer_ops_def Let_def)

lemma ReadLine_history:
  "history_ok (max_len c) (history e) \<Longrightarrow> history_ok (max_len c) (history (fst (ReadLine c wd p (e\<lparr>out := []\<rparr>) evs)))"
  using ReadLine_ok [of c "e\<lparr>out := []\<rparr>" wd p evs] by (metis fst_conv prod_cases3 editor.select_convs(1) editor.surjective editor.update_convs(3))

lemma agent_ask_ok:
  assumes "agent_ask ed ts = (ed', ops, e)" "history_ok (max_len agent_editor) (history ed)"
  shows "list_all (\<lambda>op. \<not> starts_line op) ops \<and> history_ok (max_len agent_editor) (history ed')"
  using assms
proof (induction ts arbitrary: ed ed' ops e)
  case (Cons t ts)
  obtain ctxDone wd evs where t: "t = (ctxDone, wd, evs)" by (metis prod_cases3)
  show ?case
  proof (cases ctxDone)
    case False
    obtain ed1 s r where rl: "ReadLine agent_editor (Some wd) ask_prompt (ed\<lparr>out := []\<rparr>) evs = (ed1, s, r)"
      by (metis prod_cases3)
    obtain ed2 ops2 e2 where rest: "agent_ask ed1 ts = (ed2, ops2, e2)" by (metis prod_cases3)
    note parts = editor_no_new_line [of agent_editor "Some wd" ask_prompt ed evs, unfolded rl fst_conv]
      ReadLine_history [OF Cons.prems(2), of "Some wd" ask_prompt evs, unfolded rl fst_conv]
    note again = Cons.IH [OF rest parts(2)] and call = Cons.prems(1) [unfolded t agent_ask.simps rl]
    show ?thesis
    proof (cases r)
      case None
      with call False parts show ?thesis by auto
    next
      case (Some x)
      show ?thesis
      proof (cases x)
        case (Inl err)
        with call False Some parts rest again show ?thesis by (cases err) auto
      next
        case (Inr answer)
        obtain said "next" where a: "answer_ops answer = (said, next)" by force
        then have "list_all (\<lambda>op. \<not> starts_line op) said" using answer_no_new_line [of answer] by simp
        with call False Some Inr parts rest again a show ?thesis by (auto simp: Let_def split: if_splits)
      qed
    qed
  qed (use Cons.prems t in auto)
qed simp

lemma sleep_no_new_line: "list_all (\<lambda>op. \<not> starts_line op) (fst (sleep_ops evs))"
  by (induction evs rule: sleep_ops.induct) (auto simp: interrupt_echo_def)

lemma filter_no_new_line: "list_all (\<lambda>op. \<not> starts_line op) ops \<Longrightarrow> filter starts_line ops = []"
  by (simp add: list_all_iff)

lemma filter_task_ops [simp]: "filter starts_line (task_ops n) = [TWrite (task_intro n)]"
  by (simp add: task_ops_def task_intro_def diff_line_def filter_empty_conv)

lemma agent_loop_ok:
  assumes "agent_loop n ed rs = (ed', ops, fin)" "history_ok (max_len agent_editor) (history ed)"
  shows "(\<exists>m \<le> length rs. filter starts_line ops = map (\<lambda>k. TWrite (task_intro k)) [n..<n + m]) \<and>
    history_ok (max_len agent_editor) (history ed')"
  using assms
proof (induction rs arbitrary: n ed ed' ops fin)
  case (Cons r rs)
  show ?case
  proof (cases "endedBefore r")
    case False
    obtain ed1 ops1 e where ask: "agent_ask ed (turns r) = (ed1, ops1, e)" by (metis prod_cases3)
    obtain ops2 slept where sl: "sleep_ops (pause r) = (ops2, slept)" by force
    obtain ed2 ops3 fin' where rest: "agent_loop (n + 1) ed1 rs = (ed2, ops3, fin')" by (metis prod_cases3)
    from agent_ask_ok [OF ask Cons.prems(2)]
    have a: "filter starts_line ops1 = []" "history_ok (max_len agent_editor) (history ed1)"
      by (simp_all add: filter_no_new_line)
    have s: "filter starts_line ops2 = []" using sleep_no_new_line [of "pause r"] sl by (simp add: filter_no_new_line)
    from Cons.IH [OF rest a(2)] obtain m where
      m: "m \<le> length rs" "filter starts_line ops3 = map (\<lambda>k. TWrite (task_intro k)) [n + 1..<n + 1 + m]"
      and h: "history_ok (max_len agent_editor) (history ed2)" by blast
    have one: "\<exists>m \<le> length (r # rs). [TWrite (task_intro n)] = map (\<lambda>k. TWrite (task_intro k)) [n..<n + m]"
      by (rule exI [of _ 1]) simp
    have more: "\<exists>m \<le> length (r # rs). TWrite (task_intro n) # filter starts_line ops3 =
        map (\<lambda>k. TWrite (task_intro k)) [n..<n + m]"
      using m by (intro exI [of _ "Suc m"]) (simp add: upt_conv_Cons del: upt_Suc)
    from Cons.prems(1) False ask sl rest show ?thesis
      using a s h one more by (auto simp: Let_def split: ask_end.splits option.splits if_splits)
  qed (use Cons.prems in auto)
qed simp

text \<open>
  C39. The pretend agent's tasks come in order whatever is answered: every run shows the tasks 1, 2, 3 and so on, each
  once, an answer only moves on to the next; and what it remembers stays bounded, 200 answers of 64 characters.
\<close>

theorem agent_tasks_in_order:
  assumes "demo_runAgent rs = (ed, ops, fin)"
  shows "(\<exists>m \<le> length rs. filter starts_line ops = map (\<lambda>k. TWrite (task_intro k)) [1..<Suc m]) \<and>
    length (history ed) \<le> 200 \<and> list_all (\<lambda>l. length (runes_of_string l) \<le> 64) (history ed)"
proof -
  obtain ed1 ops1 fin1 where run: "agent_loop 1 editor_New rs = (ed1, ops1, fin1)" by (metis prod_cases3)
  have "history_ok (max_len agent_editor) (history editor_New)" by (simp add: history_ok_def editor_New_def)
  note loop = agent_loop_ok [OF run this]
  have "ed = ed1" "filter starts_line ops = filter starts_line ops1"
    using assms [unfolded demo_runAgent_def run] by auto
  with loop show ?thesis
    by (simp add: history_ok_def maxHistory_def max_len_def agent_editor_def list_all_iff del: upt_Suc)
qed

definition demo_round :: "rune list \<Rightarrow> agent_round" where
  "demo_round answer =
     \<lparr>endedBefore = False, turns = [(False, 80, map (EKey (Some 80)) (answer @ [KeyEnter]))], pause = [SleepTimer],
      endedAfter = False\<rparr>"

theorem agent_tasks_in_order_witness:
  "\<exists>m \<le> 2. filter starts_line (fst (snd (demo_runAgent [demo_round [0x79], demo_round [0x6E]]))) =
     map (\<lambda>k. TWrite (task_intro k)) [1..<Suc m]"
proof -
  obtain ed ops fin where "demo_runAgent [demo_round [0x79], demo_round [0x6E]] = (ed, ops, fin)" by (metis prod_cases3)
  from agent_tasks_in_order [OF this] this show ?thesis by (simp add: numeral_2_eq_2 del: upt_Suc)
qed

section \<open>The log ignores its input\<close>

fun log_ticks :: "log_event list \<Rightarrow> clock list" where
  "log_ticks (LogTick t # evs) = t # log_ticks evs"
| "log_ticks (LogKey _ # evs) = log_ticks evs"
| "log_ticks _ = []"

lemma zero_pad_first: "hd (zero_pad n v) \<noteq> CHR ''^''" "zero_pad n v \<noteq> []"
proof -
  have "hd (show_nat k) \<noteq> CHR ''^''" for k
    using show_nat_digits [of "hd (show_nat k)" k] by (auto simp: hd_in_set)
  then show "hd (zero_pad n v) \<noteq> CHR ''^''"
    by (cases "n - length (show_nat (nat v))") (simp_all add: zero_pad_def hd_append)
  show "zero_pad n v \<noteq> []" by (simp add: zero_pad_def)
qed

lemma log_text_neq [simp]: "log_text t n \<noteq> log_interrupt"
proof -
  have "hd (log_text t n) \<noteq> CHR ''^''"
    using zero_pad_first [of 4 "Year t"] by (simp add: log_text_def fmt_ymd_def fmt_year_def hd_append)
  then show ?thesis by (auto simp: log_interrupt_def)
qed

lemma log_loop_ticks:
  "filter (\<lambda>op. op \<noteq> TWrite log_interrupt) (fst (log_loop n evs)) =
     map (\<lambda>(i, t). TWrite (log_text t i)) (enumerate n (log_ticks evs))"
  by (induction n evs rule: log_loop.induct) (simp_all add: case_prod_beta)

text \<open>
  The log follows its clock and nothing else: apart from the notice that Ctrl-C prints, the output is one line for
  every tick, numbered from 0 without gap, whatever keys arrive in between.
\<close>

theorem log_ignores_input:
  "filter (\<lambda>op. op \<noteq> TWrite log_interrupt) (drop 2 (fst (runLogs evs))) =
     map (\<lambda>(i, t). TWrite (log_text t i)) (enumerate 0 (log_ticks evs))"
  by (simp add: runLogs_def case_prod_beta log_loop_ticks)

end
