(* ===== verification/Spec2Isabelle.thy ===== *)
theory Spec2Isabelle
  imports Agent_Life Agent_Exit Agent_Startup Pair_Prompter Vfs_Correct Shell_Image Shell_Complete Shell_Layout Demo_Programs
begin

text \<open>
  \<^bold>\<open>A verification of the scomp agent.\<close>

  The agent runs on a developer's machine, keeps one websocket connection to a relay, offers the machine's tmux and
  GNU Screen sessions (or, in fakeshell mode, simulated ones) to remote browsers, and passes terminal traffic
  between them.  The relay is remote and only partly trusted: what it may make the agent do to a terminal is the
  core of what is proved.

  \<^bold>\<open>Parts of the program and where they are modelled\<close> (paths under \<^verbatim>\<open>src/\<close>)

  \<^item> Output of a session.  \<open>Ring_Buffer\<close> is \<^verbatim>\<open>internal/ring\<close>, the circular buffer of recent output; the locale
    \<open>bounded_log\<close> is its contract.  \<open>Output_Stream\<close> is \<^verbatim>\<open>internal/stream\<close>: subscribers with bounded channels (a store
    of queues) and overflow callbacks.  Shown: the ring is the last \<open>n\<close> bytes since the last reset; a subscriber
    sees everything in order or is told of the loss; a snapshot and the output after it join without gap or overlap.
  \<^item> Sessions.  \<open>Pty_Session\<close> is \<^verbatim>\<open>internal/pty\<close> (mode tracker, arrow-key translation, read loop, resize).
    \<open>Fake_Session\<close> is \<^verbatim>\<open>fakeshell/session.go\<close> (bounded key queue, TTY, supervisor).  \<open>Terminal\<close> is the interface the
    registry uses, with the locale \<open>terminal_interface\<close> interpreted on both kinds.  \<open>Session_Registry\<close> is
    \<^verbatim>\<open>internal/sessions\<close>: terminals are objects in a heap, each critical section is a step, cleanup goroutines are
    pending steps.  Shown: cleanup removes exactly ended sessions in every interleaving, and one source never has two
    processes.
  \<^item> Discovery.  \<open>Multiplexers\<close> is \<^verbatim>\<open>internal/tmuxsess\<close> and \<^verbatim>\<open>internal/screensess\<close>; \<open>Session_Catalog\<close> is
    \<^verbatim>\<open>cmd/scomp/session_catalog.go\<close> and \<^verbatim>\<open>fakeshell_source.go\<close>, both interpretations of the locale \<open>session_source\<close>.
    Shown: a scan makes the catalog exactly the sessions found, and a snapshot with the later changes stays equal to
    the catalog.
  \<^item> The connection.  \<open>Relay_Protocol\<close> has the messages of \<^verbatim>\<open>protocol\<close>, the handshake and the chunking of snapshots;
    \<open>Agent_Loop\<close> is \<^verbatim>\<open>runAgent\<close> and \<^verbatim>\<open>handleServerMsg\<close> of \<^verbatim>\<open>cmd/scomp/main.go\<close>, with main loop, forwarders, writer
    and reader as the alternatives of one transition function \<open>agent_step\<close>.  \<open>Agent_Input\<close> has the locale
    \<open>input_policy\<close>, interpreted for the read-only and for the approved-only policy; \<open>Agent_Attach\<close> shows that an advertised session can be attached to, and that attaching late loses a
    session whose process has already ended.  \<open>Session_Watch\<close> is \<^verbatim>\<open>session_watch.go\<close>, the watcher that decides when the
    disk is scanned again.  \<open>Agent_Startup\<close> is \<^verbatim>\<open>main\<close> (configuration directory, identity, choice of the source, banner),
    with the two builds of \<^verbatim>\<open>multiplexer.go\<close> and \<^verbatim>\<open>multiplexer_stub.go\<close>: fakeshell mode and normal mode never share an
    identity.  \<open>Agent_Registry\<close> states what one step of a connection may do to the registry as the locale
    \<open>registry_view\<close>, with a view of the table and a view of the processes; \<open>Agent_Teardown\<close> is the end of
    \<^verbatim>\<open>runAgent\<close>: every goroutine of the connection returns and nothing of it stays subscribed; \<open>Agent_Reconnect\<close> is
    the loop of \<^verbatim>\<open>main\<close> over connections, the handshake included: what holds of the registry and the catalog holds
    in every connection of the agent's life, nothing is offered before the handshake is complete, and a silent relay
    ends a connection, or its handshake.  \<open>Agent_Exit\<close> is the signal handler: no linked tmux session stays behind.
  \<^item> From the terminal to the relay.  \<open>Agent_Streams\<close> shows that the registry leaves the streams of its terminals
    alone; \<open>Agent_Forward\<close> that the wire carries, in order, exactly what a forwarder took from its channel;
    \<open>Agent_Links\<close> relates every turn of the agent to the operations on a terminal's stream, so that the laws of
    \<open>Output_Stream\<close> apply to each forwarder; \<open>Agent_Delivery\<close> joins the two for one connection and \<open>Agent_Life\<close> for any
    connection of the agent's life.  \<open>Relay_Reader\<close> is the receiving side that the protocol prescribes.  Shown: what the
    relay decodes is always a prefix of what the terminal printed since the forwarder was started, with exact snapshots
    where they were asked for, and all of it once nothing is on its way.
  \<^item> Trust.  \<open>Auth_Identity\<close> is \<^verbatim>\<open>internal/auth\<close> (locale \<open>lasting_identity\<close>: a UID or key, once created, is never
    replaced, also when two agents start together); \<open>Pair_Prompter\<close> is \<^verbatim>\<open>cmd/scomp/pairing_prompt.go\<close> (a PIN answers
    the prompt that was showing).
  \<^item> The simulated machine.  \<open>Key_Decoder\<close> and \<open>Line_Editor\<close> are \<^verbatim>\<open>fakeshell/term\<close>; \<open>Vfs_Path\<close>, \<open>Vfs\<close>, \<open>Vfs_Overlay\<close>,
    \<open>Vfs_Remove\<close> and \<open>Vfs_Correct\<close> are \<^verbatim>\<open>fakeshell/vfs\<close> with the locale \<open>file_tree\<close>; \<open>Shell_Words\<close>, \<open>Shell\<close>,
    \<open>Shell_Commands\<close>, \<open>Shell_Session\<close>, \<open>Shell_Complete\<close>, \<open>Shell_Layout\<close> and \<open>Shell_Date\<close> are \<^verbatim>\<open>fakeshell/shell.go\<close>,
    \<^verbatim>\<open>commands.go\<close> and \<^verbatim>\<open>date.go\<close>; \<open>Tty_Ops\<close> is the terminal the commands print to; \<open>Shell_Format\<close> and \<open>Go_Float\<close>
    are the verbs of \<^verbatim>\<open>fmt\<close> and the floating-point arithmetic the displays use; \<open>Shell_Uptime\<close> and \<open>Shell_Display\<close>
    are \<^verbatim>\<open>uptime\<close>, \<^verbatim>\<open>df\<close>, \<^verbatim>\<open>free\<close>, \<^verbatim>\<open>ps\<close> and their like, \<open>Proc_Table\<close> is \<^verbatim>\<open>procs.go\<close>, \<open>Shell_Top\<close> is \<^verbatim>\<open>top.go\<close>,
    and \<open>Demo_Programs\<close> is \<^verbatim>\<open>programs.go\<close>; \<open>Shell_Image\<close> builds the machine that is shipped, its file tree included,
    and runs visitors on it one after the other.  Shown: decoding, editing and quoting round trips and bounds, the overlay's quota and
    confinement, removal of exactly a subtree, and that nothing of one visitor's session is left for the next.
  \<^item> Shared.  \<open>Scomp_Prelude\<close> has the list lemmas, the collections of rules and the locale \<open>invariant_machine\<close> (an
    invariant kept by each step holds in every run), which most components interpret; \<open>Go_Strings\<close> and \<open>Go_Encoding\<close>
    are what the code uses of Go's \<^verbatim>\<open>strings\<close>, \<^verbatim>\<open>strconv\<close>, \<^verbatim>\<open>hex\<close>, \<^verbatim>\<open>base64\<close> and UTF-8.

  \<^bold>\<open>Conventions.\<close>  Bytes are characters, strings are byte lists, runes are natural numbers.  A method under a mutex is
  one atomic step; goroutines are steps that may come in any order, so a theorem over all lists of steps holds for
  every interleaving.  Errors are values.  Machine integers are words where they can wrap and integers otherwise.

  \<^bold>\<open>Bounds.\<close>  Removal from the file tree recurses to depth \<open>Suc (length dirs)\<close>, which is proved to be enough.  Retry loops
  over a changing disk take the list of the states the disk goes through.  Event loops take the list of events that
  arrive, and end when it ends; theorems hold for every list.

  \<^bold>\<open>Arguments of the model\<close>, with what is relied on as hypotheses: SHA-256, Ed25519, the random sources (as a stream of
  samples), the clock, the calendar and the time zone, \<^verbatim>\<open>strconv.ParseFloat\<close>, \<^verbatim>\<open>url.Parse\<close>, the results of system
  calls, the output of tmux and screen, and the texts of the embedded files.

  \<^bold>\<open>Floating point.\<close>  A finite \<^verbatim>\<open>float64\<close> is a rational number rounded to 53 bits after each operation, and a
  \<^verbatim>\<open>NaN\<close> is no value where one can come up; overflow, subnormal numbers and fused multiply-add are left out, since
  the values that occur are far from the limits.

  \<^bold>\<open>Not modelled.\<close>  The library's parts: the parsing of the command line (the flags' values are arguments), logging, the
  framing of the websocket (whether a dial, a read or a write succeeds is an argument), JSON, and the drawing of the
  QR code.  The texts of the embedded files are an argument.  The operating system's parts: running tmux, screen and the
  processes themselves.  The model does not follow commands that tmux or screen were given.
\<close>

end
